(* ===== verification/Go_Prelude.thy ===== *)
theory Go_Prelude
  imports Main "HOL-Library.Word" "HOL-Library.Sublist"
begin

text \<open>
  The part of the Go language and of its standard library that the program uses,
  and the lemma collections the component theories share.

  A Go string is a byte sequence and is modelled by \<^typ>\<open>string\<close>.  An index
  that Go reports as -1 is \<^term>\<open>None\<close>.  An \<open>error\<close> value is a message with the
  list of sentinel errors it wraps, so that \<open>errors.Is\<close> is list membership and
  \<open>fmt.Errorf\<close> with \<open>%w\<close> keeps the wrapped sentinels.  Times and durations are
  numbers of nanoseconds.  The current time is always an argument.
\<close>

named_theorems go_string_simps
named_theorems result_simps
named_theorems record_defs

section \<open>Package strings\<close>

definition HasPrefix :: "string \<Rightarrow> string \<Rightarrow> bool" where
  "HasPrefix s p = (take (length p) s = p)"

definition HasSuffix :: "string \<Rightarrow> string \<Rightarrow> bool" where
  "HasSuffix s p = (length p \<le> length s \<and> drop (length s - length p) s = p)"

definition TrimPrefix :: "string \<Rightarrow> string \<Rightarrow> string" where
  "TrimPrefix s p = (if HasPrefix s p then drop (length p) s else s)"

definition TrimSuffix :: "string \<Rightarrow> string \<Rightarrow> string" where
  "TrimSuffix s p = (if HasSuffix s p then take (length s - length p) s else s)"

definition CutPrefix :: "string \<Rightarrow> string \<Rightarrow> string option" where
  "CutPrefix s p = (if HasPrefix s p then Some (drop (length p) s) else None)"

fun IndexByte :: "string \<Rightarrow> char \<Rightarrow> nat option" where
  "IndexByte [] c = None"
| "IndexByte (x # xs) c = (if x = c then Some 0 else map_option Suc (IndexByte xs c))"

fun LastIndexByte :: "string \<Rightarrow> char \<Rightarrow> nat option" where
  "LastIndexByte [] c = None"
| "LastIndexByte (x # xs) c =
     (case LastIndexByte xs c of
        Some i \<Rightarrow> Some (Suc i)
      | None \<Rightarrow> (if x = c then Some 0 else None))"

fun Index :: "string \<Rightarrow> string \<Rightarrow> nat option" where
  "Index [] sub = (if sub = [] then Some 0 else None)"
| "Index (x # xs) sub =
     (if HasPrefix (x # xs) sub then Some 0 else map_option Suc (Index xs sub))"

definition Contains :: "string \<Rightarrow> string \<Rightarrow> bool" where
  "Contains s sub = (Index s sub \<noteq> None)"

text \<open>\<open>strings.Cut\<close> and \<open>strings.CutLast\<close> for a one-byte separator: None when it is absent.\<close>

definition Cut :: "string \<Rightarrow> char \<Rightarrow> (string \<times> string) option" where
  "Cut s c = (case IndexByte s c of None \<Rightarrow> None | Some i \<Rightarrow> Some (take i s, drop (Suc i) s))"

definition CutLast :: "string \<Rightarrow> char \<Rightarrow> (string \<times> string) option" where
  "CutLast s c = (case LastIndexByte s c of None \<Rightarrow> None | Some i \<Rightarrow> Some (take i s, drop (Suc i) s))"

fun Split :: "string \<Rightarrow> char \<Rightarrow> string list" where
  "Split [] c = [[]]"
| "Split (x # xs) c =
     (if x = c then [] # Split xs c
      else (case Split xs c of [] \<Rightarrow> [[x]] | y # ys \<Rightarrow> (x # y) # ys))"

fun Join :: "string list \<Rightarrow> string \<Rightarrow> string" where
  "Join [] sep = []"
| "Join [x] sep = x"
| "Join (x # y # ys) sep = x @ sep @ Join (y # ys) sep"

text \<open>Case folding of \<open>strings.ToLower\<close>, \<open>strings.ToUpper\<close> and \<open>strings.EqualFold\<close> on ASCII
  letters.  Other bytes are left as they are.\<close>

definition lower_char :: "char \<Rightarrow> char" where
  "lower_char c = (let n = of_char c :: nat in if 65 \<le> n \<and> n \<le> 90 then char_of (n + 32) else c)"

definition upper_char :: "char \<Rightarrow> char" where
  "upper_char c = (let n = of_char c :: nat in if 97 \<le> n \<and> n \<le> 122 then char_of (n - 32) else c)"

definition ToLower :: "string \<Rightarrow> string" where
  "ToLower s = map lower_char s"

definition ToUpper :: "string \<Rightarrow> string" where
  "ToUpper s = map upper_char s"

definition EqualFold :: "string \<Rightarrow> string \<Rightarrow> bool" where
  "EqualFold s t = (ToLower s = ToLower t)"

definition is_space :: "char \<Rightarrow> bool" where
  "is_space c = (of_char c \<in> {9, 10, 11, 12, 13, 32 :: nat})"

definition TrimSpace :: "string \<Rightarrow> string" where
  "TrimSpace s = rev (dropWhile is_space (rev (dropWhile is_space s)))"

text \<open>\<open>%q\<close> of \<open>fmt\<close>, for strings that need no escape.\<close>

definition quoted :: "string \<Rightarrow> string" where
  "quoted s = CHR 0x22 # s @ [CHR 0x22]"

section \<open>Package path/filepath\<close>

text \<open>\<open>filepath.Clean\<close> on a slash-separated path: the elements are scanned left to right,
  empty and dot elements are dropped and a dot-dot element removes the element before it.\<close>

fun clean_elems :: "bool \<Rightarrow> string list \<Rightarrow> string list \<Rightarrow> string list" where
  "clean_elems rooted out [] = rev out"
| "clean_elems rooted out (e # es) =
     (if e = [] \<or> e = ''.'' then clean_elems rooted out es
      else if e = ''..'' then
        (case out of
           [] \<Rightarrow> (if rooted then clean_elems rooted [] es else clean_elems rooted [e] es)
         | p # ps \<Rightarrow> (if p = ''..'' then clean_elems rooted (e # out) es
                     else clean_elems rooted ps es))
      else clean_elems rooted (e # out) es)"

definition filepath_Clean :: "string \<Rightarrow> string" where
  "filepath_Clean p =
     (let rooted = HasPrefix p ''/'';
          body = Join (clean_elems rooted [] (Split p (CHR ''/''))) ''/''
      in if rooted then ''/'' @ body else if body = [] then ''.'' else body)"

section \<open>Errors\<close>

datatype sentinel =
    ErrVerificationFailed | ErrDigestRequired | ErrNotApplicable | ErrInvalidAction | ErrInvalidPolicy | ErrModeNotStricter
  | ErrAttestationVerificationFailed | ErrIncompleteAttestationSet | ErrTrustMaterialUnavailable | ErrTrustedKeyUnavailable
  | ErrCircuitBreakerOpen | ErrEmptyDigest | ErrVerifierStopped | ErrVerificationInProgress | ErrVerificationPanic
  | ErrBuilderSignerMismatch | ErrNotationNotConfigured | ErrInvalidVSA
  | ErrGUACAuthError | ErrGUACUnavailable | ErrGUACQueryFailed
  | ErrContextCanceled | ErrDeadlineExceeded
  | ErrNoPlatformMatch | ErrAmbiguousPlatform
  | ErrMissingAnnotations | ErrAdmissionTimeout | ErrRuntimeConfigPending | ErrImageDenied

record goerr =
  err_msg :: string
  err_wraps :: "sentinel list"

definition errors_New :: "string \<Rightarrow> sentinel list \<Rightarrow> goerr" where
  "errors_New m ss = \<lparr>err_msg = m, err_wraps = ss\<rparr>"

definition errors_Is :: "goerr \<Rightarrow> sentinel \<Rightarrow> bool" where
  "errors_Is e s = (s \<in> set (err_wraps e))"

text \<open>\<open>fmt.Errorf\<close> with one \<open>%w\<close> verb: the prefix is prepended, the wrapped sentinels stay.\<close>

definition Errorf_w :: "string \<Rightarrow> goerr \<Rightarrow> goerr" where
  "Errorf_w pre e = \<lparr>err_msg = pre @ '': '' @ err_msg e, err_wraps = err_wraps e\<rparr>"

lemma errors_Is_New [simp]: "errors_Is (errors_New m ss) s \<longleftrightarrow> s \<in> set ss"
  by (simp add: errors_Is_def errors_New_def)

lemma errors_Is_Errorf_w [simp]: "errors_Is (Errorf_w p e) s \<longleftrightarrow> errors_Is e s"
  by (simp add: errors_Is_def Errorf_w_def)

section \<open>Times and durations\<close>

type_synonym time = int
type_synonym duration = int

definition int64_max :: int where
  "int64_max = 9223372036854775807"

definition int64_min :: int where
  "int64_min = - 9223372036854775808"

abbreviation millisecond :: duration where "millisecond \<equiv> 1000000"
abbreviation seconds :: duration where "seconds \<equiv> 1000000000"
abbreviation minutes :: duration where "minutes \<equiv> 60000000000"
abbreviation hours :: duration where "hours \<equiv> 3600000000000"

text \<open>\<open>Time.Sub\<close> saturates at the bounds of a 64-bit duration.\<close>

definition time_Sub :: "time \<Rightarrow> time \<Rightarrow> duration" where
  "time_Sub t u = max int64_min (min int64_max (t - u))"

lemma time_Sub_exact:
  "int64_min \<le> t - u \<Longrightarrow> t - u \<le> int64_max \<Longrightarrow> time_Sub t u = t - u"
  by (simp add: time_Sub_def)

lemma time_Sub_mono_left: "t \<le> t' \<Longrightarrow> time_Sub t u \<le> time_Sub t' u"
  by (auto simp: time_Sub_def)

lemma time_Sub_le_iff:
  assumes "int64_min \<le> d" "d < int64_max"
  shows "time_Sub t u \<le> d \<longleftrightarrow> t - u \<le> d"
  using assms by (auto simp: time_Sub_def int64_min_def int64_max_def)

lemma time_Sub_less_iff:
  assumes "int64_min < d" "d \<le> int64_max"
  shows "time_Sub t u < d \<longleftrightarrow> t - u < d"
  using assms by (auto simp: time_Sub_def int64_min_def int64_max_def)

section \<open>Lemmas on the string functions\<close>

lemma HasPrefix_iff_append: "HasPrefix s p \<longleftrightarrow> (\<exists>t. s = p @ t)"
  by (metis HasPrefix_def append_eq_conv_conj append_take_drop_id)

lemma HasPrefix_append [simp]: "HasPrefix (p @ t) p"
  by (simp add: HasPrefix_def)

lemma HasPrefix_Nil [simp]: "HasPrefix s []"
  by (simp add: HasPrefix_def)

lemma TrimPrefix_append [simp]: "TrimPrefix (p @ t) p = t"
  by (simp add: TrimPrefix_def)

lemma IndexByte_None_iff: "IndexByte s c = None \<longleftrightarrow> c \<notin> set s"
  by (induction s) auto

lemma LastIndexByte_None_iff: "LastIndexByte s c = None \<longleftrightarrow> c \<notin> set s"
  by (induction s) (auto split: option.splits)

lemmas IndexByte_absent [simp] = iffD2 [OF IndexByte_None_iff]
lemmas LastIndexByte_absent [simp] = iffD2 [OF LastIndexByte_None_iff]

lemma IndexByte_SomeD:
  "IndexByte s c = Some i \<Longrightarrow> i < length s \<and> s ! i = c \<and> c \<notin> set (take i s)"
  by (induction s arbitrary: i) (auto split: if_splits)

lemma LastIndexByte_SomeD:
  "LastIndexByte s c = Some i \<Longrightarrow> i < length s \<and> s ! i = c \<and> c \<notin> set (drop (Suc i) s)"
  by (induction s arbitrary: i) (auto simp: LastIndexByte_None_iff split: if_splits option.splits)

lemma IndexByte_append:
  "c \<notin> set p \<Longrightarrow> IndexByte (p @ c # t) c = Some (length p)"
  by (induction p) auto

lemma LastIndexByte_append:
  "c \<notin> set t \<Longrightarrow> LastIndexByte (p @ c # t) c = Some (length p)"
proof (induction p)
  case Nil
  then show ?case by simp
next
  case (Cons a p)
  then show ?case by simp
qed

lemma Cut_Some_iff:
  "Cut s c = Some (a, b) \<longleftrightarrow> s = a @ c # b \<and> c \<notin> set a"
proof
  assume "Cut s c = Some (a, b)"
  then obtain i where i: "IndexByte s c = Some i" "a = take i s" "b = drop (Suc i) s"
    by (auto simp: Cut_def split: option.splits)
  with IndexByte_SomeD [OF i(1)] show "s = a @ c # b \<and> c \<notin> set a"
    by (auto simp: id_take_nth_drop)
next
  assume "s = a @ c # b \<and> c \<notin> set a"
  then show "Cut s c = Some (a, b)" by (simp add: Cut_def IndexByte_append)
qed

lemma Cut_None_iff: "Cut s c = None \<longleftrightarrow> c \<notin> set s"
  unfolding Cut_def using IndexByte_None_iff [of s c] by (cases "IndexByte s c") auto

lemma CutLast_Some_iff:
  "CutLast s c = Some (a, b) \<longleftrightarrow> s = a @ c # b \<and> c \<notin> set b"
proof
  assume "CutLast s c = Some (a, b)"
  then obtain i where i: "LastIndexByte s c = Some i" "a = take i s" "b = drop (Suc i) s"
    by (auto simp: CutLast_def split: option.splits)
  with LastIndexByte_SomeD [OF i(1)] show "s = a @ c # b \<and> c \<notin> set b"
    by (auto simp: id_take_nth_drop)
next
  assume "s = a @ c # b \<and> c \<notin> set b"
  then show "CutLast s c = Some (a, b)" by (simp add: CutLast_def LastIndexByte_append)
qed

lemma CutLast_None_iff: "CutLast s c = None \<longleftrightarrow> c \<notin> set s"
  unfolding CutLast_def using LastIndexByte_None_iff [of s c] by (cases "LastIndexByte s c") auto

lemma Split_nonempty [simp]: "Split s c \<noteq> []"
  by (induction s) (auto split: list.splits)

lemma Split_no_sep: "x \<in> set (Split s c) \<Longrightarrow> c \<notin> set x"
  by (induction s arbitrary: x) (auto split: list.splits if_splits)

lemma Join_Split: "Join (Split s c) [c] = s"
proof (induction s)
  case (Cons a s)
  then show ?case
    by (cases "Split s c"; cases "tl (Split s c)") auto
qed simp

lemma Split_append_sep:
  "c \<notin> set a \<Longrightarrow> Split (a @ c # b) c = a # Split b c"
  by (induction a) auto

lemma Split_free: "c \<notin> set a \<Longrightarrow> Split a c = [a]"
  by (induction a) auto

lemma Split_Join:
  "xs \<noteq> [] \<Longrightarrow> \<forall>x\<in>set xs. c \<notin> set x \<Longrightarrow> Split (Join xs [c]) c = xs"
  by (induction xs "[c]" rule: Join.induct) (auto simp: Split_append_sep Split_free)

lemma lower_char_idem [simp]: "lower_char (lower_char c) = lower_char c"
  by (auto simp: lower_char_def Let_def)

lemma ToLower_idem [simp]: "ToLower (ToLower s) = ToLower s"
  by (simp add: ToLower_def)

lemma ToLower_append [simp]: "ToLower (s @ t) = ToLower s @ ToLower t"
  by (simp add: ToLower_def)

lemma ToLower_Nil_iff [simp]: "ToLower s = [] \<longleftrightarrow> s = []"
  by (simp add: ToLower_def)

lemmas go_string_defs =
  HasPrefix_def HasSuffix_def TrimPrefix_def TrimSuffix_def Contains_def
  ToLower_def lower_char_def ToUpper_def upper_char_def TrimSpace_def is_space_def

end
