(* ===== verification/Glob.thy ===== *)
theory Glob
  imports Go_Prelude
begin

text \<open>
  Package \<open>internal/glob\<close>: glob patterns compiled to regular expressions, and the patterns of
  \<open>trust.sources\<close>.

  A rune is a natural number and \<open>runes\<close> is Go's conversion of a string to runes.  The first
  section models the fragment of package \<open>regexp\<close> that the generated expressions use: the parser
  (escapes, the dot, bracket classes with ranges, the star and the two anchors) and the matcher.
  Everything outside the fragment, like every syntax error, is None.  A POSIX class opener
  \<open>[:\<close> inside a class searches the rest of the whole expression for \<open>:]\<close>, as Go's parser does; in
  the classes generated here a group that Go knows then lacks its closing bracket and a group it
  does not know is refused, so both are errors.  The section \<open>Reference semantics\<close> defines what a glob
  pattern means without regular expressions; the theorems show that \<open>Match\<close> computes it.
\<close>

section \<open>Runes\<close>

type_synonym rune = nat

definition cont_byte :: "nat \<Rightarrow> bool" where
  "cont_byte b = (128 \<le> b \<and> b \<le> 191)"

definition rune_error :: rune where
  "rune_error = 65533"

text \<open>The rune at the front of a byte sequence and its width (invalid input has width 1).\<close>

definition decode_rune :: "nat list \<Rightarrow> rune \<times> nat" where
  "decode_rune bs =
     (let b0 = bs ! 0; n = length bs
      in if b0 < 128 then (b0, 1)
         else if 194 \<le> b0 \<and> b0 \<le> 223 \<and> n \<ge> 2 \<and> cont_byte (bs ! 1) then
           ((b0 - 192) * 64 + (bs ! 1 - 128), 2)
         else if 224 \<le> b0 \<and> b0 \<le> 239 \<and> n \<ge> 3 \<and> cont_byte (bs ! 1) \<and> cont_byte (bs ! 2)
              \<and> (b0 = 224 \<longrightarrow> 160 \<le> bs ! 1) \<and> (b0 = 237 \<longrightarrow> bs ! 1 \<le> 159) then
           ((b0 - 224) * 4096 + (bs ! 1 - 128) * 64 + (bs ! 2 - 128), 3)
         else if 240 \<le> b0 \<and> b0 \<le> 244 \<and> n \<ge> 4 \<and> cont_byte (bs ! 1) \<and> cont_byte (bs ! 2)
              \<and> cont_byte (bs ! 3) \<and> (b0 = 240 \<longrightarrow> 144 \<le> bs ! 1) \<and> (b0 = 244 \<longrightarrow> bs ! 1 \<le> 143) then
           ((b0 - 240) * 262144 + (bs ! 1 - 128) * 4096 + (bs ! 2 - 128) * 64 + (bs ! 3 - 128), 4)
         else (rune_error, 1))"

lemma decode_rune_width: "0 < snd (decode_rune bs)"
  by (simp add: decode_rune_def Let_def)

function decode_runes :: "nat list \<Rightarrow> rune list" where
  "decode_runes bs =
     (if bs = [] then []
      else fst (decode_rune bs) # decode_runes (drop (snd (decode_rune bs)) bs))"
  by pat_completeness auto
termination
  by (relation "measure length") (auto simp: decode_rune_width)

declare decode_runes.simps [simp del]

definition runes :: "string \<Rightarrow> rune list" where
  "runes s = decode_runes (map of_char s)"

lemma decode_runes_ascii:
  "\<forall>b\<in>set bs. b < 128 \<Longrightarrow> decode_runes bs = bs"
proof (induction bs)
  case (Cons b bs)
  then have "decode_rune (b # bs) = (b, 1)" by (simp add: decode_rune_def)
  with Cons show ?case by (simp add: decode_runes.simps [of "b # bs"])
qed (simp add: decode_runes.simps)

section \<open>The fragment of package regexp\<close>

definition is_meta :: "rune \<Rightarrow> bool" where
  "is_meta r = (r \<in> {92, 46, 43, 42, 63, 40, 41, 124, 91, 93, 123, 125, 94, 36})"

definition QuoteMeta :: "rune \<Rightarrow> rune list" where
  "QuoteMeta r = (if is_meta r then [92, r] else [r])"

definition is_punct :: "rune \<Rightarrow> bool" where
  "is_punct r = (r < 128 \<and> \<not> (48 \<le> r \<and> r \<le> 57 \<or> 65 \<le> r \<and> r \<le> 90 \<or> 97 \<le> r \<and> r \<le> 122))"

datatype cset = CLit rune | CDot | CClass bool "(rune \<times> rune) list"

datatype reitem = ROne cset | RStar cset | RBegin | REnd

definition in_ranges :: "rune \<Rightarrow> (rune \<times> rune) list \<Rightarrow> bool" where
  "in_ranges r rs = list_ex (\<lambda>(lo, hi). lo \<le> r \<and> r \<le> hi) rs"

fun cset_match :: "cset \<Rightarrow> rune \<Rightarrow> bool" where
  "cset_match (CLit c) r = (r = c)"
| "cset_match CDot r = (r \<noteq> 10)"
| "cset_match (CClass neg rs) r = (in_ranges r rs \<noteq> neg)"

fun class_char :: "rune list \<Rightarrow> (rune \<times> rune list) option" where
  "class_char [] = None"
| "class_char (c # t) =
     (if c = 92 then (case t of [] \<Rightarrow> None | d # u \<Rightarrow> if is_punct d then Some (d, u) else None)
      else Some (c, t))"

fun has_posix_end :: "rune list \<Rightarrow> bool" where
  "has_posix_end (a # b # t) = (a = 58 \<and> b = 93 \<or> has_posix_end (b # t))"
| "has_posix_end _ = False"

definition posix_opener :: "rune list \<Rightarrow> bool" where
  "posix_opener t = (length t > 2 \<and> take 2 t = [91, 58] \<and> has_posix_end (drop 2 t))"

lemma class_char_length: "class_char t = Some (c, u) \<Longrightarrow> length u < length t"
  by (cases t) (auto split: if_splits list.splits)

function parse_class ::
  "bool \<Rightarrow> rune list \<Rightarrow> (rune \<times> rune) list \<Rightarrow> ((rune \<times> rune) list \<times> rune list) option" where
  "parse_class first t acc =
     (if t \<noteq> [] \<and> hd t = 93 \<and> \<not> first then Some (acc, tl t)
      else if posix_opener t then None
      else
        (case class_char t of
           None \<Rightarrow> None
         | Some (lo, t1) \<Rightarrow>
             if length t1 \<ge> 2 \<and> t1 ! 0 = 45 \<and> t1 ! 1 \<noteq> 93 then
               (case class_char (tl t1) of
                  None \<Rightarrow> None
                | Some (hi, t2) \<Rightarrow>
                    if hi < lo then None else parse_class False t2 (acc @ [(lo, hi)]))
             else parse_class False t1 (acc @ [(lo, lo)])))"
  by pat_completeness auto
termination
  by (relation "measure (\<lambda>(_, t, _). length t)") (auto dest!: class_char_length)

declare parse_class.simps [simp del]

lemma parse_class_length:
  "parse_class first t acc = Some (rs, rest) \<Longrightarrow> length rest < length t"
proof (induction first t acc arbitrary: rs rest rule: parse_class.induct)
  case (1 first t acc)
  show ?case
  proof (cases "t \<noteq> [] \<and> hd t = 93 \<and> \<not> first")
    case True
    then have "parse_class first t acc = Some (acc, tl t)" by (subst parse_class.simps) simp
    with 1(3) True show ?thesis by simp
  next
    case F: False
    with 1(3) obtain lo t1 where p: "\<not> posix_opener t" "class_char t = Some (lo, t1)"
      by (auto simp: parse_class.simps [of first t acc] split: option.splits if_splits)
    note l1 = class_char_length [OF p(2)]
    show ?thesis
    proof (cases "length t1 \<ge> 2 \<and> t1 ! 0 = 45 \<and> t1 ! 1 \<noteq> 93")
      case True
      with 1(3) F p obtain hi t2 where q: "class_char (tl t1) = Some (hi, t2)" "\<not> hi < lo"
        "parse_class False t2 (acc @ [(lo, hi)]) = Some (rs, rest)"
        by (auto simp: parse_class.simps [of first t acc] split: option.splits if_splits)
      from 1(1) [OF F p refl True q(1) refl q(2,3)] l1 class_char_length [OF q(1)]
      show ?thesis by simp
    next
      case False
      with 1(3) F p have "parse_class False t1 (acc @ [(lo, lo)]) = Some (rs, rest)"
        by (auto simp: parse_class.simps [of first t acc])
      from 1(2) [OF F p refl False this] l1 show ?thesis by simp
    qed
  qed
qed

definition parse_atom :: "rune list \<Rightarrow> (cset \<times> rune list) option" where
  "parse_atom s =
     (case s of
        [] \<Rightarrow> None
      | c # t \<Rightarrow>
          if c = 92 then (case t of [] \<Rightarrow> None | d # u \<Rightarrow> if is_punct d then Some (CLit d, u) else None)
          else if c = 46 then Some (CDot, t)
          else if c = 91 then
            (let neg = (t \<noteq> [] \<and> hd t = 94); t' = (if neg then tl t else t)
             in case parse_class True t' [] of None \<Rightarrow> None | Some (rs, rest) \<Rightarrow> Some (CClass neg rs, rest))
          else if is_meta c then None
          else Some (CLit c, t))"

lemma parse_atom_length: "parse_atom s = Some (c, t) \<Longrightarrow> length t < length s"
  by (auto simp: parse_atom_def Let_def dest!: parse_class_length
      split: list.splits if_splits option.splits)

function parse_re :: "rune list \<Rightarrow> reitem list option" where
  "parse_re s =
     (if s = [] then Some []
      else if hd s = 94 then map_option ((#) RBegin) (parse_re (tl s))
      else if hd s = 36 then map_option ((#) REnd) (parse_re (tl s))
      else
        (case parse_atom s of
           None \<Rightarrow> None
         | Some (c, t) \<Rightarrow>
             if t \<noteq> [] \<and> hd t = 42 then
               (if tl t \<noteq> [] \<and> hd (tl t) \<in> {42, 43, 63, 123} then None
                else map_option ((#) (RStar c)) (parse_re (tl t)))
             else map_option ((#) (ROne c)) (parse_re t)))"
  by pat_completeness auto
termination
  by (relation "measure length") (auto dest!: parse_atom_length)

declare parse_re.simps [simp del]

definition regexp_Compile :: "rune list \<Rightarrow> reitem list option" where
  "regexp_Compile s = parse_re s"

fun re_match :: "reitem list \<Rightarrow> bool \<Rightarrow> rune list \<Rightarrow> bool" where
  "re_match [] b s = True"
| "re_match (ROne c # is) b s = (case s of [] \<Rightarrow> False | x # xs \<Rightarrow> cset_match c x \<and> re_match is False xs)"
| "re_match (RStar c # is) b s =
     (re_match is b s \<or> (case s of [] \<Rightarrow> False | x # xs \<Rightarrow> cset_match c x \<and> re_match (RStar c # is) False xs))"
| "re_match (RBegin # is) b s = (b \<and> re_match is b s)"
| "re_match (REnd # is) b s = (s = [] \<and> re_match is b s)"

fun re_search :: "reitem list \<Rightarrow> bool \<Rightarrow> rune list \<Rightarrow> bool" where
  "re_search is b [] = re_match is b []"
| "re_search is b (x # xs) = (re_match is b (x # xs) \<or> re_search is False xs)"

definition MatchString :: "reitem list \<Rightarrow> string \<Rightarrow> bool" where
  "MatchString is text = re_search is True (runes text)"

section \<open>Translation of a pattern\<close>

definition isClassNegation :: "rune \<Rightarrow> bool" where
  "isClassNegation r = (r = 94 \<or> r = 33)"

text \<open>The scanning loop of \<open>findBracketEnd\<close>, over the runes from index \<open>idx\<close> on.\<close>

fun bracket_scan :: "rune list \<Rightarrow> nat \<Rightarrow> nat option" where
  "bracket_scan [] idx = None"
| "bracket_scan (r # rs) idx =
     (if r = 92 \<and> rs \<noteq> [] then (case rs of [] \<Rightarrow> None | _ # rs' \<Rightarrow> bracket_scan rs' (idx + 2))
      else if r = 93 then Some idx
      else bracket_scan rs (Suc idx))"

definition findBracketEnd :: "rune list \<Rightarrow> nat \<Rightarrow> nat option" where
  "findBracketEnd rs start =
     (let i1 = start + 1;
          i2 = (if i1 < length rs \<and> isClassNegation (rs ! i1) then i1 + 1 else i1);
          i3 = (if i2 < length rs \<and> rs ! i2 = 93 then i2 + 1 else i2)
      in bracket_scan (drop i3 rs) i3)"

text \<open>\<open>writeClassOpening\<close>: what is written and the index of the first unprocessed member.\<close>

definition writeClassOpening :: "rune list \<Rightarrow> rune list \<times> nat" where
  "writeClassOpening rs =
     (let n = length rs;
          (out1, s1) =
            (if n > 2 \<and> isClassNegation (rs ! 1) then
               (if 2 < n - 1 \<and> rs ! 2 = 45 then ([rs ! 0, 94, 47, 92, 45], 3) else ([rs ! 0, 94, 47], 2))
             else ([rs ! 0], 1))
      in if s1 < n - 1 \<and> rs ! s1 = 93 then (out1 @ [92, 93], s1 + 1) else (out1, s1))"

fun escape_members :: "rune list \<Rightarrow> rune list" where
  "escape_members [] = []"
| "escape_members (r # rs) =
     (if r = 92 \<and> rs \<noteq> [] then
        (case rs of [] \<Rightarrow> []
         | ch # rs' \<Rightarrow> (if ch = 92 \<or> ch = 93 \<or> ch = 45 \<or> ch = 94 then [92, ch] else [ch]) @ escape_members rs')
      else r # escape_members rs)"

definition escapeCharClass :: "rune list \<Rightarrow> rune list" where
  "escapeCharClass rs =
     (let (opening, start) = writeClassOpening rs
      in opening @ escape_members (drop start (butlast rs)) @ [last rs])"

definition convertBracketExpr :: "rune list \<Rightarrow> nat \<Rightarrow> rune list \<times> nat" where
  "convertBracketExpr rs idx =
     (case findBracketEnd rs idx of
        None \<Rightarrow> (QuoteMeta 91, idx)
      | Some e \<Rightarrow>
          let cls = escapeCharClass (drop idx (take (e + 1) rs))
          in if regexp_Compile cls = None then (concat (map QuoteMeta (drop idx (take (e + 1) rs))), e)
             else (cls, e))"

definition expandStar :: "rune list \<Rightarrow> nat \<Rightarrow> rune list \<times> nat" where
  "expandStar rs idx =
     (if idx + 1 < length rs \<and> rs ! (idx + 1) = 42 then ([46, 42], idx + 1) else ([91, 94, 47, 93, 42], idx))"

lemma bracket_scan_ge: "bracket_scan rs i = Some e \<Longrightarrow> i \<le> e"
  by (induction rs i rule: bracket_scan.induct) (force split: if_splits list.splits)+

lemma findBracketEnd_gt: "findBracketEnd rs i = Some e \<Longrightarrow> i < e"
  by (auto simp: findBracketEnd_def Let_def dest!: bracket_scan_ge split: if_splits)

text \<open>The loop of \<open>ToRegex\<close> from index \<open>idx\<close> on.\<close>

function to_regex_from :: "rune list \<Rightarrow> nat \<Rightarrow> rune list" where
  "to_regex_from rs idx =
     (if idx \<ge> length rs then []
      else if rs ! idx = 92 then
        (if idx + 1 < length rs then QuoteMeta (rs ! (idx + 1)) @ to_regex_from rs (idx + 2)
         else QuoteMeta 92 @ to_regex_from rs (idx + 1))
      else if rs ! idx = 42 then
        (let (starExpr, idx') = expandStar rs idx in starExpr @ to_regex_from rs (idx' + 1))
      else if rs ! idx = 63 then [91, 94, 47, 93] @ to_regex_from rs (idx + 1)
      else if rs ! idx = 91 then
        (let (converted, end) = convertBracketExpr rs idx
         in converted @ to_regex_from rs ((if end > idx then end else idx) + 1))
      else QuoteMeta (rs ! idx) @ to_regex_from rs (idx + 1))"
  by pat_completeness auto
termination
  by (relation "measure (\<lambda>(rs, idx). length rs - idx)") (auto simp: expandStar_def split: if_splits)

declare to_regex_from.simps [simp del]

definition ToRegex :: "string \<Rightarrow> rune list" where
  "ToRegex pattern = to_regex_from (runes pattern) 0"

definition errInvalidCharClass :: goerr where
  "errInvalidCharClass = errors_New ''invalid character class'' [ErrInvalidPolicy]"

function validate_from :: "rune list \<Rightarrow> nat \<Rightarrow> goerr option" where
  "validate_from rs idx =
     (if idx \<ge> length rs then None
      else if rs ! idx = 92 then validate_from rs (idx + 2)
      else if rs ! idx = 91 then
        (case findBracketEnd rs idx of
           None \<Rightarrow> validate_from rs (idx + 1)
         | Some e \<Rightarrow>
             if regexp_Compile (escapeCharClass (drop idx (take (e + 1) rs))) = None
             then Some errInvalidCharClass
             else validate_from rs (e + 1))
      else validate_from rs (idx + 1))"
  by pat_completeness auto
termination
  by (relation "measure (\<lambda>(rs, idx). length rs - idx)") (auto dest: findBracketEnd_gt)

declare validate_from.simps [simp del]

definition Validate :: "string \<Rightarrow> goerr option" where
  "Validate pattern = validate_from (runes pattern) 0"

function bang_from :: "rune list \<Rightarrow> nat \<Rightarrow> bool" where
  "bang_from rs idx =
     (if idx \<ge> length rs then False
      else if rs ! idx = 92 then bang_from rs (idx + 2)
      else if rs ! idx = 91 \<and> idx + 1 < length rs \<and> rs ! (idx + 1) = 33
              \<and> (case findBracketEnd rs idx of None \<Rightarrow> False | Some e \<Rightarrow> e > idx) then True
      else bang_from rs (idx + 1))"
  by pat_completeness auto
termination
  by (relation "measure (\<lambda>(rs, idx). length rs - idx)") auto

declare bang_from.simps [simp del]

definition HasBangNegation :: "string \<Rightarrow> bool" where
  "HasBangNegation pattern = bang_from (runes pattern) 0"

section \<open>Compilation and its cache\<close>

record glob_cache =
  compiledPatterns :: "string \<rightharpoonup> reitem list"
  cachedCount :: int

definition maxCachedPatterns :: int where
  "maxCachedPatterns = 10000"

definition ResetCache :: "glob_cache \<Rightarrow> glob_cache" where
  "ResetCache st = \<lparr>compiledPatterns = Map.empty, cachedCount = 0\<rparr>"

definition compile :: "glob_cache \<Rightarrow> string \<Rightarrow> (goerr + reitem list) \<times> glob_cache" where
  "compile st pattern =
     (case compiledPatterns st pattern of
        Some re \<Rightarrow> (Inr re, st)
      | None \<Rightarrow>
          (case Validate pattern of
             Some e \<Rightarrow> (Inl e, st)
           | None \<Rightarrow>
               (case regexp_Compile ([94] @ ToRegex pattern @ [36]) of
                  None \<Rightarrow> (Inl (errors_New ''compiling regexp'' []), st)
                | Some re \<Rightarrow>
                    (Inr re,
                     if cachedCount st < maxCachedPatterns then
                       \<lparr>compiledPatterns = (compiledPatterns st)(pattern \<mapsto> re),
                        cachedCount = cachedCount st + 1\<rparr>
                     else st))))"

definition Match :: "glob_cache \<Rightarrow> string \<Rightarrow> string \<Rightarrow> (goerr + bool) \<times> glob_cache" where
  "Match st pattern text =
     (case compile st pattern of
        (Inl e, st') \<Rightarrow> (Inl (Errorf_w (''compiling glob pattern '' @ quoted pattern) e), st')
      | (Inr re, st') \<Rightarrow> (Inr (MatchString re text), st'))"

definition empty_cache :: glob_cache where
  "empty_cache = \<lparr>compiledPatterns = Map.empty, cachedCount = 0\<rparr>"

text \<open>The result of \<open>Match\<close>; it does not depend on the cache (\<open>Match_cache_independent\<close>).\<close>

definition glob_Match :: "string \<Rightarrow> string \<Rightarrow> goerr + bool" where
  "glob_Match pattern text = fst (Match empty_cache pattern text)"

section \<open>Patterns of trust.sources\<close>

definition SplitGitRef :: "string \<Rightarrow> string \<times> string \<times> bool" where
  "SplitGitRef uri =
     (let trimmed = TrimPrefix uri ''git+'';
          split = (\<lambda>pathStart.
            case IndexByte (drop pathStart trimmed) (CHR ''@'') of
              Some at \<Rightarrow> (take (pathStart + at) trimmed, drop (pathStart + at + 1) trimmed, True)
            | None \<Rightarrow> (trimmed, [], False))
      in case Index trimmed ''://'' of
           Some schemeEnd \<Rightarrow>
             (case IndexByte (drop (schemeEnd + 3) trimmed) (CHR ''/'') of
                None \<Rightarrow> (trimmed, [], False)
              | Some slash \<Rightarrow> split (schemeEnd + 3 + slash))
         | None \<Rightarrow>
             (case IndexByte trimmed (CHR '':'') of
                Some colon \<Rightarrow>
                  if Contains (take colon trimmed) ''@'' \<and> \<not> Contains (take colon trimmed) ''/''
                  then split (colon + 1) else split 0
              | None \<Rightarrow> split 0))"

definition MatchSource :: "string \<Rightarrow> string \<Rightarrow> string \<Rightarrow> goerr + bool" where
  "MatchSource pattern repository ref =
     (let (repositoryPattern, refPattern, pinned) = SplitGitRef pattern
      in case glob_Match repositoryPattern repository of
           Inl e \<Rightarrow> Inl e
         | Inr matched \<Rightarrow>
             if \<not> matched then Inr False
             else if \<not> pinned then Inr True
             else if ref = [] then Inr False
             else glob_Match refPattern ref)"

section \<open>Reference semantics\<close>

text \<open>A pattern as a list of tokens, and what each token matches.\<close>

datatype gtok = GLit rune | GStar | GGlobstar | GAny | GClass bool "(rune \<times> rune) list"

text \<open>One member character of a class, escape resolved, and the members after it.\<close>

definition getc :: "rune list \<Rightarrow> rune \<times> rune list" where
  "getc m = (if hd m = 92 \<and> tl m \<noteq> [] then (hd (tl m), tl (tl m)) else (hd m, tl m))"

lemma getc_length: "m \<noteq> [] \<Longrightarrow> length (snd (getc m)) < length m"
  by (cases m) (auto simp: getc_def)

function members :: "rune list \<Rightarrow> (rune \<times> rune) list" where
  "members m =
     (if m = [] then []
      else if length (snd (getc m)) \<ge> 2 \<and> hd (snd (getc m)) = 45 then
        (fst (getc m), fst (getc (tl (snd (getc m))))) # members (snd (getc (tl (snd (getc m)))))
      else (fst (getc m), fst (getc m)) # members (snd (getc m)))"
  by pat_completeness auto
termination
proof (relation "measure length", simp_all add: getc_length)
  fix m :: "rune list"
  assume *: "m \<noteq> []" "2 \<le> length (snd (getc m)) \<and> hd (snd (getc m)) = 45"
  then have "tl (snd (getc m)) \<noteq> []" by (cases "snd (getc m)") auto
  from getc_length [OF this] getc_length [OF *(1)]
  show "length (snd (getc (tl (snd (getc m))))) < length m" by simp
qed

declare members.simps [simp del]

definition class_token :: "rune list \<Rightarrow> gtok" where
  "class_token body =
     (if body \<noteq> [] \<and> isClassNegation (hd body) then GClass True (members (tl body))
      else GClass False (members body))"

function tokens :: "rune list \<Rightarrow> gtok list" where
  "tokens [] = []"
| "tokens (c # r) =
     (if c = 92 then (if r = [] then [GLit 92] else GLit (hd r) # tokens (tl r))
      else if c = 42 then (if r \<noteq> [] \<and> hd r = 42 then GGlobstar # tokens (tl r) else GStar # tokens r)
      else if c = 63 then GAny # tokens r
      else if c = 91 then
        (case findBracketEnd (c # r) 0 of
           None \<Rightarrow> GLit 91 # tokens r
         | Some e \<Rightarrow> class_token (take (e - 1) r) # tokens (drop e r))
      else GLit c # tokens r)"
  by pat_completeness auto
termination
  by (relation "measure length") auto

fun glob_sem :: "gtok list \<Rightarrow> rune list \<Rightarrow> bool" where
  "glob_sem [] s = (s = [])"
| "glob_sem (GLit c # ts) s = (case s of [] \<Rightarrow> False | x # xs \<Rightarrow> x = c \<and> glob_sem ts xs)"
| "glob_sem (GAny # ts) s = (case s of [] \<Rightarrow> False | x # xs \<Rightarrow> x \<noteq> 47 \<and> glob_sem ts xs)"
| "glob_sem (GClass neg rs # ts) s =
     (case s of [] \<Rightarrow> False
      | x # xs \<Rightarrow> (if neg then x \<noteq> 47 \<and> \<not> in_ranges x rs else in_ranges x rs) \<and> glob_sem ts xs)"
| "glob_sem (GStar # ts) s =
     (glob_sem ts s \<or> (case s of [] \<Rightarrow> False | x # xs \<Rightarrow> x \<noteq> 47 \<and> glob_sem (GStar # ts) xs))"
| "glob_sem (GGlobstar # ts) s =
     (glob_sem ts s \<or> (case s of [] \<Rightarrow> False | x # xs \<Rightarrow> x \<noteq> 10 \<and> glob_sem (GGlobstar # ts) xs))"

definition glob_matches :: "string \<Rightarrow> string \<Rightarrow> bool" where
  "glob_matches pattern text = glob_sem (tokens (runes pattern)) (runes text)"

section \<open>From tokens to regular expression items\<close>

fun tok_item :: "gtok \<Rightarrow> reitem" where
  "tok_item (GLit c) = ROne (CLit c)"
| "tok_item GStar = RStar (CClass True [(47, 47)])"
| "tok_item GGlobstar = RStar CDot"
| "tok_item GAny = ROne (CClass True [(47, 47)])"
| "tok_item (GClass neg rs) = ROne (CClass neg ((if neg then [(47, 47)] else []) @ rs))"

lemma re_match_glob_sem: "re_match (map tok_item ts @ [REnd]) b s = glob_sem ts s"
proof (induction ts s arbitrary: b rule: glob_sem.induct)
  case (5 ts s)
  then show ?case by (cases s) (auto simp: in_ranges_def)
next
  case (6 ts s)
  then show ?case by (cases s) auto
qed (auto simp: in_ranges_def split: list.splits)

lemma re_search_not_begin: "\<not> re_search (RBegin # is) False s"
  by (induction s) auto

lemma re_search_anchored: "re_search (RBegin # is) True s = re_match is True s"
  by (cases s) (auto simp: re_search_not_begin)

section \<open>Correctness of the class translation\<close>

fun closed :: "rune list \<Rightarrow> bool" where
  "closed [] = True"
| "closed (c # r) = (if c = 92 then r \<noteq> [] \<and> closed (tl r) else c \<noteq> 93 \<and> closed r)"

lemma closed_getc: "closed m \<Longrightarrow> m \<noteq> [] \<Longrightarrow> closed (snd (getc m))"
  by (cases m) (auto simp: getc_def split: if_splits)

lemma closed_tl_dash: "closed m \<Longrightarrow> m \<noteq> [] \<Longrightarrow> hd m = 45 \<Longrightarrow> closed (tl m)"
  by (cases m) auto

lemma class_char_escape:
  assumes "closed m" "m \<noteq> []"
  shows "class_char (escape_members m @ 93 # rest) =
           Some (fst (getc m), escape_members (snd (getc m)) @ 93 # rest)"
  using assms by (cases m) (auto simp: getc_def is_punct_def neq_Nil_conv split: list.splits)

lemma escape_members_hd:
  assumes "closed m" "m \<noteq> []"
  shows "escape_members m \<noteq> [] \<and> hd (escape_members m) \<noteq> 93 \<and>
         (hd (escape_members m) = 45 \<longleftrightarrow> hd m = 45) \<and>
         (hd (escape_members m) = 94 \<longleftrightarrow> hd m = 94)"
  using assms by (cases m) (auto simp: neq_Nil_conv split: list.splits)

lemma escape_members_dash: "closed m \<Longrightarrow> m \<noteq> [] \<Longrightarrow> hd m = 45 \<Longrightarrow> escape_members m = 45 # escape_members (tl m)"
  by (cases m) auto

lemma range_next_iff:
  assumes "closed t"
  shows "(length (escape_members t @ 93 # rest) \<ge> 2 \<and> (escape_members t @ 93 # rest) ! 0 = 45
           \<and> (escape_members t @ 93 # rest) ! 1 \<noteq> 93) \<longleftrightarrow> (length t \<ge> 2 \<and> hd t = 45)"
proof (cases "t = [] \<or> hd t \<noteq> 45")
  case True
  then show ?thesis
    using assms escape_members_hd [of t] by (cases "t = []"; cases "escape_members t") auto
next
  case False
  then obtain u where t: "t = 45 # u" by (cases t) auto
  with assms have "closed u" by simp
  with escape_members_hd [of u] t show ?thesis
    by (cases "u = []"; cases "escape_members u") (auto simp: neq_Nil_conv)
qed

lemma posix_opener_escape:
  assumes "m \<noteq> []" "58 \<notin> set m"
  shows "\<not> posix_opener (escape_members m @ 93 # rest)"
proof -
  have "58 \<notin> set (escape_members m)"
    using assms(2) by (induction m rule: escape_members.induct) (auto split: list.splits if_splits)
  moreover have "escape_members m \<noteq> []"
    using assms(1) by (cases m) (auto split: list.splits)
  ultimately show ?thesis
    by (cases "escape_members m"; cases "tl (escape_members m)") (auto simp: posix_opener_def)
qed

lemma parse_class_step:
  assumes "closed m" "m \<noteq> []"
  shows "parse_class first (escape_members m @ 93 # rest) acc =
    (if posix_opener (escape_members m @ 93 # rest) then None
     else if length (snd (getc m)) \<ge> 2 \<and> hd (snd (getc m)) = 45 then
       (if fst (getc (tl (snd (getc m)))) < fst (getc m) then None
        else parse_class False (escape_members (snd (getc (tl (snd (getc m))))) @ 93 # rest)
               (acc @ [(fst (getc m), fst (getc (tl (snd (getc m)))))]))
     else parse_class False (escape_members (snd (getc m)) @ 93 # rest) (acc @ [(fst (getc m), fst (getc m))]))"
proof -
  let ?t = "escape_members m @ 93 # rest"
  let ?t1 = "escape_members (snd (getc m)) @ 93 # rest"
  let ?u = "tl (snd (getc m))"
  have hd: "hd ?t \<noteq> 93" using escape_members_hd [OF assms] by simp
  note c1 = closed_getc [OF assms]
  note cc = class_char_escape [OF assms, of rest]
  note rn = range_next_iff [OF c1, of rest]
  show ?thesis
  proof (cases "length (snd (getc m)) \<ge> 2 \<and> hd (snd (getc m)) = 45")
    case True
    have u: "snd (getc m) = 45 # ?u" "?u \<noteq> []" "closed ?u"
      using True closed_tl_dash [OF c1] by (cases "snd (getc m)"; force)+
    have "tl ?t1 = escape_members ?u @ 93 # rest"
      using escape_members_dash [OF c1] u by (metis append_Cons list.sel(1) list.sel(3) list.distinct(1))
    with True rn hd cc class_char_escape [OF u(3,2), of rest] show ?thesis
      by (simp add: parse_class.simps [of first ?t])
  next
    case False
    with rn hd cc show ?thesis by (auto simp: parse_class.simps [of first ?t])
  qed
qed

lemma closed_after_range:
  assumes "closed m" "m \<noteq> []" "length (snd (getc m)) \<ge> 2 \<and> hd (snd (getc m)) = 45"
  shows "closed (snd (getc (tl (snd (getc m)))))"
proof -
  have "closed (tl (snd (getc m)))" "tl (snd (getc m)) \<noteq> []"
    using closed_getc [OF assms(1,2)] assms(3) by (cases "snd (getc m)"; force)+
  then show ?thesis by (rule closed_getc)
qed

lemma parse_class_nil: "parse_class False (93 # rest) acc = Some (acc, rest)"
  by (simp add: parse_class.simps)

lemma parse_class_escape:
  assumes "closed m" "first \<longrightarrow> m \<noteq> []"
  shows "parse_class first (escape_members m @ 93 # rest) acc \<in>
           {None, Some (acc @ members m, rest)}"
  using assms
proof (induction m arbitrary: first acc rule: members.induct)
  case (1 m)
  show ?case
  proof (cases "m = []")
    case False
    from 1(1) [OF False, of False "acc @ [(fst (getc m), fst (getc (tl (snd (getc m)))))]"]
      1(2) [OF False, of False "acc @ [(fst (getc m), fst (getc m))]"]
      closed_after_range [OF 1(3) False] closed_getc [OF 1(3) False] False
    show ?thesis
      unfolding parse_class_step [OF 1(3) False] members.simps [of m] by simp
  qed (use 1 in \<open>simp add: parse_class_nil members.simps\<close>)
qed

lemma set_getc: "m \<noteq> [] \<Longrightarrow> set (snd (getc m)) \<subseteq> set m"
  by (cases m) (auto simp: getc_def dest: list.set_sel(2))

lemma set_after_range: "m \<noteq> [] \<Longrightarrow> tl (snd (getc m)) \<noteq> [] \<Longrightarrow> set (snd (getc (tl (snd (getc m))))) \<subseteq> set m"
  using set_getc [of m] set_getc [of "tl (snd (getc m))"] by (cases "snd (getc m)") auto

definition ranges_ok :: "(rune \<times> rune) list \<Rightarrow> bool" where
  "ranges_ok rs = list_all (\<lambda>(lo, hi). lo \<le> hi) rs"

lemma parse_class_complete:
  assumes "closed m" "first \<longrightarrow> m \<noteq> []" "58 \<notin> set m"
  shows "parse_class first (escape_members m @ 93 # rest) acc =
           (if ranges_ok (members m) then Some (acc @ members m, rest) else None)"
  using assms
proof (induction m arbitrary: first acc rule: members.induct)
  case (1 m)
  show ?case
  proof (cases "m = []")
    case m: False
    show ?thesis
    proof (cases "length (snd (getc m)) \<ge> 2 \<and> hd (snd (getc m)) = 45")
      case True
      then have "tl (snd (getc m)) \<noteq> []" by (cases "snd (getc m)") auto
      with set_after_range [OF m] 1(5) have "58 \<notin> set (snd (getc (tl (snd (getc m)))))" by blast
      with 1(1) [OF m True, of False "acc @ [(fst (getc m), fst (getc (tl (snd (getc m)))))]"]
        closed_after_range [OF 1(3) m True] posix_opener_escape [OF m 1(5)] True m
      show ?thesis
        unfolding parse_class_step [OF 1(3) m] members.simps [of m] by (simp add: ranges_ok_def)
    next
      case False
      moreover have "58 \<notin> set (snd (getc m))" using set_getc [OF m] 1(5) by blast
      ultimately show ?thesis
        using 1(2) [OF m False, of False "acc @ [(fst (getc m), fst (getc m))]"]
          closed_getc [OF 1(3) m] posix_opener_escape [OF m 1(5)] m
        unfolding parse_class_step [OF 1(3) m] members.simps [of m] if_not_P [OF False]
        by (simp add: ranges_ok_def)
    qed
  qed (use 1 in \<open>simp add: parse_class_nil members.simps ranges_ok_def\<close>)
qed

section \<open>Bracket expressions\<close>

lemma bracket_scan_struct:
  "bracket_scan xs i = Some e \<Longrightarrow> \<exists>m rest. xs = m @ 93 # rest \<and> closed m \<and> e = i + length m"
proof (induction xs i rule: bracket_scan.induct)
  case (2 r rs idx)
  show ?case
  proof (cases "r = 92 \<and> rs \<noteq> []")
    case True
    then obtain d u where rs: "rs = d # u" by (cases rs) auto
    with True 2 obtain m rest where "u = m @ 93 # rest" "closed m" "e = idx + 2 + length m"
      by (auto split: if_splits)
    with True rs show ?thesis by (intro exI [of _ "92 # d # m"] exI [of _ rest]) simp
  next
    case False
    show ?thesis
    proof (cases "r = 93")
      case True
      with 2 show ?thesis by (intro exI [of _ "[]"] exI [of _ rs]) simp
    next
      case r: False
      with False 2 obtain m rest where "rs = m @ 93 # rest" "closed m" "e = Suc idx + length m"
        by (auto split: if_splits)
      with r False show ?thesis by (intro exI [of _ "r # m"] exI [of _ rest]) auto
    qed
  qed
qed simp

text \<open>The shape of a terminated class: an optional negation, an optional leading bracket that
  is a literal, and members without an unescaped closing bracket.\<close>

definition class_parts :: "rune list \<Rightarrow> rune list \<Rightarrow> rune list \<Rightarrow> bool" where
  "class_parts neg lead m \<longleftrightarrow>
     closed m \<and> (neg = [] \<and> (lead = [] \<longrightarrow> \<not> isClassNegation (hd m)) \<or> (\<exists>c. neg = [c] \<and> isClassNegation c))
     \<and> (lead = [] \<and> m \<noteq> [] \<and> hd m \<noteq> 93 \<or> lead = [93])"

lemma findBracketEnd_struct:
  assumes "findBracketEnd (91 # r) 0 = Some e"
  shows "\<exists>neg lead m rest. r = neg @ lead @ m @ 93 # rest \<and> e = Suc (length (neg @ lead @ m))
           \<and> class_parts neg lead m"
proof -
  define neg where "neg = (if r \<noteq> [] \<and> isClassNegation (hd r) then [hd r] else [])"
  define r1 where "r1 = drop (length neg) r"
  define lead where "lead = (if r1 \<noteq> [] \<and> hd r1 = 93 then [93 :: rune] else [])"
  define r2 where "r2 = drop (length lead) r1"
  have "r = neg @ r1" by (cases r) (simp_all add: neg_def r1_def)
  moreover have "r1 = lead @ r2" by (cases r1) (simp_all add: lead_def r2_def)
  ultimately have r: "r = neg @ r1" "r1 = lead @ r2" .
  have i2: "(if 1 < length (91 # r) \<and> isClassNegation ((91 # r) ! 1) then 1 + 1 else 1) = Suc (length neg)"
    by (cases r) (simp_all add: neg_def)
  have i3: "(if Suc (length neg) < length (91 # r) \<and> (91 # r) ! Suc (length neg) = 93
             then Suc (length neg) + 1 else Suc (length neg)) = Suc (length (neg @ lead))"
    using r(1) by (cases r1) (auto simp: lead_def nth_append)
  have "bracket_scan r2 (Suc (length (neg @ lead))) = Some e"
    using assms r unfolding findBracketEnd_def Let_def add_0 i2 i3 by simp
  then obtain m rest where m: "r2 = m @ 93 # rest" "closed m" "e = Suc (length (neg @ lead)) + length m"
    using bracket_scan_struct by blast
  have L: "lead = [] \<Longrightarrow> r1 \<noteq> [] \<Longrightarrow> hd r1 \<noteq> 93" by (auto simp: lead_def split: if_splits)
  have N: "neg = [] \<Longrightarrow> r \<noteq> [] \<Longrightarrow> \<not> isClassNegation (hd r)" by (auto simp: neg_def split: if_splits)
  have lead: "lead = [] \<or> lead = [93]" by (simp add: lead_def)
  have neg: "neg = [] \<or> (\<exists>c. neg = [c] \<and> isClassNegation c)" by (simp add: neg_def)
  have mne: "lead = [] \<Longrightarrow> m \<noteq> [] \<and> hd m \<noteq> 93"
    using L unfolding r(2) m(1) by (cases m) auto
  have "neg = [] \<Longrightarrow> lead = [] \<Longrightarrow> \<not> isClassNegation (hd m)"
    using N mne unfolding r m(1) by (cases m) auto
  with mne lead neg m(2) have "class_parts neg lead m" by (auto simp: class_parts_def)
  with r m show ?thesis by (intro exI [of _ neg] exI [of _ lead] exI [of _ m] exI [of _ rest]) simp
qed


text \<open>The members as \<open>escapeCharClass\<close> sees them: a literal closing bracket and a dash that leads
  a negated class are escaped.\<close>

definition norm_members :: "rune list \<Rightarrow> rune list \<Rightarrow> rune list \<Rightarrow> rune list" where
  "norm_members neg lead m =
     (if lead \<noteq> [] then 92 # 93 # m else if neg \<noteq> [] \<and> hd m = 45 then 92 # m else m)"

lemma members_escaped: "c \<noteq> 92 \<Longrightarrow> members (92 # c # m) = members (c # m)"
  by (simp add: members.simps [of "92 # c # m"] members.simps [of "c # m"] getc_def)

lemma class_parts_cases:
  assumes "class_parts neg lead m"
  obtains (plain) "neg = []" "lead = []" "m \<noteq> []" "hd m \<noteq> 93" "\<not> isClassNegation (hd m)" "closed m"
  | (plain_lead) "neg = []" "lead = [93]" "closed m"
  | (negated) c where "neg = [c]" "isClassNegation c" "lead = []" "m \<noteq> []" "hd m \<noteq> 93" "closed m"
  | (negated_lead) c where "neg = [c]" "isClassNegation c" "lead = [93]" "closed m"
  using assms by (auto simp: class_parts_def)

lemma norm_members_facts:
  assumes "class_parts neg lead m"
  shows "closed (norm_members neg lead m)" "norm_members neg lead m \<noteq> []"
    "members (norm_members neg lead m) = members (lead @ m)"
    "neg \<noteq> [] \<Longrightarrow> hd (norm_members neg lead m) \<noteq> 45"
    "neg = [] \<Longrightarrow> hd (norm_members neg lead m) \<noteq> 94"
    "set (norm_members neg lead m) \<subseteq> {92, 93} \<union> set m"
proof -
  have mem: "members (92 # m) = members m" if "m \<noteq> []" "hd m = 45"
    using that members_escaped [of 45 "tl m"] by (cases m) auto
  show "closed (norm_members neg lead m)"
    using assms by (cases rule: class_parts_cases) (auto simp: norm_members_def closed_tl_dash)
  show "norm_members neg lead m \<noteq> []"
    using assms by (cases rule: class_parts_cases) (simp_all add: norm_members_def)
  show "members (norm_members neg lead m) = members (lead @ m)"
    using assms by (cases rule: class_parts_cases) (simp_all add: norm_members_def mem members_escaped)
  show "neg \<noteq> [] \<Longrightarrow> hd (norm_members neg lead m) \<noteq> 45"
    using assms by (cases rule: class_parts_cases) (simp_all add: norm_members_def)
  show "neg = [] \<Longrightarrow> hd (norm_members neg lead m) \<noteq> 94"
    using assms by (cases rule: class_parts_cases) (auto simp: norm_members_def isClassNegation_def)
  show "set (norm_members neg lead m) \<subseteq> {92, 93} \<union> set m"
    by (auto simp: norm_members_def)
qed

lemma escapeCharClass_parts:
  assumes "class_parts neg lead m"
  shows "escapeCharClass (91 # neg @ lead @ m @ [93]) =
           91 # (if neg \<noteq> [] then [94, 47] else []) @ escape_members (norm_members neg lead m) @ [93]"
  using assms
proof (cases rule: class_parts_cases)
  case plain
  then show ?thesis
    by (cases m) (simp_all add: escapeCharClass_def writeClassOpening_def norm_members_def butlast_append)
next
  case plain_lead
  then show ?thesis
    by (simp add: escapeCharClass_def writeClassOpening_def norm_members_def butlast_append isClassNegation_def)
next
  case negated
  then show ?thesis
    by (cases m; cases "tl m")
      (auto simp: escapeCharClass_def writeClassOpening_def norm_members_def butlast_append split: if_splits)
next
  case negated_lead
  then show ?thesis
    by (simp add: escapeCharClass_def writeClassOpening_def norm_members_def butlast_append)
qed

lemma parse_class_slash:
  assumes "closed m" "m \<noteq> []" "hd m \<noteq> 45"
  shows "parse_class True (47 # escape_members m @ 93 # rest) [] =
         parse_class False (escape_members m @ 93 # rest) [(47, 47)]"
proof -
  have "hd (escape_members m) \<noteq> 45" "escape_members m \<noteq> []"
    using escape_members_hd [OF assms(1,2)] assms(3) by auto
  then have "(escape_members m @ 93 # rest) ! 0 \<noteq> 45" by (cases "escape_members m") auto
  then show ?thesis
    by (subst parse_class.simps) (simp add: posix_opener_def)
qed

lemma parse_atom_class:
  assumes "class_parts neg lead m"
  shows "parse_atom (escapeCharClass (91 # neg @ lead @ m @ [93]) @ rest) =
    (case parse_class (neg = []) (escape_members (norm_members neg lead m) @ 93 # rest)
            (if neg \<noteq> [] then [(47, 47)] else []) of
       None \<Rightarrow> None | Some (rs, u) \<Rightarrow> Some (CClass (neg \<noteq> []) rs, u))"
proof (cases "neg = []")
  case True
  have "hd (escape_members (norm_members neg lead m)) \<noteq> 94" "escape_members (norm_members neg lead m) \<noteq> []"
    using escape_members_hd [OF norm_members_facts(1,2) [OF assms]] norm_members_facts(5) [OF assms True]
    by auto
  with True show ?thesis
    unfolding escapeCharClass_parts [OF assms] by (simp add: parse_atom_def Let_def split: option.splits)
next
  case False
  note n = norm_members_facts [OF assms]
  from False parse_class_slash [OF n(1,2) n(4) [OF False]] show ?thesis
    unfolding escapeCharClass_parts [OF assms] by (simp add: parse_atom_def Let_def split: option.splits)
qed

lemma class_token_parts:
  assumes "class_parts neg lead m"
  shows "class_token (neg @ lead @ m) = GClass (neg \<noteq> []) (members (lead @ m))"
  using assms by (cases m) (auto simp: class_parts_def class_token_def isClassNegation_def)


section \<open>The whole pattern\<close>

text \<open>The index loop of \<open>ToRegex\<close> as a recursion on the remaining runes.\<close>

function to_re :: "rune list \<Rightarrow> rune list" where
  "to_re [] = []"
| "to_re (c # r) =
     (if c = 92 then (if r = [] then QuoteMeta 92 else QuoteMeta (hd r) @ to_re (tl r))
      else if c = 42 then
        (if r \<noteq> [] \<and> hd r = 42 then [46, 42] @ to_re (tl r) else [91, 94, 47, 93, 42] @ to_re r)
      else if c = 63 then [91, 94, 47, 93] @ to_re r
      else if c = 91 then
        (case findBracketEnd (c # r) 0 of
           None \<Rightarrow> QuoteMeta 91 @ to_re r
         | Some e \<Rightarrow> fst (convertBracketExpr (c # r) 0) @ to_re (drop e r))
      else QuoteMeta c @ to_re r)"
  by pat_completeness auto
termination
  by (relation "measure length") auto

lemma bracket_scan_shift: "bracket_scan xs (k + i) = map_option ((+) k) (bracket_scan xs i)"
proof (induction xs i rule: bracket_scan.induct)
  case (2 r rs idx)
  then show ?case by (cases rs) (auto simp: add.assoc)
qed simp

lemma findBracketEnd_drop:
  assumes "idx < length rs"
  shows "findBracketEnd rs idx = map_option ((+) idx) (findBracketEnd (drop idx rs) 0)"
proof -
  have n: "drop idx rs ! k = rs ! (idx + k)" for k
    using assms by simp
  have l: "k < length (drop idx rs) \<longleftrightarrow> idx + k < length rs" for k by auto
  define i2 where "i2 = (if 1 < length (drop idx rs) \<and> isClassNegation (drop idx rs ! 1) then 1 + 1 else 1 :: nat)"
  define i3 where "i3 = (if i2 < length (drop idx rs) \<and> drop idx rs ! i2 = 93 then i2 + 1 else i2)"
  have a: "findBracketEnd (drop idx rs) 0 = bracket_scan (drop i3 (drop idx rs)) i3"
    unfolding findBracketEnd_def Let_def add_0 i2_def i3_def by (rule refl)
  have b2: "(if idx + 1 < length rs \<and> isClassNegation (rs ! (idx + 1)) then idx + 1 + 1 else idx + 1) = idx + i2"
    unfolding i2_def n l by simp
  have b3: "(if idx + i2 < length rs \<and> rs ! (idx + i2) = 93 then idx + i2 + 1 else idx + i2) = idx + i3"
    unfolding i3_def n l by simp
  have "findBracketEnd rs idx = bracket_scan (drop (idx + i3) rs) (idx + i3)"
    unfolding findBracketEnd_def Let_def b2 b3 by (rule refl)
  also have "\<dots> = map_option ((+) idx) (bracket_scan (drop (idx + i3) rs) i3)"
    by (rule bracket_scan_shift)
  finally show ?thesis by (simp add: a add.commute)
qed

lemma convertBracketExpr_drop:
  assumes "idx < length rs"
  shows "fst (convertBracketExpr rs idx) = fst (convertBracketExpr (drop idx rs) 0)"
    "snd (convertBracketExpr rs idx) = idx + snd (convertBracketExpr (drop idx rs) 0)"
  unfolding convertBracketExpr_def findBracketEnd_drop [OF assms]
  by (auto simp: Let_def drop_take add.commute split: option.splits)

lemma to_regex_from_to_re: "to_regex_from rs idx = to_re (drop idx rs)"
proof (induction rs idx rule: to_regex_from.induct)
  case (1 rs idx)
  show ?case
  proof (cases "idx \<ge> length rs")
    case True
    then show ?thesis by (simp add: to_regex_from.simps)
  next
    case False
    then have lt: "idx < length rs" by simp
    obtain c r where d: "drop idx rs = c # r" "c = rs ! idx" "r = drop (Suc idx) rs"
      using lt by (metis Cons_nth_drop_Suc)
    have r0: "r \<noteq> [] \<longleftrightarrow> idx + 1 < length rs" "r \<noteq> [] \<Longrightarrow> hd r = rs ! (idx + 1)"
      using d by (auto simp: hd_drop_conv_nth)
    have r1: "tl r = drop (idx + 2) rs"
      using d by (simp add: tl_drop drop_Suc)
    note conv = convertBracketExpr_drop [OF lt, unfolded d(1)]
    have e: "snd (convertBracketExpr (91 # r) 0) = (case findBracketEnd (91 # r) 0 of None \<Rightarrow> 0 | Some e \<Rightarrow> e)"
      by (auto simp: convertBracketExpr_def Let_def split: option.splits)
    have f: "findBracketEnd (91 # r) 0 = None \<Longrightarrow> fst (convertBracketExpr (91 # r) 0) = QuoteMeta 91"
      by (simp add: convertBracketExpr_def)
    consider "c = 92" | "c = 42" | "c = 63" | "c = 91" | "c \<notin> {92, 42, 63, 91}" by blast
    then show ?thesis
    proof cases
      case 1
      then show ?thesis using False "1.IH"(1,2) d r0 r1
        by (auto simp: to_regex_from.simps [of rs idx])
    next
      case 2
      then show ?thesis using False "1.IH"(3) d r0 r1
        by (auto simp: to_regex_from.simps [of rs idx] expandStar_def)
    next
      case 3
      then show ?thesis using False "1.IH"(4) d by (simp add: to_regex_from.simps [of rs idx])
    next
      case 4
      show ?thesis
      proof (cases "findBracketEnd (91 # r) 0")
        case None
        with 4 False "1.IH"(5) [OF False] d conv e f show ?thesis
          by (cases "convertBracketExpr rs idx") (simp add: to_regex_from.simps [of rs idx])
      next
        case (Some k)
        with findBracketEnd_gt have "k > 0" by blast
        with Some 4 False "1.IH"(5) [OF False] d conv e show ?thesis
          by (cases "convertBracketExpr rs idx") (simp add: to_regex_from.simps [of rs idx] add.commute)
      qed
    next
      case 5
      then show ?thesis using False "1.IH"(6) d by (simp add: to_regex_from.simps [of rs idx])
    qed
  qed
qed

text \<open>Every terminated class of the pattern compiles on its own.\<close>

function classes_ok :: "rune list \<Rightarrow> bool" where
  "classes_ok [] = True"
| "classes_ok (c # r) =
     (if c = 92 then classes_ok (tl r)
      else if c = 91 then
        (case findBracketEnd (c # r) 0 of
           None \<Rightarrow> classes_ok r
         | Some e \<Rightarrow> regexp_Compile (escapeCharClass (take (e + 1) (c # r))) \<noteq> None \<and> classes_ok (drop e r))
      else classes_ok r)"
  by pat_completeness auto
termination
  by (relation "measure length") auto

lemma validate_from_classes_ok: "validate_from rs idx = None \<longleftrightarrow> classes_ok (drop idx rs)"
proof (induction rs idx rule: validate_from.induct)
  case (1 rs idx)
  show ?case
  proof (cases "idx \<ge> length rs")
    case True
    then show ?thesis by (simp add: validate_from.simps)
  next
    case False
    then have lt: "idx < length rs" by simp
    obtain c r where d: "drop idx rs = c # r" "c = rs ! idx" "r = drop (Suc idx) rs"
      using lt by (metis Cons_nth_drop_Suc)
    have tl: "tl r = drop (idx + 2) rs" using d by (simp add: tl_drop drop_Suc)
    note fb = findBracketEnd_drop [OF lt, unfolded d(1)]
    consider "c = 92" | "c = 91" | "c \<notin> {92, 91}" by blast
    then show ?thesis
    proof cases
      case 1
      then show ?thesis using False "1.IH"(1) d tl by (simp add: validate_from.simps [of rs idx])
    next
      case 2
      show ?thesis
      proof (cases "findBracketEnd (91 # r) 0")
        case None
        with 2 False "1.IH"(2) d fb show ?thesis by (simp add: validate_from.simps [of rs idx])
      next
        case (Some e)
        have "drop idx (take (Suc (idx + e)) rs) = take (e + 1) (91 # r)"
          using d 2 by (simp add: drop_take)
        with Some 2 False "1.IH"(3) d fb show ?thesis
          by (simp add: validate_from.simps [of rs idx] add.commute)
      qed
    next
      case 3
      then show ?thesis using False "1.IH"(4) d by (simp add: validate_from.simps [of rs idx])
    qed
  qed
qed

text \<open>What may follow an atom without being read as its repetition.\<close>

definition rest_ok :: "rune list \<Rightarrow> bool" where
  "rest_ok rest \<longleftrightarrow> rest = [] \<or> hd rest \<notin> {42, 43, 63, 123}"

lemma rest_ok_Cons [simp]: "rest_ok (x # xs) \<longleftrightarrow> x \<notin> {42, 43, 63, 123}"
  by (simp add: rest_ok_def)

lemma parse_re_one:
  assumes "parse_atom (w @ rest) = Some (c, rest)" "w \<noteq> []" "hd w \<notin> {94, 36}" "rest_ok rest"
  shows "parse_re (w @ rest) = map_option ((#) (ROne c)) (parse_re rest)"
  using assms by (subst parse_re.simps) (auto simp: rest_ok_def)

lemma parse_re_star:
  assumes "parse_atom (w @ 42 # rest) = Some (c, 42 # rest)" "w \<noteq> []" "hd w \<notin> {94, 36}" "rest_ok rest"
  shows "parse_re (w @ 42 # rest) = map_option ((#) (RStar c)) (parse_re rest)"
  using assms by (subst parse_re.simps) (auto simp: rest_ok_def)

lemma parse_re_fail:
  assumes "parse_atom w = None" "w \<noteq> []" "hd w \<notin> {94, 36}"
  shows "parse_re w = None"
  using assms by (subst parse_re.simps) auto

lemma parse_atom_QuoteMeta: "parse_atom (QuoteMeta c @ rest) = Some (CLit c, rest)"
  by (auto simp: QuoteMeta_def parse_atom_def is_meta_def is_punct_def)

lemma QuoteMeta_hd: "QuoteMeta c \<noteq> []" "hd (QuoteMeta c) \<notin> {94, 36}" "hd (QuoteMeta c) \<notin> {42, 43, 63, 123}"
  by (auto simp: QuoteMeta_def is_meta_def)

lemma parse_re_QuoteMeta:
  "rest_ok rest \<Longrightarrow> parse_re (QuoteMeta c @ rest) = map_option ((#) (ROne (CLit c))) (parse_re rest)"
  by (intro parse_re_one parse_atom_QuoteMeta QuoteMeta_hd)

lemma parse_atom_not_slash: "parse_atom ([91, 94, 47, 93] @ rest) = Some (CClass True [(47, 47)], rest)"
  using parse_class.simps [of True "47 # 93 # rest" "[]"]
  by (simp add: parse_atom_def Let_def posix_opener_def parse_class_nil)

lemma escapeCharClass_Cons: "\<exists>u. escapeCharClass (x # xs) = x # u"
  by (simp add: escapeCharClass_def writeClassOpening_def Let_def)

lemma convert_hd: "\<exists>x u. fst (convertBracketExpr (91 # r) 0) = x # u \<and> x \<in> {91, 92}"
proof (cases "findBracketEnd (91 # r) 0")
  case None
  then show ?thesis by (simp add: convertBracketExpr_def QuoteMeta_def is_meta_def)
next
  case (Some e)
  with escapeCharClass_Cons [of 91 "take e r"] show ?thesis
    by (auto simp: convertBracketExpr_def Let_def QuoteMeta_def is_meta_def)
qed

lemma rest_ok_to_re: "rest_ok rest \<Longrightarrow> rest_ok (to_re s @ rest)"
proof (cases s)
  case (Cons c r)
  have q: "rest_ok (QuoteMeta d @ u)" for d u
    using QuoteMeta_hd [of d] by (simp add: rest_ok_def)
  have "rest_ok (fst (convertBracketExpr (91 # r') 0) @ u)" for r' u
    using convert_hd [of r'] by (auto simp: rest_ok_def)
  with Cons q show ?thesis
    by (simp split: option.splits)
qed simp

lemma class_split:
  assumes "findBracketEnd (91 # r) 0 = Some e"
  obtains neg lead m where "class_parts neg lead m" "take (e + 1) (91 # r) = 91 # neg @ lead @ m @ [93]"
    "take (e - 1) r = neg @ lead @ m" "set m \<subseteq> set r"
proof -
  from findBracketEnd_struct [OF assms] obtain neg lead m rest where
    "r = neg @ lead @ m @ 93 # rest" "e = Suc (length (neg @ lead @ m))" "class_parts neg lead m"
    by blast
  then show thesis by (intro that [of neg lead m]) auto
qed

lemma class_atom:
  assumes "class_parts neg lead m"
  shows "parse_atom (escapeCharClass (91 # neg @ lead @ m @ [93]) @ rest) \<in>
    {None, Some (CClass (neg \<noteq> []) ((if neg \<noteq> [] then [(47, 47)] else []) @ members (lead @ m)), rest)}"
  using parse_class_escape [OF norm_members_facts(1) [OF assms], of "neg = []" rest
      "if neg \<noteq> [] then [(47, 47)] else []"] norm_members_facts(2,3) [OF assms]
  unfolding parse_atom_class [OF assms] by auto

lemma class_atom_complete:
  assumes "class_parts neg lead m" "58 \<notin> set m"
    "regexp_Compile (escapeCharClass (91 # neg @ lead @ m @ [93])) \<noteq> None"
  shows "parse_atom (escapeCharClass (91 # neg @ lead @ m @ [93]) @ rest) =
    Some (CClass (neg \<noteq> []) ((if neg \<noteq> [] then [(47, 47)] else []) @ members (lead @ m)), rest)"
proof -
  let ?cls = "escapeCharClass (91 # neg @ lead @ m @ [93])"
  note n = norm_members_facts [OF assms(1)]
  have n58: "58 \<notin> set (norm_members neg lead m)" using n(6) assms(2) by auto
  have pc: "parse_class (neg = []) (escape_members (norm_members neg lead m) @ 93 # u)
      (if neg \<noteq> [] then [(47, 47)] else []) =
      (if ranges_ok (members (lead @ m))
       then Some ((if neg \<noteq> [] then [(47, 47)] else []) @ members (lead @ m), u) else None)" for u
    by (rule parse_class_complete [OF n(1) _ n58, unfolded n(3)]) (use n(2) in blast)
  have hd: "?cls \<noteq> []" "hd ?cls = 91" unfolding escapeCharClass_parts [OF assms(1)] by simp_all
  have "parse_atom ?cls \<noteq> None"
    using assms(3) parse_re_fail [of ?cls] hd unfolding regexp_Compile_def by force
  then have "ranges_ok (members (lead @ m))"
    using parse_atom_class [OF assms(1), of "[]", unfolded pc] by (auto split: if_splits)
  then show ?thesis
    using parse_atom_class [OF assms(1), of rest, unfolded pc] by simp
qed

lemma tokens_class:
  assumes "findBracketEnd (91 # r) 0 = Some e" "class_parts neg lead m" "take (e - 1) r = neg @ lead @ m"
  shows "map tok_item (tokens (91 # r)) =
     ROne (CClass (neg \<noteq> []) ((if neg \<noteq> [] then [(47, 47)] else []) @ members (lead @ m)))
       # map tok_item (tokens (drop e r))"
  using assms by (simp add: class_token_parts)

definition prepend :: "rune list \<Rightarrow> reitem list option \<Rightarrow> reitem list option" where
  "prepend s is = map_option ((@) (map tok_item (tokens s))) is"

text \<open>Either the expression of the remaining runes parses to the items of their tokens, or a POSIX
  class opener in them, which needs a colon, makes the parser fail.\<close>

definition parses :: "rune list \<Rightarrow> rune list \<Rightarrow> rune list \<Rightarrow> bool" where
  "parses s re rest \<longleftrightarrow>
     parse_re re = prepend s (parse_re rest) \<or> 58 \<in> set s \<and> parse_re re = None"

lemma parses_step:
  assumes "parse_re re = map_option ((#) i) (parse_re (to_re u @ rest))"
    "parses u (to_re u @ rest) rest" "map tok_item (tokens s) = i # map tok_item (tokens u)"
    "set u \<subseteq> set s"
  shows "parses s re rest"
  using assms by (cases "parse_re rest") (auto simp: parses_def prepend_def)

lemma classes_ok_tl_star: "classes_ok (42 # r) \<Longrightarrow> r \<noteq> [] \<Longrightarrow> hd r = 42 \<Longrightarrow> classes_ok (tl r)"
  by (cases r) auto

lemma set_tl_subset: "set (tl r) \<subseteq> set (c # r)"
  by (cases r) auto

lemma parses_class:
  assumes ok: "classes_ok (91 # r)" "rest_ok rest" and e: "findBracketEnd (91 # r) 0 = Some e"
    and IH: "parses (drop e r) (to_re (drop e r) @ rest) rest"
  shows "parses (91 # r) (to_re (91 # r) @ rest) rest"
proof -
  obtain neg lead m where parts: "class_parts neg lead m"
    and cls: "take (e + 1) (91 # r) = 91 # neg @ lead @ m @ [93]"
    and body: "take (e - 1) r = neg @ lead @ m" and m: "set m \<subseteq> set r"
    using class_split [OF e] .
  let ?cls = "escapeCharClass (91 # neg @ lead @ m @ [93])"
  let ?rest = "to_re (drop e r) @ rest"
  have comp: "regexp_Compile ?cls \<noteq> None" using ok(1) e cls by simp
  then have re: "to_re (91 # r) @ rest = ?cls @ ?rest"
    using e cls by (auto simp: convertBracketExpr_def Let_def)
  have hd: "?cls \<noteq> []" "hd ?cls \<notin> {94, 36}"
    using escapeCharClass_Cons [of 91 "neg @ lead @ m @ [93]"] by auto
  note step = parses_step [OF parse_re_one [OF _ hd rest_ok_to_re [OF ok(2)]] IH tokens_class [OF e parts body]]
  have sub: "set (drop e r) \<subseteq> set (91 # r)" using set_drop_subset [of e r] by auto
  show ?thesis
  proof (cases "58 \<in> set m")
    case False
    show ?thesis unfolding re
      by (rule step [OF _ sub]) (rule class_atom_complete [OF parts False comp])
  next
    case True
    with m have c: "58 \<in> set (91 # r)" by auto
    from class_atom [OF parts, of ?rest] show ?thesis unfolding re
    proof (elim insertE emptyE)
      assume "parse_atom (?cls @ ?rest) = None"
      with parse_re_fail [of "?cls @ ?rest"] hd c show "parses (91 # r) (?cls @ ?rest) rest"
        by (simp add: parses_def)
    qed (rule step [OF _ sub])
  qed
qed

lemma parse_to_re: "classes_ok s \<Longrightarrow> rest_ok rest \<Longrightarrow> parses s (to_re s @ rest) rest"
proof (induction s rule: to_re.induct)
  case 1
  then show ?case by (cases "parse_re rest") (simp_all add: prepend_def parses_def)
next
  case (2 c r)
  note ok = rest_ok_to_re [OF 2(9)]
  note sub = set_tl_subset [of r c]
  consider (esc) "c = 92" | (dstar) "c = 42" "r \<noteq> []" "hd r = 42" | (star) "c = 42" "\<not> (r \<noteq> [] \<and> hd r = 42)"
    | (any) "c = 63" | (unterm) "c = 91" "findBracketEnd (91 # r) 0 = None"
    | (cls) e where "c = 91" "findBracketEnd (91 # r) 0 = Some e" | (lit) "c \<notin> {92, 42, 63, 91}"
    by (cases "findBracketEnd (91 # r) 0") auto
  then show ?case
  proof cases
    case esc
    show ?thesis
    proof (cases "r = []")
      case True
      with esc parse_re_QuoteMeta [OF 2(9), of 92] show ?thesis
        by (simp add: parses_def prepend_def) (cases "parse_re rest"; simp)
    next
      case False
      with esc 2(1) 2(8,9) have "parses (tl r) (to_re (tl r) @ rest) rest" by simp
      from parses_step [OF parse_re_QuoteMeta [OF ok, of "hd r"] this _ sub] False esc show ?thesis by simp
    qed
  next
    case dstar
    with 2 classes_ok_tl_star have "parses (tl r) (to_re (tl r) @ rest) rest" by simp
    from parses_step [OF parse_re_star [of "[46]", OF _ _ _ ok] this _ sub] dstar show ?thesis
      by (simp add: parse_atom_def)
  next
    case star
    with 2 have "parses r (to_re r @ rest) rest" by auto
    from parses_step [OF parse_re_star [OF parse_atom_not_slash _ _ ok] this, of "c # r"] star show ?thesis
      by auto
  next
    case any
    with 2 have "parses r (to_re r @ rest) rest" by auto
    from parses_step [OF parse_re_one [OF parse_atom_not_slash _ _ ok] this, of "c # r"] any show ?thesis
      by auto
  next
    case unterm
    with 2 have "parses r (to_re r @ rest) rest" by auto
    from parses_step [OF parse_re_QuoteMeta [OF ok, of 91] this, of "c # r"] unterm show ?thesis
      by auto
  next
    case (cls e)
    with 2 have "parses (drop e r) (to_re (drop e r) @ rest) rest" by auto
    from parses_class [OF _ 2(9) cls(2) this] 2(8) cls(1) show ?thesis by simp
  next
    case lit
    with 2 have "parses r (to_re r @ rest) rest" by auto
    from parses_step [OF parse_re_QuoteMeta [OF ok, of c] this, of "c # r"] lit show ?thesis
      by auto
  qed
qed


section \<open>Correctness of Match\<close>

definition pattern_regexp :: "string \<Rightarrow> goerr + reitem list" where
  "pattern_regexp pattern = fst (compile empty_cache pattern)"

lemma ToRegex_parses:
  assumes "Validate pattern = None"
  shows "parses (runes pattern) (ToRegex pattern @ [36]) [36]"
  using assms parse_to_re [of "runes pattern" "[36]"]
  by (simp add: Validate_def validate_from_classes_ok ToRegex_def to_regex_from_to_re)

lemma parse_re_anchors: "parse_re [36] = Some [REnd]" "parse_re (94 # s) = map_option ((#) RBegin) (parse_re s)"
  by (simp_all add: parse_re.simps)

lemma decode_rune_ascii: "fst (decode_rune bs) < 128 \<Longrightarrow> fst (decode_rune bs) = bs ! 0"
  by (auto simp: decode_rune_def Let_def rune_error_def cont_byte_def split: if_splits)

lemma decode_runes_small: "r \<in> set (decode_runes bs) \<Longrightarrow> r < 128 \<Longrightarrow> r \<in> set bs"
proof (induction bs rule: decode_runes.induct)
  case (1 bs)
  then show ?case
    using decode_rune_ascii [of bs] set_drop_subset [of "snd (decode_rune bs)" bs]
    by (auto simp: decode_runes.simps [of bs] split: if_splits)
qed

lemma colon_free_runes: "CHR '':'' \<notin> set p \<Longrightarrow> 58 \<notin> set (runes p)"
proof
  assume c: "CHR '':'' \<notin> set p" and "58 \<in> set (runes p)"
  then have "(58 :: nat) \<in> of_char ` set p"
    using decode_runes_small [of 58 "map of_char p"] by (simp add: runes_def)
  then obtain d where d: "d \<in> set p" "of_char d = (of_char (CHR '':'') :: nat)" by auto
  then have "d = CHR '':''" by (simp only: of_char_eq_iff)
  with c d show False by simp
qed

lemma pattern_regexp_Inr:
  assumes "pattern_regexp pattern = Inr re"
  shows "re = RBegin # map tok_item (tokens (runes pattern)) @ [REnd]"
proof -
  from assms have v: "Validate pattern = None" and "parse_re (94 # ToRegex pattern @ [36]) = Some re"
    by (auto simp: pattern_regexp_def compile_def empty_cache_def regexp_Compile_def split: option.splits)
  with ToRegex_parses [OF v] show ?thesis
    by (auto simp: parses_def prepend_def parse_re_anchors)
qed

lemma glob_Match_unfold:
  "glob_Match p t = (case pattern_regexp p of
     Inl e \<Rightarrow> Inl (Errorf_w (''compiling glob pattern '' @ quoted p) e) | Inr re \<Rightarrow> Inr (MatchString re t))"
  by (auto simp: glob_Match_def Match_def pattern_regexp_def split: sum.splits prod.splits)

lemma glob_Match_Inr: "glob_Match p t = Inr b \<Longrightarrow> b = glob_matches p t"
  by (auto simp: glob_Match_unfold MatchString_def glob_matches_def re_search_anchored re_match_glob_sem
      dest!: pattern_regexp_Inr split: sum.splits)

lemma glob_Match_valid:
  assumes "Validate p = None" "CHR '':'' \<notin> set p"
  shows "glob_Match p t = Inr (glob_matches p t)"
proof -
  from ToRegex_parses [OF assms(1)] colon_free_runes [OF assms(2)]
  obtain items where "parse_re (ToRegex p @ [36]) = Some items"
    by (auto simp: parses_def prepend_def parse_re_anchors)
  with assms(1) obtain re where "pattern_regexp p = Inr re"
    by (simp add: pattern_regexp_def compile_def empty_cache_def regexp_Compile_def parse_re_anchors)
  then have "glob_Match p t = Inr (MatchString re t)" by (simp add: glob_Match_unfold)
  with glob_Match_Inr [OF this] show ?thesis by simp
qed



text \<open>A validated pattern without a colon always compiles, so matching it never fails and
  gives the reference answer for every text.\<close>

lemma Match_total:
  assumes "Validate pattern = None" and "CHR '':'' \<notin> set pattern"
  shows "glob_Match pattern text = Inr (glob_matches pattern text)"
  using assms by (rule glob_Match_valid)

lemma Match_total_witness:
  "glob_Match ''a/[b-d]?'' ''a/cx'' = Inr (glob_matches ''a/[b-d]?'' ''a/cx'')"
proof (rule Match_total)
  show "Validate ''a/[b-d]?'' = None" by code_simp
qed simp

text \<open>C22: validation does not imply compilation.  The pattern \<open>[[:a]x[b:]\<close> passes \<open>Validate\<close>, since
  each of its two classes compiles on its own, but \<open>Match\<close> fails on every text: in the joined
  expression the first class opens a POSIX class that the second one closes.\<close>

theorem Validate_accepts_uncompilable:
  "Validate ''[[:a]x[b:]'' = None \<and> (\<exists>e. \<forall>text. glob_Match ''[[:a]x[b:]'' text = Inl e)"
proof
  show "Validate ''[[:a]x[b:]'' = None" by code_simp
  have "\<not> isl (pattern_regexp ''[[:a]x[b:]'') \<longleftrightarrow> False" by code_simp
  then obtain e where "pattern_regexp ''[[:a]x[b:]'' = Inl e" by (auto simp: isl_def)
  then show "\<exists>e. \<forall>text. glob_Match ''[[:a]x[b:]'' text = Inl e" by (auto simp: glob_Match_unfold)
qed

subsection \<open>Path segments\<close>

definition slash_safe :: "gtok \<Rightarrow> bool" where
  "slash_safe t = (case t of GGlobstar \<Rightarrow> False | GClass neg rs \<Rightarrow> neg \<or> \<not> in_ranges 47 rs | _ \<Rightarrow> True)"

definition slash_literals :: "gtok list \<Rightarrow> nat" where
  "slash_literals ts = length (filter (\<lambda>t. t = GLit 47) ts)"

lemma glob_sem_slashes:
  "list_all slash_safe ts \<Longrightarrow> glob_sem ts s \<Longrightarrow> length (filter (\<lambda>r. r = 47) s) = slash_literals ts"
proof (induction ts s rule: glob_sem.induct)
  case (4 neg rs ts s)
  then show ?case by (cases s) (auto simp: slash_literals_def slash_safe_def split: if_splits)
next
  case (5 ts s)
  then show ?case by (cases s) (auto simp: slash_literals_def slash_safe_def)
qed (auto simp: slash_literals_def slash_safe_def split: list.splits)

text \<open>C21: patterns do not cross path segments.  A text that matches a pattern without a double star
  and without a plain class that contains the slash has exactly as many slashes as the pattern has
  literal slashes.\<close>

theorem Match_keeps_segments:
  assumes "glob_Match pattern text = Inr True" and "list_all slash_safe (tokens (runes pattern))"
  shows "length (filter (\<lambda>r. r = 47) (runes text)) = slash_literals (tokens (runes pattern))"
  using assms glob_Match_Inr glob_sem_slashes unfolding glob_matches_def by blast

theorem Match_keeps_segments_witness:
  "length (filter (\<lambda>r. r = 47) (runes ''ghcr.io/org/app'')) = slash_literals (tokens (runes ''ghcr.io/*/a?p''))"
proof (rule Match_keeps_segments)
  show "glob_Match ''ghcr.io/*/a?p'' ''ghcr.io/org/app'' = Inr True" by code_simp
  show "list_all slash_safe (tokens (runes ''ghcr.io/*/a?p''))" by code_simp
qed

subsection \<open>The cache of compiled patterns\<close>

definition coherent :: "glob_cache \<Rightarrow> bool" where
  "coherent st = (\<forall>p re. compiledPatterns st p = Some re \<longrightarrow> pattern_regexp p = Inr re)"

lemma compile_miss: "compiledPatterns st p = None \<Longrightarrow> fst (compile st p) = pattern_regexp p"
  by (simp add: compile_def pattern_regexp_def empty_cache_def split: option.splits)

lemma compile_state:
  "snd (compile st p) = st \<or>
   (\<exists>re n. fst (compile st p) = Inr re \<and> compiledPatterns st p = None \<and>
      snd (compile st p) = \<lparr>compiledPatterns = (compiledPatterns st)(p \<mapsto> re), cachedCount = n\<rparr>)"
  by (auto simp: compile_def split: option.splits)

lemma compile_coherent:
  assumes "coherent st"
  shows "fst (compile st p) = pattern_regexp p" "coherent (snd (compile st p))"
proof -
  show f: "fst (compile st p) = pattern_regexp p"
    using assms compile_miss [of st p]
    by (cases "compiledPatterns st p") (auto simp: coherent_def compile_def)
  show "coherent (snd (compile st p))"
    using compile_state [of st p] f assms by (auto simp: coherent_def split: if_splits)
qed

text \<open>The cache of compiled patterns is transparent.  It starts coherent, every \<open>Match\<close> and
  \<open>ResetCache\<close> keeps it coherent, and with a coherent cache \<open>Match\<close> answers as with an empty one.\<close>

lemma Match_cache_independent:
  assumes "coherent st"
  shows "fst (Match st p t) = glob_Match p t \<and> coherent (snd (Match st p t)) \<and> coherent (ResetCache st)
    \<and> coherent empty_cache"
  using compile_coherent [OF assms, of p]
  by (auto simp: Match_def glob_Match_unfold ResetCache_def empty_cache_def coherent_def
      split: sum.splits prod.splits)

lemma Match_cache_independent_witness:
  "fst (Match (snd (Match empty_cache ''a*'' ''b'')) ''a*'' ''ab'') = glob_Match ''a*'' ''ab''"
proof -
  have "coherent empty_cache" by (simp add: coherent_def empty_cache_def)
  then have "coherent (snd (Match empty_cache ''a*'' ''b''))" using Match_cache_independent by blast
  then show ?thesis using Match_cache_independent by blast
qed

end
