(* ===== verification/Expiry_Heap.thy ===== *)
theory Expiry_Heap
  imports Go_Prelude "HOL-Library.Multiset"
begin

text \<open>
  The expiry heap of the result cache (\<open>expiryHeap\<close> in \<open>internal/cache/cache.go\<close>) together with
  the algorithms of the standard package \<open>container/heap\<close> it is used with.

  The slice of \<open>*heapEntry\<close> is a list of addresses into a store of heap entries; \<open>Swap\<close>, \<open>Push\<close>
  and \<open>Pop\<close> update the index field of the entries through that store, as the methods do through
  the pointers.  The theory proves that the heap order and the index fields are kept and that the
  root is an entry that expires first.  The locale \<open>expiry_queue\<close> is the contract the cache uses,
  interpreted on the heap at the end.
\<close>

section \<open>The heap entries and the methods of the heap\<close>

type_synonym cache_key = "string \<times> string"

record heapEntry =
  he_cacheKey :: cache_key
  he_expiresAt :: time
  he_index :: int

type_synonym hmem = "nat \<Rightarrow> heapEntry"
type_synonym heap = "nat list \<times> hmem"

definition h_Len :: "heap \<Rightarrow> nat" where
  "h_Len h = length (fst h)"

definition h_Less :: "heap \<Rightarrow> nat \<Rightarrow> nat \<Rightarrow> bool" where
  "h_Less h i j = (he_expiresAt (snd h (fst h ! i)) < he_expiresAt (snd h (fst h ! j)))"

definition set_index :: "hmem \<Rightarrow> nat \<Rightarrow> int \<Rightarrow> hmem" where
  "set_index m p i = m(p := (m p)\<lparr>he_index := i\<rparr>)"

definition h_Swap :: "heap \<Rightarrow> nat \<Rightarrow> nat \<Rightarrow> heap" where
  "h_Swap h i j =
     (let (xs, m) = h; xs' = xs[i := xs ! j, j := xs ! i]
      in (xs', set_index (set_index m (xs' ! i) (int i)) (xs' ! j) (int j)))"

definition h_Push :: "heap \<Rightarrow> nat \<Rightarrow> heap" where
  "h_Push h p = (let (xs, m) = h in (xs @ [p], set_index m p (int (length xs))))"

definition h_Pop :: "heap \<Rightarrow> nat \<times> heap" where
  "h_Pop h = (let (xs, m) = h in (last xs, (butlast xs, set_index m (last xs) (- 1))))"

section \<open>Package container/heap\<close>

function heap_up :: "heap \<Rightarrow> nat \<Rightarrow> heap" where
  "heap_up h j =
     (let i = (j - 1) div 2
      in if i = j \<or> \<not> h_Less h j i then h else heap_up (h_Swap h i j) i)"
  by pat_completeness auto
termination
  by (relation "measure snd") auto

function heap_down_loop :: "heap \<Rightarrow> nat \<Rightarrow> nat \<Rightarrow> heap \<times> nat" where
  "heap_down_loop h i n =
     (let j1 = 2 * i + 1
      in if j1 \<ge> n then (h, i)
         else
           let j = (if j1 + 1 < n \<and> h_Less h (j1 + 1) j1 then j1 + 1 else j1)
           in if \<not> h_Less h j i then (h, i) else heap_down_loop (h_Swap h i j) j n)"
  by pat_completeness auto
termination
  by (relation "measure (\<lambda>(h, i, n). n - i)") (auto simp: Let_def split: if_splits)

declare heap_up.simps [simp del] heap_down_loop.simps [simp del]

definition heap_down :: "heap \<Rightarrow> nat \<Rightarrow> nat \<Rightarrow> heap \<times> bool" where
  "heap_down h i0 n = (let (h', i) = heap_down_loop h i0 n in (h', i > i0))"

definition heap_Push :: "heap \<Rightarrow> nat \<Rightarrow> heap" where
  "heap_Push h p = heap_up (h_Push h p) (h_Len (h_Push h p) - 1)"

definition heap_Pop :: "heap \<Rightarrow> nat \<times> heap" where
  "heap_Pop h = (let n = h_Len h - 1 in h_Pop (fst (heap_down (h_Swap h 0 n) 0 n)))"

definition heap_Remove :: "heap \<Rightarrow> nat \<Rightarrow> nat \<times> heap" where
  "heap_Remove h i =
     (let n = h_Len h - 1
      in if n \<noteq> i then
           (let (h1, moved) = heap_down (h_Swap h i n) i n
            in h_Pop (if \<not> moved then heap_up h1 i else h1))
         else h_Pop h)"

definition heap_Fix :: "heap \<Rightarrow> nat \<Rightarrow> heap" where
  "heap_Fix h i =
     (let (h1, moved) = heap_down h i (h_Len h) in if \<not> moved then heap_up h1 i else h1)"

section \<open>Index fields\<close>

definition indexed :: "heap \<Rightarrow> bool" where
  "indexed h \<longleftrightarrow> distinct (fst h) \<and> (\<forall>i < length (fst h). he_index (snd h (fst h ! i)) = int i)"

text \<open>The entries without their index fields are never changed by the heap.\<close>

definition same_entries :: "hmem \<Rightarrow> hmem \<Rightarrow> bool" where
  "same_entries m m' \<longleftrightarrow>
     (\<forall>p. he_cacheKey (m' p) = he_cacheKey (m p) \<and> he_expiresAt (m' p) = he_expiresAt (m p))"

text \<open>A rearrangement of the heap in place: same addresses, same entries, index fields of
  addresses outside the heap untouched.\<close>

definition rearranged :: "heap \<Rightarrow> heap \<Rightarrow> bool" where
  "rearranged h h' \<longleftrightarrow>
     mset (fst h') = mset (fst h) \<and> same_entries (snd h) (snd h') \<and>
     (indexed h \<longrightarrow> indexed h') \<and>
     (\<forall>p. p \<notin> set (fst h) \<longrightarrow> snd h' p = snd h p)"

lemma same_entries_refl [simp]: "same_entries m m"
  by (simp add: same_entries_def)

lemma same_entries_trans: "same_entries a b \<Longrightarrow> same_entries b c \<Longrightarrow> same_entries a c"
  by (simp add: same_entries_def)

lemma same_entries_set_index [simp]: "same_entries m (set_index m p i)"
  by (simp add: same_entries_def set_index_def)

lemma rearranged_refl [simp]: "rearranged h h"
  by (simp add: rearranged_def)

lemma rearranged_length: "rearranged h h' \<Longrightarrow> length (fst h') = length (fst h)"
  unfolding rearranged_def using mset_eq_length by blast

lemma rearranged_set: "rearranged h h' \<Longrightarrow> set (fst h') = set (fst h)"
  unfolding rearranged_def using mset_eq_setD by blast

lemma rearranged_trans:
  assumes "rearranged a b" "rearranged b c"
  shows "rearranged a c"
  using assms rearranged_set [OF assms(1)] same_entries_trans [of "snd a" "snd b" "snd c"]
  by (simp add: rearranged_def)

lemma fst_Swap: "fst (h_Swap h i j) = (fst h)[i := fst h ! j, j := fst h ! i]"
  by (cases h) (simp add: h_Swap_def Let_def)

lemma snd_Swap:
  "i < length (fst h) \<Longrightarrow> j < length (fst h) \<Longrightarrow>
   snd (h_Swap h i j) = set_index (set_index (snd h) (fst h ! j) (int i)) (fst h ! i) (int j)"
  by (cases h) (auto simp: h_Swap_def Let_def nth_list_update)

lemma rearranged_Swap:
  assumes "i < length (fst h)" "j < length (fst h)"
  shows "rearranged h (h_Swap h i j)"
proof -
  obtain xs m where h: "h = (xs, m)" by fastforce
  have "indexed (h_Swap h i j)" if "indexed h"
    unfolding indexed_def
  proof (intro conjI allI impI)
    show "distinct (fst (h_Swap h i j))"
      using that assms by (simp add: fst_Swap indexed_def distinct_swap)
    fix k assume k: "k < length (fst (h_Swap h i j))"
    then have "k < length xs" by (simp add: fst_Swap h)
    with that assms h have neq: "k \<noteq> i \<Longrightarrow> xs ! k \<noteq> xs ! i" "k \<noteq> j \<Longrightarrow> xs ! k \<noteq> xs ! j"
      "i \<noteq> j \<Longrightarrow> xs ! i \<noteq> xs ! j"
      by (simp_all add: indexed_def nth_eq_iff_index_eq)
    have ix: "he_index (m (xs ! k)) = int k" using that h \<open>k < length xs\<close> by (simp add: indexed_def)
    show "he_index (snd (h_Swap h i j) (fst (h_Swap h i j) ! k)) = int k"
      using assms h neq ix \<open>k < length xs\<close>
      by (cases "k = i"; cases "k = j")
        (auto simp: fst_Swap snd_Swap set_index_def nth_list_update)
  qed
  moreover have "mset (fst (h_Swap h i j)) = mset (fst h)"
    using assms by (simp add: fst_Swap mset_swap)
  moreover have "same_entries (snd h) (snd (h_Swap h i j))"
    using assms same_entries_trans [OF same_entries_set_index same_entries_set_index] by (simp add: snd_Swap)
  moreover have "snd (h_Swap h i j) p = snd h p" if "p \<notin> set (fst h)" for p
  proof -
    from that assms have "p \<noteq> fst h ! i" "p \<noteq> fst h ! j" by auto
    with assms show ?thesis by (simp add: snd_Swap set_index_def)
  qed
  ultimately show ?thesis by (simp add: rearranged_def)
qed

section \<open>Heap order\<close>

definition par :: "nat \<Rightarrow> nat" where
  "par k = (k - 1) div 2"

definition prio :: "heap \<Rightarrow> nat \<Rightarrow> time" where
  "prio h k = he_expiresAt (snd h (fst h ! k))"

definition heap_ok :: "(nat \<Rightarrow> time) \<Rightarrow> nat \<Rightarrow> bool" where
  "heap_ok p n \<longleftrightarrow> (\<forall>k. 0 < k \<and> k < n \<longrightarrow> p (par k) \<le> p k)"

text \<open>The order is broken at most between \<open>j\<close> and its parent (\<open>up_inv\<close>), at most between \<open>i\<close> and its
  children (\<open>down_inv\<close>), or at both places (\<open>fix_inv\<close>); the parent of the position is below
  its children in all cases.\<close>

definition bridged :: "(nat \<Rightarrow> time) \<Rightarrow> nat \<Rightarrow> nat \<Rightarrow> bool" where
  "bridged p n i \<longleftrightarrow> (\<forall>k. 0 < k \<and> k < n \<and> par k = i \<and> 0 < i \<longrightarrow> p (par i) \<le> p k)"

definition up_inv :: "(nat \<Rightarrow> time) \<Rightarrow> nat \<Rightarrow> nat \<Rightarrow> bool" where
  "up_inv p n j \<longleftrightarrow> (\<forall>k. 0 < k \<and> k < n \<and> k \<noteq> j \<longrightarrow> p (par k) \<le> p k) \<and> bridged p n j"

definition down_inv :: "(nat \<Rightarrow> time) \<Rightarrow> nat \<Rightarrow> nat \<Rightarrow> bool" where
  "down_inv p n i \<longleftrightarrow> (\<forall>k. 0 < k \<and> k < n \<and> par k \<noteq> i \<longrightarrow> p (par k) \<le> p k) \<and> bridged p n i"

definition fix_inv :: "(nat \<Rightarrow> time) \<Rightarrow> nat \<Rightarrow> nat \<Rightarrow> bool" where
  "fix_inv p n i \<longleftrightarrow>
     (\<forall>k. 0 < k \<and> k < n \<and> k \<noteq> i \<and> par k \<noteq> i \<longrightarrow> p (par k) \<le> p k) \<and> bridged p n i"

lemma par_less: "0 < k \<Longrightarrow> par k < k"
  by (cases k) (auto simp: par_def)

lemma par_self: "par k = k \<longleftrightarrow> k = 0"
  using par_less [of k] by (cases "k = 0") (auto simp: par_def)

lemma par_eq_iff: "0 < k \<Longrightarrow> par k = i \<longleftrightarrow> k = 2 * i + 1 \<or> k = 2 * i + 2"
  by (cases k) (auto simp: par_def)

lemma heap_up_par:
  "heap_up h j = (if par j = j \<or> \<not> h_Less h j (par j) then h else heap_up (h_Swap h (par j) j) (par j))"
  by (subst heap_up.simps) (simp add: par_def Let_def)

lemma prio_Swap:
  assumes "i < length (fst h)" "j < length (fst h)"
  shows "prio (h_Swap h i j) = (prio h)(i := prio h j, j := prio h i)"
proof
  fix k
  have "he_expiresAt (snd (h_Swap h i j) p) = he_expiresAt (snd h p)" for p
    using rearranged_Swap [OF assms] by (simp add: rearranged_def same_entries_def)
  then show "prio (h_Swap h i j) k = ((prio h)(i := prio h j, j := prio h i)) k"
    using assms by (auto simp: prio_def fst_Swap nth_list_update)
qed

lemma h_Less_prio: "h_Less h i j \<longleftrightarrow> prio h i < prio h j"
  by (simp add: h_Less_def prio_def)

lemma up_inv_step:
  assumes inv: "up_inv p n j" and j: "0 < j" "j < n" and less: "p j < p (par j)"
  shows "up_inv (p(par j := p j, j := p (par j))) n (par j)"
proof -
  let ?i = "par j" and ?p = "p(par j := p j, j := p (par j))"
  have ij: "?i < j" using j by (simp add: par_less)
  from inv have ok: "\<And>k. 0 < k \<Longrightarrow> k < n \<Longrightarrow> k \<noteq> j \<Longrightarrow> p (par k) \<le> p k"
    and br: "\<And>k. 0 < k \<Longrightarrow> k < n \<Longrightarrow> par k = j \<Longrightarrow> p ?i \<le> p k"
    using j by (auto simp: up_inv_def bridged_def)
  have "?p (par k) \<le> ?p k" if "0 < k" "k < n" "k \<noteq> ?i" for k
    using ok [of k] br [of k] less that ij par_less [of k]
    by (cases "k = j"; cases "par k = j"; cases "par k = ?i") auto
  moreover have "?p (par ?i) \<le> ?p k" if "0 < k" "k < n" "par k = ?i" "0 < ?i" for k
  proof -
    have a: "p (par ?i) \<le> p ?i" using ok [of ?i] that ij j by simp
    have ne: "par ?i \<noteq> ?i" "par ?i \<noteq> j" "k \<noteq> ?i" using par_less [of ?i] par_less [of k] that ij by auto
    show ?thesis
    proof (cases "k = j")
      case False
      with ok [of k] that a ne show ?thesis by simp
    qed (use a ne in simp)
  qed
  ultimately show ?thesis by (simp add: up_inv_def bridged_def)
qed

lemma up_inv_done:
  assumes "up_inv p n j" "j = 0 \<or> p (par j) \<le> p j"
  shows "heap_ok p n"
  using assms unfolding up_inv_def heap_ok_def by (metis neq0_conv)

lemma heap_up_correct:
  "j < length (fst h) \<Longrightarrow> rearranged h (heap_up h j) \<and>
     (up_inv (prio h) n j \<and> j < n \<longrightarrow> heap_ok (prio (heap_up h j)) n) \<and>
     (\<forall>k > j. fst (heap_up h j) ! k = fst h ! k)"
proof (induction h j rule: heap_up.induct)
  case (1 h j)
  show ?case
  proof (cases "par j = j \<or> \<not> h_Less h j (par j)")
    case True
    then have "heap_up h j = h" by (simp add: heap_up_par)
    moreover have "up_inv (prio h) n j \<Longrightarrow> heap_ok (prio h) n"
      using True up_inv_done [of "prio h" n j] by (auto simp: h_Less_prio par_self)
    ultimately show ?thesis by simp
  next
    case False
    then have eq: "heap_up h j = heap_up (h_Swap h (par j) j) (par j)"
      by (subst heap_up_par) simp
    have j: "0 < j" using False by (auto simp: par_self)
    have lt: "par j < length (fst h)" using par_less [OF j] 1(2) by linarith
    note r = rearranged_Swap [OF lt 1(2)]
    have l: "par j < length (fst (h_Swap h (par j) j))" using lt by (simp add: fst_Swap)
    note IH = 1(1) [OF par_def False l]
    have "heap_ok (prio (heap_up h j)) n" if "up_inv (prio h) n j" "j < n"
    proof -
      have "up_inv (prio (h_Swap h (par j) j)) n (par j)"
        unfolding prio_Swap [OF lt 1(2)] using False
        by (intro up_inv_step [OF that(1) j that(2)]) (simp add: h_Less_prio)
      with IH par_less [OF j] that(2) show ?thesis by (simp add: eq)
    qed
    moreover have "fst (heap_up h j) ! k = fst h ! k" if "k > j" for k
      using IH that par_less [OF j] by (simp add: eq fst_Swap)
    ultimately show ?thesis using IH rearranged_trans [OF r] by (simp add: eq)
  qed
qed

lemma min_child_bounds:
  assumes "2 * i + 1 < n" "j = (if 2 * i + 1 + 1 < n \<and> p (2 * i + 1 + 1) < p (2 * i + 1) then 2 * i + 1 + 1 else 2 * i + 1)"
  shows "j < n" "i < j" "par j = i" "\<And>k. 0 < k \<Longrightarrow> k < n \<Longrightarrow> par k = i \<Longrightarrow> p j \<le> (p k :: time)"
  using assms by (auto simp: par_eq_iff split: if_splits)

lemma fix_inv_step:
  assumes inv: "fix_inv p n i" and j: "j < n" "i < j" "par j = i" and less: "p j < p i"
    and min: "\<And>k. 0 < k \<Longrightarrow> k < n \<Longrightarrow> par k = i \<Longrightarrow> p j \<le> p k"
  shows "down_inv (p(i := p j, j := p i)) n j"
proof -
  let ?p = "p(i := p j, j := p i)"
  from inv have ok: "\<And>k. 0 < k \<Longrightarrow> k < n \<Longrightarrow> k \<noteq> i \<Longrightarrow> par k \<noteq> i \<Longrightarrow> p (par k) \<le> p k"
    and br: "\<And>k. 0 < k \<Longrightarrow> k < n \<Longrightarrow> par k = i \<Longrightarrow> 0 < i \<Longrightarrow> p (par i) \<le> p k"
    by (auto simp: fix_inv_def bridged_def)
  have j0: "0 < j" using j by simp
  have "?p (par k) \<le> ?p k" if k: "0 < k" "k < n" "par k \<noteq> j" for k
  proof (cases "k = j")
    case True
    with j less show ?thesis by simp
  next
    case kj: False
    show ?thesis
    proof (cases "k = i")
      case True
      with br [OF j0 j(1,3)] k par_less [of i] j kj show ?thesis by simp
    next
      case False
      with ok [of k] min [of k] k kj j show ?thesis by (cases "par k = i") auto
    qed
  qed
  moreover have "?p (par j) \<le> ?p k" if "0 < k" "k < n" "par k = j" for k
    using ok [of k] that j par_less [of k] by auto
  ultimately show ?thesis by (simp add: down_inv_def bridged_def)
qed

lemma down_inv_fix: "down_inv p n i \<Longrightarrow> fix_inv p n i"
  by (auto simp: down_inv_def fix_inv_def)

lemma no_smaller_child:
  assumes "2 * i + 1 \<ge> n \<or> p i \<le> p j \<and> (\<forall>k. 0 < k \<and> k < n \<and> par k = i \<longrightarrow> p j \<le> (p k :: time))"
    and "0 < k" "k < n" "par k = i"
  shows "p i \<le> p k"
  using assms by (auto simp: par_eq_iff)

lemma heap_down_loop_correct:
  "i < length (fst h) \<Longrightarrow> n \<le> length (fst h) \<Longrightarrow> heap_down_loop h i n = (h', i') \<Longrightarrow>
     rearranged h h' \<and> i \<le> i' \<and>
     (down_inv (prio h) n i \<longrightarrow> heap_ok (prio h') n) \<and>
     (fix_inv (prio h) n i \<longrightarrow> (if i < i' then heap_ok (prio h') n else up_inv (prio h') n i)) \<and>
     (\<forall>k \<ge> n. fst h' ! k = fst h ! k)"
proof (induction h i n arbitrary: h' i' rule: heap_down_loop.induct)
  case (1 h i n)
  define j where "j = (if 2 * i + 1 + 1 < n \<and> h_Less h (2 * i + 1 + 1) (2 * i + 1) then 2 * i + 1 + 1 else 2 * i + 1)"
  show ?case
  proof (cases "2 * i + 1 \<ge> n \<or> \<not> h_Less h j i")
    case True
    then have "h' = h" "i' = i"
      using 1(4) by (auto simp: heap_down_loop.simps [of h i n] j_def Let_def split: if_splits)
    have ch: "prio h i \<le> prio h k" if "0 < k" "k < n" "par k = i" for k
    proof (rule no_smaller_child [OF _ that])
      show "n \<le> 2 * i + 1 \<or> prio h i \<le> prio h j \<and> (\<forall>k. 0 < k \<and> k < n \<and> par k = i \<longrightarrow> prio h j \<le> prio h k)"
        using True min_child_bounds(4) [of i n j "prio h"] by (auto simp: j_def h_Less_prio not_le)
    qed
    then show ?thesis using \<open>h' = h\<close> \<open>i' = i\<close>
      by (auto simp: down_inv_def fix_inv_def up_inv_def heap_ok_def)
  next
    case False
    then have n: "2 * i + 1 < n" and less: "prio h j < prio h i" by (auto simp: h_Less_prio)
    note mc = min_child_bounds [OF n, of j "prio h", unfolded h_Less_prio [symmetric], OF j_def]
    have jl: "j < length (fst h)" using mc(1) 1(3) by simp
    note r = rearranged_Swap [OF 1(2) jl]
    have eq: "heap_down_loop (h_Swap h i j) j n = (h', i')"
      using 1(4) False by (auto simp: heap_down_loop.simps [of h i n] j_def Let_def split: if_splits)
    have len: "length (fst (h_Swap h i j)) = length (fst h)" by (simp add: fst_Swap)
    have IH: "rearranged (h_Swap h i j) h' \<and> j \<le> i' \<and> (down_inv (prio (h_Swap h i j)) n j \<longrightarrow> heap_ok (prio h') n)
        \<and> (\<forall>k \<ge> n. fst h' ! k = fst (h_Swap h i j) ! k)"
      using 1(1) [OF refl _ j_def, of h' i'] False n eq jl 1(3) len by auto
    have "fix_inv (prio h) n i \<Longrightarrow> heap_ok (prio h') n"
      using fix_inv_step [OF _ mc(1-3) less mc(4)] IH unfolding prio_Swap [OF 1(2) jl] by blast
    moreover have "fst h' ! k = fst h ! k" if "k \<ge> n" for k
      using IH that mc(1,2) by (simp add: fst_Swap)
    ultimately show ?thesis
      using IH rearranged_trans [OF r] mc(2) down_inv_fix [of "prio h" n i] by auto
  qed
qed

section \<open>The operations on well-formed heaps\<close>

definition heap_inv :: "heap \<Rightarrow> bool" where
  "heap_inv h \<longleftrightarrow> indexed h \<and> heap_ok (prio h) (length (fst h))"

definition with_expiry :: "heap \<Rightarrow> nat \<Rightarrow> time \<Rightarrow> heap" where
  "with_expiry h p t = (fst h, (snd h)(p := (snd h p)\<lparr>he_expiresAt := t\<rparr>))"

lemma heap_ok_fix_inv:
  assumes "heap_ok p n" "\<And>k. k < n \<Longrightarrow> k \<noteq> i \<Longrightarrow> q k = p k" "i < n"
  shows "fix_inv q n i"
proof -
  have ok: "\<And>k. 0 < k \<Longrightarrow> k < n \<Longrightarrow> p (par k) \<le> p k" using assms(1) by (simp add: heap_ok_def)
  have "q (par k) \<le> q k" if "0 < k" "k < n" "k \<noteq> i" "par k \<noteq> i" for k
    using ok [OF that(1,2)] assms(2) [of k] assms(2) [of "par k"] par_less [OF that(1)] that by simp
  moreover have "q (par i) \<le> q k" if "0 < k" "k < n" "par k = i" "0 < i" for k
  proof -
    have "par i < i" "i < k" using par_less that by auto
    with that assms(2) [of "par i"] assms(2) [of k] assms(3) ok [of i] ok [of k] show ?thesis by simp
  qed
  ultimately show ?thesis by (simp add: fix_inv_def bridged_def)
qed

lemma fix_inv_root: "fix_inv p n 0 \<Longrightarrow> down_inv p n 0"
  by (auto simp: fix_inv_def down_inv_def)

lemma heap_ok_cong: "(\<And>k. k < n \<Longrightarrow> q k = p k) \<Longrightarrow> heap_ok p n \<Longrightarrow> heap_ok q n"
proof -
  assume eq: "\<And>k. k < n \<Longrightarrow> q k = p k" and ok: "heap_ok p n"
  have "q (par k) \<le> q k" if "0 < k" "k < n" for k
    using ok eq [of k] eq [of "par k"] par_less [OF that(1)] that by (simp add: heap_ok_def)
  then show "heap_ok q n" by (simp add: heap_ok_def)
qed

lemma heap_ok_less: "heap_ok p n \<Longrightarrow> heap_ok p (n - 1)"
  by (auto simp: heap_ok_def)

lemma heap_ok_root: "heap_ok p n \<Longrightarrow> k < n \<Longrightarrow> p 0 \<le> p k"
proof (induction k rule: less_induct)
  case (less k)
  show ?case
  proof (cases "k = 0")
    case False
    then have "par k < k" by (simp add: par_less)
    with less have "p 0 \<le> p (par k)" by auto
    with less(2,3) False show ?thesis by (auto simp: heap_ok_def)
  qed simp
qed

text \<open>\<open>down\<close> followed, when nothing moved, by \<open>up\<close>.\<close>

lemma down_up_correct:
  assumes h: "i < n" "n \<le> length (fst h)" and inv: "fix_inv (prio h) n i"
    and r: "heap_down h i n = (h1, moved)" "h2 = (if \<not> moved then heap_up h1 i else h1)"
  shows "rearranged h h2" "heap_ok (prio h2) n" "\<And>k. k \<ge> n \<Longrightarrow> fst h2 ! k = fst h ! k"
proof -
  obtain i' where d: "heap_down_loop h i n = (h1, i')" "moved = (i < i')"
    using r(1) by (auto simp: heap_down_def split: prod.splits)
  have il: "i < length (fst h)" using h by simp
  note dc = heap_down_loop_correct [OF il h(2) d(1)]
  have il1: "i < length (fst h1)" using dc rearranged_length [of h h1] il by simp
  note uc = heap_up_correct [OF il1, of n]
  show "rearranged h h2" using dc uc r(2) rearranged_trans by (auto split: if_splits)
  show "heap_ok (prio h2) n" using dc uc r(2) d(2) inv h by (auto split: if_splits)
  show "fst h2 ! k = fst h ! k" if "k \<ge> n" for k
    using dc uc r(2) h that by (auto split: if_splits)
qed

lemma h_Pop_correct:
  assumes "indexed h" "fst h \<noteq> []" "heap_ok (prio h) (length (fst h) - 1)" "h_Pop h = (q, h')"
  shows "q = last (fst h)" "heap_inv h'" "set (fst h') = set (fst h) - {q}" "same_entries (snd h) (snd h')"
    "he_index (snd h' q) = - 1" "\<And>p. p \<notin> set (fst h) \<Longrightarrow> snd h' p = snd h p"
proof -
  define ys where "ys = butlast (fst h)"
  have ys: "fst h = ys @ [q]" and h': "h' = (ys, set_index (snd h) q (- 1))"
    using assms(2,4) by (auto simp: ys_def h_Pop_def Let_def split: prod.splits)
  show "q = last (fst h)" by (simp add: ys)
  have q: "q \<notin> set ys" using assms(1) ys by (simp add: indexed_def)
  then show "set (fst h') = set (fst h) - {q}" by (auto simp: ys h')
  show "same_entries (snd h) (snd h')" by (simp add: h')
  show "he_index (snd h' q) = - 1" by (simp add: h' set_index_def)
  show "snd h' p = snd h p" if "p \<notin> set (fst h)" for p
    using that by (simp add: h' ys set_index_def)
  have "indexed h'"
    unfolding indexed_def
  proof (intro conjI allI impI)
    show "distinct (fst h')" using assms(1) ys by (simp add: h' indexed_def)
    fix i assume i: "i < length (fst h')"
    then have "ys ! i \<noteq> q" using q by (auto simp: h')
    moreover have "he_index (snd h (fst h ! i)) = int i"
      using assms(1) i by (simp add: indexed_def ys h')
    ultimately show "he_index (snd h' (fst h' ! i)) = int i"
      using i by (simp add: h' ys nth_append set_index_def)
  qed
  moreover have "heap_ok (prio h') (length (fst h'))"
  proof (rule heap_ok_cong)
    show "heap_ok (prio h) (length (fst h'))" using assms(3) by (simp add: ys h')
    show "prio h' k = prio h k" if "k < length (fst h')" for k
      using that by (auto simp: prio_def h' ys nth_append set_index_def)
  qed
  ultimately show "heap_inv h'" by (simp add: heap_inv_def)
qed

lemma heap_Push_correct:
  assumes "heap_inv h" "p \<notin> set (fst h)"
  shows "heap_inv (heap_Push h p)" "set (fst (heap_Push h p)) = insert p (set (fst h))"
    "same_entries (snd h) (snd (heap_Push h p))"
    "\<And>x. x \<notin> insert p (set (fst h)) \<Longrightarrow> snd (heap_Push h p) x = snd h x"
proof -
  let ?n = "length (fst h)" and ?h = "h_Push h p"
  have hp: "fst ?h = fst h @ [p]" "snd ?h = set_index (snd h) p (int ?n)"
    by (cases h; simp add: h_Push_def)+
  have ix: "indexed ?h"
    using assms unfolding indexed_def heap_inv_def
    by (auto simp: hp nth_append set_index_def less_Suc_eq)
  have pr: "prio ?h k = prio h k" if "k < ?n" for k
    using that by (auto simp: prio_def hp nth_append set_index_def)
  have "up_inv (prio ?h) (Suc ?n) ?n"
  proof -
    have "prio ?h (par k) \<le> prio ?h k" if "0 < k" "k < Suc ?n" "k \<noteq> ?n" for k
      using assms(1) that par_less [of k] pr [of k] pr [of "par k"] by (auto simp: heap_inv_def heap_ok_def)
    moreover have "bridged (prio ?h) (Suc ?n) ?n"
      unfolding bridged_def using par_less by (metis less_Suc_eq_le not_le)
    ultimately show ?thesis by (simp add: up_inv_def)
  qed
  moreover have eq: "heap_Push h p = heap_up ?h ?n" by (simp add: heap_Push_def h_Len_def hp)
  ultimately have up: "rearranged ?h (heap_Push h p)" "heap_ok (prio (heap_Push h p)) (Suc ?n)"
    using heap_up_correct [of ?n ?h "Suc ?n"] by (auto simp: hp)
  have len: "length (fst (heap_Push h p)) = Suc ?n" using rearranged_length [OF up(1)] by (simp add: hp)
  show "heap_inv (heap_Push h p)" using up ix len by (simp add: heap_inv_def rearranged_def)
  show "set (fst (heap_Push h p)) = insert p (set (fst h))" using rearranged_set [OF up(1)] by (simp add: hp)
  show "same_entries (snd h) (snd (heap_Push h p))"
    using up(1) same_entries_trans [OF same_entries_set_index] unfolding rearranged_def hp by blast
  show "snd (heap_Push h p) x = snd h x" if "x \<notin> insert p (set (fst h))" for x
    using up(1) that by (simp add: rearranged_def hp set_index_def)
qed

lemma heap_Fix_correct:
  assumes "heap_inv h" "i < length (fst h)" "p = fst h ! i"
  shows "heap_inv (heap_Fix (with_expiry h p t) i)"
    "rearranged (with_expiry h p t) (heap_Fix (with_expiry h p t) i)"
proof -
  let ?h = "with_expiry h p t" and ?n = "length (fst h)"
  have d: "distinct (fst h)" using assms(1) by (simp add: heap_inv_def indexed_def)
  have "prio ?h k = prio h k" if "k < ?n" "k \<noteq> i" for k
    using that assms d by (simp add: prio_def with_expiry_def nth_eq_iff_index_eq)
  then have fi: "fix_inv (prio ?h) ?n i"
    using assms heap_ok_fix_inv [of "prio h" ?n i "prio ?h"] by (simp add: heap_inv_def)
  have ix: "indexed ?h"
    using assms(1) by (auto simp: heap_inv_def indexed_def with_expiry_def)
  obtain h1 moved where dn: "heap_down ?h i ?n = (h1, moved)" by fastforce
  have eq: "heap_Fix ?h i = (if \<not> moved then heap_up h1 i else h1)"
    using dn by (simp add: heap_Fix_def h_Len_def with_expiry_def)
  note c = down_up_correct [OF assms(2) _ fi dn eq]
  show r: "rearranged ?h (heap_Fix ?h i)" using c(1) by (simp add: with_expiry_def)
  show "heap_inv (heap_Fix ?h i)"
    using c(2) r ix rearranged_length [OF r] by (simp add: heap_inv_def rearranged_def with_expiry_def)
qed

lemma heap_Remove_correct:
  assumes "heap_inv h" "i < length (fst h)" "heap_Remove h i = (q, h')"
  shows "q = fst h ! i" "heap_inv h'" "set (fst h') = set (fst h) - {q}" "same_entries (snd h) (snd h')"
    "he_index (snd h' q) = - 1" "\<And>p. p \<notin> set (fst h) \<Longrightarrow> snd h' p = snd h p"
proof -
  let ?n = "length (fst h) - 1"
  have "\<exists>g. rearranged h g \<and> h_Pop g = (q, h') \<and> last (fst g) = fst h ! i \<and> heap_ok (prio g) ?n"
  proof (cases "?n = i")
    case True
    have "heap_ok (prio h) ?n" using assms(1) heap_ok_less by (simp add: heap_inv_def)
    moreover have "last (fst h) = fst h ! i" using assms(2) True by (subst last_conv_nth) auto
    ultimately show ?thesis using True assms(3) by (intro exI [of _ h]) (simp add: heap_Remove_def h_Len_def)
  next
    case False
    then have i: "i < ?n" and n: "?n < length (fst h)" using assms(2) by auto
    let ?s = "h_Swap h i ?n"
    have len: "length (fst ?s) = length (fst h)" by (simp add: fst_Swap)
    note sw = rearranged_Swap [OF assms(2) n]
    have "heap_ok (prio h) ?n" using assms(1) heap_ok_less by (simp add: heap_inv_def)
    then have fi: "fix_inv (prio ?s) ?n i"
      unfolding prio_Swap [OF assms(2) n] by (rule heap_ok_fix_inv) (use i in auto)
    obtain h1 moved where dn: "heap_down ?s i ?n = (h1, moved)" by fastforce
    define g where "g = (if \<not> moved then heap_up h1 i else h1)"
    have "?n \<le> length (fst ?s)" using len by simp
    note c = down_up_correct [OF i this fi dn g_def]
    have "h_Pop g = (q, h')" using assms(3) False dn by (simp add: heap_Remove_def h_Len_def g_def)
    moreover have "last (fst g) = fst h ! i"
      using rearranged_length [OF c(1)] len c(3) [of ?n] n i
      by (subst last_conv_nth) (auto simp: fst_Swap)
    ultimately show ?thesis using c(2) rearranged_trans [OF sw c(1)] by blast
  qed
  then obtain g where g: "rearranged h g" "h_Pop g = (q, h')" "last (fst g) = fst h ! i" "heap_ok (prio g) ?n"
    by blast
  have ne: "fst g \<noteq> []" using rearranged_length [OF g(1)] assms(2) by auto
  have ix: "indexed g" using g(1) assms(1) by (simp add: rearranged_def heap_inv_def)
  have "heap_ok (prio g) (length (fst g) - 1)" using g(4) rearranged_length [OF g(1)] by simp
  note p = h_Pop_correct [OF ix ne this g(2)]
  show "q = fst h ! i" using p(1) g(3) by simp
  show "heap_inv h'" by (rule p(2))
  show "set (fst h') = set (fst h) - {q}" using p(3) rearranged_set [OF g(1)] by simp
  show "same_entries (snd h) (snd h')"
    using g(1) p(4) same_entries_trans by (auto simp: rearranged_def)
  show "he_index (snd h' q) = - 1" by (rule p(5))
  show "snd h' x = snd h x" if "x \<notin> set (fst h)" for x
    using p(6) [of x] g(1) that rearranged_set [OF g(1)] by (simp add: rearranged_def)
qed

lemma h_Swap_self: "indexed h \<Longrightarrow> i < length (fst h) \<Longrightarrow> h_Swap h i i = h"
  by (cases h) (simp add: h_Swap_def Let_def set_index_def indexed_def fun_upd_idem)

lemma heap_Pop_is_Remove:
  assumes "heap_inv h" "fst h \<noteq> []"
  shows "heap_Pop h = heap_Remove h 0"
proof (cases "h_Len h - 1 = 0")
  case True
  have "h_Swap h 0 0 = h" using assms by (intro h_Swap_self) (auto simp: heap_inv_def)
  with True show ?thesis
    by (simp add: heap_Pop_def heap_Remove_def heap_down_def heap_down_loop.simps)
next
  case False
  have "heap_up g 0 = g" for g by (subst heap_up_par) (simp add: par_def)
  with False show ?thesis by (simp add: heap_Pop_def heap_Remove_def Let_def split: prod.splits)
qed

lemma heap_Pop_correct:
  assumes "heap_inv h" "fst h \<noteq> []" "heap_Pop h = (q, h')"
  shows "q \<in> set (fst h)" "\<And>p. p \<in> set (fst h) \<Longrightarrow> he_expiresAt (snd h q) \<le> he_expiresAt (snd h p)"
    "heap_inv h'" "set (fst h') = set (fst h) - {q}" "same_entries (snd h) (snd h')"
    "he_index (snd h' q) = - 1" "\<And>p. p \<notin> set (fst h) \<Longrightarrow> snd h' p = snd h p"
proof -
  have z: "0 < length (fst h)" using assms(2) by simp
  have r: "heap_Remove h 0 = (q, h')" using assms heap_Pop_is_Remove by simp
  note c = heap_Remove_correct [OF assms(1) z r]
  show "q \<in> set (fst h)" using c(1) z by simp
  show "he_expiresAt (snd h q) \<le> he_expiresAt (snd h p)" if p: "p \<in> set (fst h)" for p
  proof -
    obtain k where "k < length (fst h)" "fst h ! k = p" using p by (auto simp: in_set_conv_nth)
    then show ?thesis
      using heap_ok_root [of "prio h" _ k] assms(1) c(1) by (auto simp: heap_inv_def prio_def)
  qed
qed (use heap_Remove_correct(2-) [OF assms(1) _ heap_Pop_is_Remove [OF assms(1,2), symmetric, unfolded assms(3)]] assms(2) in auto)

lemma heap_root_min:
  assumes "heap_inv h" "fst h \<noteq> []" "p \<in> set (fst h)"
  shows "he_expiresAt (snd h (fst h ! 0)) \<le> he_expiresAt (snd h p)"
proof -
  obtain k where "k < length (fst h)" "fst h ! k = p" using assms(3) by (auto simp: in_set_conv_nth)
  then show ?thesis using heap_ok_root [of "prio h" _ k] assms(1) by (auto simp: heap_inv_def prio_def)
qed

section \<open>The contract of the expiry queue\<close>

locale expiry_queue =
  fixes inv :: "'h \<Rightarrow> bool" and elems :: "'h \<Rightarrow> nat set" and mem :: "'h \<Rightarrow> hmem"
    and push :: "'h \<Rightarrow> nat \<Rightarrow> 'h" and pop :: "'h \<Rightarrow> nat \<times> 'h" and remove :: "'h \<Rightarrow> nat \<Rightarrow> nat \<times> 'h"
  assumes push_inv: "inv h \<Longrightarrow> p \<notin> elems h \<Longrightarrow> inv (push h p)"
    and push_elems: "inv h \<Longrightarrow> p \<notin> elems h \<Longrightarrow> elems (push h p) = insert p (elems h)"
    and push_mem: "inv h \<Longrightarrow> p \<notin> elems h \<Longrightarrow> same_entries (mem h) (mem (push h p))"
    and pop_inv: "inv h \<Longrightarrow> elems h \<noteq> {} \<Longrightarrow> pop h = (q, h') \<Longrightarrow> inv h'"
    and pop_elem: "inv h \<Longrightarrow> elems h \<noteq> {} \<Longrightarrow> pop h = (q, h') \<Longrightarrow> q \<in> elems h"
    and pop_elems: "inv h \<Longrightarrow> elems h \<noteq> {} \<Longrightarrow> pop h = (q, h') \<Longrightarrow> elems h' = elems h - {q}"
    and pop_mem: "inv h \<Longrightarrow> elems h \<noteq> {} \<Longrightarrow> pop h = (q, h') \<Longrightarrow> same_entries (mem h) (mem h')"
    and pop_min: "inv h \<Longrightarrow> elems h \<noteq> {} \<Longrightarrow> pop h = (q, h') \<Longrightarrow> p \<in> elems h \<Longrightarrow>
      he_expiresAt (mem h q) \<le> he_expiresAt (mem h p)"
    and pop_index: "inv h \<Longrightarrow> elems h \<noteq> {} \<Longrightarrow> pop h = (q, h') \<Longrightarrow> he_index (mem h' q) = - 1"
    and elem_index: "inv h \<Longrightarrow> p \<in> elems h \<Longrightarrow> 0 \<le> he_index (mem h p)"
    and remove_at: "inv h \<Longrightarrow> p \<in> elems h \<Longrightarrow> remove h (nat (he_index (mem h p))) = (q, h') \<Longrightarrow>
      q = p \<and> inv h' \<and> elems h' = elems h - {p} \<and> same_entries (mem h) (mem h')"
begin

text \<open>Two successive pops return entries in the order of their expiry.\<close>

lemma pops_in_order:
  assumes "inv h" "pop h = (q, h')" "elems h \<noteq> {}" "pop h' = (r, h'')" "elems h' \<noteq> {}"
  shows "he_expiresAt (mem h q) \<le> he_expiresAt (mem h r)"
proof -
  have "r \<in> elems h'" using pop_elem [OF _ assms(5,4)] pop_inv [OF assms(1,3,2)] by blast
  then show ?thesis using pop_min [OF assms(1,3,2)] pop_elems [OF assms(1,3,2)] by blast
qed

text \<open>An entry stays in the queue until it is popped or removed itself.\<close>

lemma other_stays:
  assumes "inv h" "p \<in> elems h" "q \<in> elems h" "p \<noteq> q" "remove h (nat (he_index (mem h q))) = (x, h')"
  shows "p \<in> elems h'"
  using remove_at [OF assms(1,3,5)] assms by blast

end

interpretation eheap: expiry_queue heap_inv "\<lambda>h. set (fst h)" snd heap_Push heap_Pop heap_Remove
proof unfold_locales
  fix h :: heap and p q h'
  assume inv: "heap_inv h"
  show "heap_inv (heap_Push h p)" "set (fst (heap_Push h p)) = insert p (set (fst h))"
    "same_entries (snd h) (snd (heap_Push h p))" if "p \<notin> set (fst h)"
    using heap_Push_correct [OF inv that] by blast+
  show "heap_inv h'" "q \<in> set (fst h)" "set (fst h') = set (fst h) - {q}" "same_entries (snd h) (snd h')"
    "he_index (snd h' q) = - 1" if "set (fst h) \<noteq> {}" "heap_Pop h = (q, h')"
    using heap_Pop_correct [OF inv _ that(2)] that(1) by auto
  show "he_expiresAt (snd h q) \<le> he_expiresAt (snd h p)"
    if "set (fst h) \<noteq> {}" "heap_Pop h = (q, h')" "p \<in> set (fst h)"
    using heap_Pop_correct(2) [OF inv _ that(2,3)] that(1) by simp
  show ix: "0 \<le> he_index (snd h p)" if p: "p \<in> set (fst h)"
    using inv p by (auto simp: heap_inv_def indexed_def in_set_conv_nth)
  show "q = p \<and> heap_inv h' \<and> set (fst h') = set (fst h) - {p} \<and> same_entries (snd h) (snd h')"
    if p: "p \<in> set (fst h)" "heap_Remove h (nat (he_index (snd h p))) = (q, h')"
  proof -
    obtain i where i: "i < length (fst h)" "fst h ! i = p" using p(1) by (auto simp: in_set_conv_nth)
    then have "nat (he_index (snd h p)) = i" using inv by (auto simp: heap_inv_def indexed_def)
    with p heap_Remove_correct [OF inv i(1)] i show ?thesis by auto
  qed
qed

end
