(* ===== verification/Result_Types.thy ===== *)
theory Result_Types
  imports Go_Prelude Complex_Main "HOL-Library.Char_ord" "HOL-Library.List_Lexorder"
begin

text \<open>
  The shared vocabulary of the program, package \<open>internal/types\<close>: policy actions,
  image digests, severity ranks and findings, freshness of timestamps, check results and
  the aggregation of the results of several attestations.

  String-based Go types (\<open>Action\<close>, \<open>CheckType\<close>, \<open>CheckStatus\<close>) can hold any string, so they
  are strings here and the default branches of the source are branches of the model.  A
  \<open>float64\<close> is a rational, an infinity or NaN; the program only compares them.  Texts of
  messages keep their fixed parts; times and durations in them are rendered in decimal.
\<close>

section \<open>Rendering of numbers\<close>

fun nat_digits :: "nat \<Rightarrow> string \<Rightarrow> string" where
  "nat_digits n acc =
     (let acc' = char_of (48 + n mod 10) # acc
      in if n < 10 then acc' else nat_digits (n div 10) acc')"

declare nat_digits.simps [simp del]

definition Itoa :: "int \<Rightarrow> string" where
  "Itoa i = (if i < 0 then CHR ''-'' # nat_digits (nat (- i)) [] else nat_digits (nat i) [])"

section \<open>Floating point numbers\<close>

datatype float64 = NaN | NegInf | PosInf | Fin rat

fun flt_less :: "float64 \<Rightarrow> float64 \<Rightarrow> bool" where
  "flt_less (Fin x) (Fin y) = (x < y)"
| "flt_less NegInf (Fin y) = True"
| "flt_less NegInf PosInf = True"
| "flt_less (Fin x) PosInf = True"
| "flt_less _ _ = False"

definition flt_geq :: "float64 \<Rightarrow> float64 \<Rightarrow> bool" where
  "flt_geq x y = (flt_less y x \<or> x = y \<and> x \<noteq> NaN)"

text \<open>The built-in \<open>max\<close>: NaN wins over every number.\<close>

definition flt_max :: "float64 \<Rightarrow> float64 \<Rightarrow> float64" where
  "flt_max x y = (if x = NaN \<or> y = NaN then NaN else if flt_less x y then y else x)"

definition flt_min :: "float64 \<Rightarrow> float64 \<Rightarrow> float64" where
  "flt_min x y = (if x = NaN \<or> y = NaN then NaN else if flt_less y x then y else x)"

text \<open>\<open>%.1f\<close>: rounding to one decimal, ties to even.\<close>

definition round_half_even :: "rat \<Rightarrow> int" where
  "round_half_even x =
     (let f = \<lfloor>x\<rfloor>; d = x - of_int f
      in if d < 1/2 then f else if 1/2 < d then f + 1 else if even f then f else f + 1)"

fun format_1f :: "float64 \<Rightarrow> string" where
  "format_1f NaN = ''NaN''"
| "format_1f NegInf = ''-Inf''"
| "format_1f PosInf = ''+Inf''"
| "format_1f (Fin x) =
     (let n = round_half_even (\<bar>x\<bar> * 10)
      in (if x < 0 then ''-'' else []) @ Itoa (n div 10) @ ''.'' @ Itoa (n mod 10))"

section \<open>Actions, check types and statuses\<close>

type_synonym Action = string
abbreviation ActionAllow :: Action where "ActionAllow \<equiv> ''allow''"
abbreviation ActionWarn :: Action where "ActionWarn \<equiv> ''warn''"
abbreviation ActionDeny :: Action where "ActionDeny \<equiv> ''deny''"

definition ValidateAction :: "string \<Rightarrow> Action \<Rightarrow> goerr option" where
  "ValidateAction name value =
     (if value = ActionAllow \<or> value = ActionWarn \<or> value = ActionDeny then None
      else Some (errors_New (''invalid policy action value: '' @ name @ '' '' @ quoted value)
                   [ErrInvalidAction]))"

type_synonym CheckStatus = string
abbreviation StatusPass :: CheckStatus where "StatusPass \<equiv> ''pass''"
abbreviation StatusWarn :: CheckStatus where "StatusWarn \<equiv> ''warn''"
abbreviation StatusFail :: CheckStatus where "StatusFail \<equiv> ''fail''"

type_synonym CheckType = string
abbreviation CheckTypeSLSA :: CheckType where "CheckTypeSLSA \<equiv> ''slsa''"
abbreviation CheckTypeVEX :: CheckType where "CheckTypeVEX \<equiv> ''vex''"
abbreviation CheckTypeVSA :: CheckType where "CheckTypeVSA \<equiv> ''vsa''"
abbreviation CheckTypeFetch :: CheckType where "CheckTypeFetch \<equiv> ''fetch''"
abbreviation CheckTypeAttestation :: CheckType where "CheckTypeAttestation \<equiv> ''attestation''"
abbreviation CheckTypePolicy :: CheckType where "CheckTypePolicy \<equiv> ''policy''"
abbreviation CheckTypeNotation :: CheckType where "CheckTypeNotation \<equiv> ''notation''"
abbreviation CheckTypeCEL :: CheckType where "CheckTypeCEL \<equiv> ''cel''"
abbreviation CheckTypeSBOM :: CheckType where "CheckTypeSBOM \<equiv> ''sbom''"
abbreviation CheckTypeSCAI :: CheckType where "CheckTypeSCAI \<equiv> ''scai''"
abbreviation CheckTypeSource :: CheckType where "CheckTypeSource \<equiv> ''source''"
abbreviation CheckTypeBuildEnv :: CheckType where "CheckTypeBuildEnv \<equiv> ''buildenv''"
abbreviation CheckTypeVulnScan :: CheckType where "CheckTypeVulnScan \<equiv> ''vulnscan''"
abbreviation CheckTypeTestResult :: CheckType where "CheckTypeTestResult \<equiv> ''testresult''"
abbreviation CheckTypeRelease :: CheckType where "CheckTypeRelease \<equiv> ''release''"
abbreviation CheckTypeRuntimeTrace :: CheckType where "CheckTypeRuntimeTrace \<equiv> ''runtimetrace''"
abbreviation CheckTypeGUAC :: CheckType where "CheckTypeGUAC \<equiv> ''guac''"
abbreviation CheckTypeScorecard :: CheckType where "CheckTypeScorecard \<equiv> ''scorecard''"
abbreviation CheckTypeInternal :: CheckType where "CheckTypeInternal \<equiv> ''internal''"

definition AttestationCheckTypes :: "CheckType list" where
  "AttestationCheckTypes =
     [CheckTypeSLSA, CheckTypeVEX, CheckTypeVSA, CheckTypeNotation, CheckTypeSBOM,
      CheckTypeSCAI, CheckTypeSource, CheckTypeBuildEnv, CheckTypeVulnScan,
      CheckTypeTestResult, CheckTypeRelease, CheckTypeRuntimeTrace, CheckTypeScorecard]"

section \<open>Digests\<close>

definition expectedHexLen :: "string \<rightharpoonup> nat" where
  "expectedHexLen =
     map_of [(''sha256'', 64), (''sha384'', 96), (''sha512'', 128), (''sha3-256'', 64),
             (''sha3-384'', 96), (''sha3-512'', 128), (''sha512-256'', 64)]"

definition is_hex_char :: "char \<Rightarrow> bool" where
  "is_hex_char c =
     (let n = of_char c :: nat in \<not> ((n < 48 \<or> n > 57) \<and> (n < 97 \<or> n > 102)))"

definition isHex :: "string \<Rightarrow> bool" where
  "isHex s = list_all is_hex_char s"

definition ParseDigest :: "string \<Rightarrow> string \<times> string" where
  "ParseDigest digest =
     (case Cut digest (CHR '':'') of
        None \<Rightarrow> ([], [])
      | Some (p0, p1) \<Rightarrow>
          if p0 = [] \<or> p1 = [] then ([], [])
          else (case expectedHexLen p0 of
                  None \<Rightarrow> ([], [])
                | Some expected \<Rightarrow>
                    if length p1 \<noteq> expected \<or> \<not> isHex p1 then ([], []) else (p0, p1)))"

definition ExtractDigest :: "string \<Rightarrow> string" where
  "ExtractDigest entry =
     (let candidate = (case CutLast entry (CHR ''@'') of Some (_, after) \<Rightarrow> after | None \<Rightarrow> entry)
      in if fst (ParseDigest candidate) = [] then [] else candidate)"

definition MatchDigestInMap :: "string \<Rightarrow> (string \<rightharpoonup> string) \<Rightarrow> bool" where
  "MatchDigestInMap imageDigest subjectDigests =
     (let (algo, hash) = ParseDigest imageDigest
      in if algo = [] then False
         else (case subjectDigests algo of None \<Rightarrow> [] | Some h \<Rightarrow> h) = hash)"

definition NormalizeAlgorithm :: "string \<Rightarrow> string" where
  "NormalizeAlgorithm a = ToLower (filter (\<lambda>c. c \<noteq> CHR ''-'' \<and> c \<noteq> CHR ''_'') a)"

section \<open>Severities and findings\<close>

abbreviation (input) SeverityRankUnknown :: int where "SeverityRankUnknown \<equiv> - 1"
abbreviation (input) SeverityRankNone :: int where "SeverityRankNone \<equiv> 0"
abbreviation (input) SeverityRankLow :: int where "SeverityRankLow \<equiv> 1"
abbreviation (input) SeverityRankMedium :: int where "SeverityRankMedium \<equiv> 2"
abbreviation (input) SeverityRankHigh :: int where "SeverityRankHigh \<equiv> 3"
abbreviation (input) SeverityRankCritical :: int where "SeverityRankCritical \<equiv> 4"

text \<open>The double nearest to 0.1.\<close>

definition cvssLowMinimum :: rat where
  "cvssLowMinimum = 3602879701896397 / 36028797018963968"

definition SeverityName :: "int \<Rightarrow> string" where
  "SeverityName rank =
     (if rank = SeverityRankNone then ''none'' else if rank = SeverityRankLow then ''low''
      else if rank = SeverityRankMedium then ''medium'' else if rank = SeverityRankHigh then ''high''
      else if rank = SeverityRankCritical then ''critical'' else ''unknown'')"

definition SeverityRankOf :: "string \<Rightarrow> int \<times> bool" where
  "SeverityRankOf severity =
     (let s = ToLower (TrimSpace severity)
      in if s = ''none'' \<or> s = ''info'' \<or> s = ''informational'' then (SeverityRankNone, True)
         else if s = ''low'' \<or> s = ''negligible'' then (SeverityRankLow, True)
         else if s = ''medium'' \<or> s = ''moderate'' then (SeverityRankMedium, True)
         else if s = ''high'' \<or> s = ''important'' then (SeverityRankHigh, True)
         else if s = ''critical'' then (SeverityRankCritical, True)
         else (SeverityRankUnknown, False))"

definition SeverityMinimumCVSS :: "int \<Rightarrow> float64" where
  "SeverityMinimumCVSS rank =
     (if rank = SeverityRankLow then Fin cvssLowMinimum
      else if rank = SeverityRankMedium then Fin 4
      else if rank = SeverityRankHigh then Fin 7
      else if rank = SeverityRankCritical then Fin 9 else Fin 0)"

definition SeverityRankFromCVSS :: "float64 \<Rightarrow> int \<times> bool" where
  "SeverityRankFromCVSS score =
     (if score = NaN \<or> flt_less score (Fin 0) \<or> flt_less (Fin 10) score
        then (SeverityRankUnknown, False)
      else if flt_geq score (Fin 9) then (SeverityRankCritical, True)
      else if flt_geq score (Fin 7) then (SeverityRankHigh, True)
      else if flt_geq score (Fin 4) then (SeverityRankMedium, True)
      else if flt_geq score (Fin cvssLowMinimum) then (SeverityRankLow, True)
      else (SeverityRankNone, True))"

record Finding =
  f_ID :: string
  f_Score :: "float64 option"
  f_Rank :: int

definition NewFinding :: "string \<Rightarrow> Finding" where
  "NewFinding i = \<lparr>f_ID = i, f_Score = None, f_Rank = SeverityRankUnknown\<rparr>"

definition AddScore :: "Finding \<Rightarrow> float64 \<Rightarrow> Finding \<times> bool" where
  "AddScore f score =
     (let (rank, valid) = SeverityRankFromCVSS score
      in if \<not> valid then (f, False)
         else
           let f1 = (case f_Score f of
                       None \<Rightarrow> f\<lparr>f_Score := Some score\<rparr>
                     | Some old \<Rightarrow> if flt_less old score then f\<lparr>f_Score := Some score\<rparr> else f)
           in (f1\<lparr>f_Rank := max (f_Rank f1) rank\<rparr>, True))"

definition AddSeverity :: "Finding \<Rightarrow> string \<Rightarrow> Finding \<times> bool" where
  "AddSeverity f severity =
     (let (rank, known) = SeverityRankOf severity
      in if \<not> known then (f, False) else (f\<lparr>f_Rank := max (f_Rank f) rank\<rparr>, True))"

definition EffectiveScore :: "Finding \<Rightarrow> float64" where
  "EffectiveScore f =
     (let minimum = SeverityMinimumCVSS (f_Rank f)
      in case f_Score f of Some s \<Rightarrow> flt_max s minimum | None \<Rightarrow> minimum)"

record SeverityThresholds =
  th_Label :: string
  th_MaxScore :: "float64 option"
  th_MinSeverity :: string
  th_IgnoreCVEs :: "string list"

definition finding_violation :: "SeverityThresholds \<Rightarrow> Finding \<Rightarrow> string" where
  "finding_violation t f =
     (if f_Rank f = SeverityRankUnknown then
        th_Label t @ '' threshold cannot be evaluated: '' @ f_ID f
          @ '' has no recognizable severity or score''
      else
        let exceeded0 = (case th_MaxScore t of None \<Rightarrow> False
                          | Some m \<Rightarrow> flt_less m (EffectiveScore f));
            exceeded = (if th_MinSeverity t \<noteq> [] then
                          (let (minRank, known) = SeverityRankOf (th_MinSeverity t)
                           in if \<not> known \<or> f_Rank f \<ge> minRank then True else exceeded0)
                        else exceeded0)
        in if \<not> exceeded then []
           else th_Label t @ '' threshold exceeded: '' @ f_ID f @ '' (score ''
                  @ format_1f (EffectiveScore f) @ '', severity '' @ SeverityName (f_Rank f) @ '')'')"

fun violation_loop :: "SeverityThresholds \<Rightarrow> Finding list \<Rightarrow> string" where
  "violation_loop t [] = []"
| "violation_loop t (f # fs) =
     (if f_ID f \<in> set (th_IgnoreCVEs t) then violation_loop t fs
      else if finding_violation t f \<noteq> [] then finding_violation t f
      else violation_loop t fs)"

definition Violation :: "SeverityThresholds \<Rightarrow> Finding list \<Rightarrow> string" where
  "Violation t findings =
     (if th_MaxScore t = None \<and> th_MinSeverity t = [] then [] else violation_loop t findings)"

section \<open>Freshness\<close>

definition ClockSkewTolerance :: duration where
  "ClockSkewTolerance = 60 * seconds"

definition maxReasonableAge :: duration where
  "maxReasonableAge = 200 * 365 * 24 * hours"

definition VerifyFreshness ::
  "time \<Rightarrow> time \<Rightarrow> duration option \<Rightarrow> string \<Rightarrow> goerr \<Rightarrow> goerr \<Rightarrow> goerr \<Rightarrow> goerr option" where
  "VerifyFreshness now timestamp maxAge label errFuture errUnreasonablyOld errStale =
     (let age0 = time_Sub now timestamp
      in if age0 < - ClockSkewTolerance then
           Some \<lparr>err_msg = err_msg errFuture @ '': '' @ Itoa timestamp, err_wraps = err_wraps errFuture\<rparr>
         else
           let age = (if age0 < 0 then 0 else age0)
           in if age > maxReasonableAge then
                Some \<lparr>err_msg = err_msg errUnreasonablyOld @ '': timestamp '' @ Itoa timestamp
                        @ '' is unreasonably old'',
                      err_wraps = err_wraps errUnreasonablyOld\<rparr>
              else
                (case maxAge of
                   None \<Rightarrow> None
                 | Some m \<Rightarrow>
                     if age > m then
                       Some \<lparr>err_msg = err_msg errStale @ '': '' @ label @ '' '' @ Itoa age
                               @ '' ago, max '' @ Itoa m,
                             err_wraps = err_wraps errStale\<rparr>
                     else None))"

section \<open>Results\<close>

text \<open>The dynamic types of the values in the metadata map of a result.  A nested Go map is an association list.\<close>

datatype meta =
    MInt "64 word" | MFloat float64 | MStr string | MBool bool | MStrs "string list"
  | MStrMap "(string \<times> string) list" | MIntMap "(string \<times> 64 word) list"
  | MConflict "(string \<times> string) list" "(string \<times> string) list"
  | MMaps "(string \<times> string) list list" | MNested "(string \<times> meta) list" | MAnys "meta list"

type_synonym metadata = "string \<rightharpoonup> meta"

record CheckResult =
  cr_Type :: CheckType
  cr_Passed :: bool
  cr_Status :: CheckStatus
  cr_Detail :: string
  cr_Err :: "goerr option"
  cr_Metadata :: "metadata option"
  cr_Missing :: bool

record Result =
  r_Allowed :: bool
  r_Verified :: bool
  r_Mode :: string
  r_Reason :: string
  r_CheckResults :: "CheckResult list"

definition PassResult :: "CheckType \<Rightarrow> string \<Rightarrow> CheckResult" where
  "PassResult checkType detail =
     \<lparr>cr_Type = checkType, cr_Passed = True, cr_Status = StatusPass, cr_Detail = detail,
      cr_Err = None, cr_Metadata = None, cr_Missing = False\<rparr>"

definition WarnResult :: "CheckType \<Rightarrow> string \<Rightarrow> CheckResult" where
  "WarnResult checkType detail =
     \<lparr>cr_Type = checkType, cr_Passed = True, cr_Status = StatusWarn, cr_Detail = detail,
      cr_Err = None, cr_Metadata = None, cr_Missing = False\<rparr>"

definition FailResult :: "CheckType \<Rightarrow> string \<Rightarrow> goerr option \<Rightarrow> CheckResult" where
  "FailResult checkType detail err =
     \<lparr>cr_Type = checkType, cr_Passed = False, cr_Status = StatusFail, cr_Detail = detail,
      cr_Err = err, cr_Metadata = None, cr_Missing = False\<rparr>"

definition SoftFailResult :: "CheckType \<Rightarrow> string \<Rightarrow> goerr option \<Rightarrow> CheckResult" where
  "SoftFailResult checkType detail err =
     \<lparr>cr_Type = checkType, cr_Passed = False, cr_Status = StatusWarn, cr_Detail = detail,
      cr_Err = err, cr_Metadata = None, cr_Missing = False\<rparr>"

lemmas check_result_defs [result_simps] =
  PassResult_def WarnResult_def FailResult_def SoftFailResult_def

definition Incomplete :: "Result \<Rightarrow> bool" where
  "Incomplete r =
     list_ex (\<lambda>c. cr_Type c = CheckTypeInternal \<or> cr_Type c = CheckTypeFetch) (r_CheckResults r)"

fun add_unique :: "string list \<Rightarrow> string list \<Rightarrow> string list \<Rightarrow> string list" where
  "add_unique seen result [] = result"
| "add_unique seen result (s # ss) =
     (if ToLower s \<in> set seen then add_unique seen result ss
      else add_unique (ToLower s # seen) (result @ [s]) ss)"

definition MergeCommaSeparated :: "string \<Rightarrow> string \<Rightarrow> string" where
  "MergeCommaSeparated existing incoming =
     (if existing = [] then incoming else if incoming = [] then existing
      else Join (add_unique [] [] (Split existing (CHR '','') @ Split incoming (CHR '',''))) '','')"

section \<open>Aggregation over several attestations\<close>

text \<open>\<open>ctxErr k\<close> is what \<open>ctx.Err()\<close> returns before the \<open>k\<close>-th item is verified.\<close>

fun first_pass_loop ::
  "(nat \<Rightarrow> goerr option) \<Rightarrow> nat \<Rightarrow> ('a \<Rightarrow> goerr + CheckResult) \<Rightarrow> string list \<Rightarrow> string list
    \<Rightarrow> 'a list \<Rightarrow> goerr + (CheckResult + (string list \<times> string list))" where
  "first_pass_loop ctxErr k verifyOne failReasons parseErrors [] = Inr (Inr (failReasons, parseErrors))"
| "first_pass_loop ctxErr k verifyOne failReasons parseErrors (item # items) =
     (case ctxErr k of
        Some e \<Rightarrow> Inl (Errorf_w ''verification cancelled'' e)
      | None \<Rightarrow>
          (case verifyOne item of
             Inl e \<Rightarrow> first_pass_loop ctxErr (Suc k) verifyOne failReasons (parseErrors @ [err_msg e]) items
           | Inr r \<Rightarrow>
               if cr_Passed r then Inr (Inl r)
               else first_pass_loop ctxErr (Suc k) verifyOne (failReasons @ [cr_Detail r]) parseErrors items))"

definition VerifyMultipleFirstPassOf ::
  "(nat \<Rightarrow> goerr option) \<Rightarrow> CheckType \<Rightarrow> string \<Rightarrow> 'a list \<Rightarrow> ('a \<Rightarrow> goerr + CheckResult)
    \<Rightarrow> goerr + CheckResult" where
  "VerifyMultipleFirstPassOf ctxErr checkType label items verifyOne =
     (case first_pass_loop ctxErr 0 verifyOne [] [] items of
        Inl e \<Rightarrow> Inl e
      | Inr (Inl r) \<Rightarrow> Inr r
      | Inr (Inr (failReasons, parseErrors)) \<Rightarrow>
          if failReasons \<noteq> [] then
            Inr (FailResult checkType
                   (Join failReasons ''; ''
                    @ (if parseErrors \<noteq> [] then '' (also failed to parse: '' @ Join parseErrors ''; '' @ '')''
                       else [])) None)
          else if parseErrors \<noteq> [] then
            Inr (FailResult checkType
                   (''no valid '' @ label @ '' attestation: '' @ Join parseErrors ''; '') None)
          else Inr (FailResult checkType (''no valid '' @ label @ '' attestation found'') None))"

record mergeAggregate =
  ma_failDetails :: "string list"
  ma_softDetails :: "string list"
  ma_verifyErrors :: "string list"
  ma_mergedMeta :: "metadata option"

definition mergeAggregate_add ::
  "(metadata \<Rightarrow> metadata \<Rightarrow> metadata) \<Rightarrow> mergeAggregate \<Rightarrow> goerr + CheckResult \<Rightarrow> mergeAggregate" where
  "mergeAggregate_add mergeMeta a res =
     (case res of
        Inl e \<Rightarrow> a\<lparr>ma_verifyErrors := ma_verifyErrors a @ [err_msg e]\<rparr>
      | Inr r \<Rightarrow>
          if cr_Passed r then
            (case cr_Metadata r of
               None \<Rightarrow> a
             | Some m \<Rightarrow>
                 a\<lparr>ma_mergedMeta :=
                     Some (mergeMeta (case ma_mergedMeta a of None \<Rightarrow> Map.empty | Some d \<Rightarrow> d) m)\<rparr>)
          else if cr_Status r = StatusFail then a\<lparr>ma_failDetails := ma_failDetails a @ [cr_Detail r]\<rparr>
          else a\<lparr>ma_softDetails := ma_softDetails a @ [cr_Detail r]\<rparr>)"

fun merge_loop ::
  "(nat \<Rightarrow> goerr option) \<Rightarrow> nat \<Rightarrow> ('a \<Rightarrow> goerr + CheckResult) \<Rightarrow> (metadata \<Rightarrow> metadata \<Rightarrow> metadata)
    \<Rightarrow> mergeAggregate \<Rightarrow> 'a list \<Rightarrow> goerr + mergeAggregate" where
  "merge_loop ctxErr k verifyOne mergeMeta agg [] = Inr agg"
| "merge_loop ctxErr k verifyOne mergeMeta agg (att # atts) =
     (case ctxErr k of
        Some e \<Rightarrow> Inl (Errorf_w ''verification cancelled'' e)
      | None \<Rightarrow> merge_loop ctxErr (Suc k) verifyOne mergeMeta
                  (mergeAggregate_add mergeMeta agg (verifyOne att)) atts)"

definition invalidDocumentsDetail :: "string \<Rightarrow> nat \<Rightarrow> nat \<Rightarrow> string list \<Rightarrow> string" where
  "invalidDocumentsDetail label invalid n_docs errs =
     (if invalid = n_docs then
        ''all '' @ label @ '' documents failed verification: '' @ Join errs ''; ''
      else Itoa (int invalid) @ '' of '' @ Itoa (int n_docs) @ '' '' @ label
             @ '' documents failed verification: '' @ Join errs ''; '')"

definition VerifyMultipleWithMerge ::
  "(nat \<Rightarrow> goerr option) \<Rightarrow> CheckType \<Rightarrow> string \<Rightarrow> string \<Rightarrow> 'a list \<Rightarrow> ('a \<Rightarrow> goerr + CheckResult)
    \<Rightarrow> (metadata \<Rightarrow> metadata \<Rightarrow> metadata) \<Rightarrow> goerr + CheckResult" where
  "VerifyMultipleWithMerge ctxErr checkType label passDetail atts verifyOne mergeMeta =
     (if atts = [] then Inr (FailResult checkType (''no valid '' @ label @ '' attestation found'') None)
      else
        (case merge_loop ctxErr 0 verifyOne mergeMeta
                \<lparr>ma_failDetails = [], ma_softDetails = [], ma_verifyErrors = [], ma_mergedMeta = None\<rparr> atts of
           Inl e \<Rightarrow> Inl e
         | Inr agg \<Rightarrow>
             let failDetails =
                   (if ma_verifyErrors agg \<noteq> [] then
                      ma_failDetails agg @ [invalidDocumentsDetail label (length (ma_verifyErrors agg))
                                              (length atts) (ma_verifyErrors agg)]
                    else ma_failDetails agg)
             in if failDetails \<noteq> [] then Inr (FailResult checkType (Join failDetails ''; '') None)
                else if ma_softDetails agg \<noteq> [] then
                  Inr (SoftFailResult checkType (Join (ma_softDetails agg) ''; '') None)
                else Inr ((PassResult checkType passDetail)\<lparr>cr_Metadata := ma_mergedMeta agg\<rparr>)))"

section \<open>Requests\<close>

record VerifyRequest =
  rq_ImageRef :: string
  rq_Digest :: string
  rq_IndexDigest :: string
  rq_Namespace :: string
  rq_ServiceAccount :: string

section \<open>Digests: parsing and extraction\<close>

definition valid_digest :: "string \<Rightarrow> bool" where
  "valid_digest d = (fst (ParseDigest d) \<noteq> [])"

lemma expectedHexLen_SomeD:
  "expectedHexLen a = Some n \<Longrightarrow> n \<in> {64, 96, 128} \<and> a \<noteq> [] \<and> CHR '':'' \<notin> set a \<and> CHR ''@'' \<notin> set a"
  by (auto simp: expectedHexLen_def split: if_splits)

lemma isHex_no_char: "isHex h \<Longrightarrow> \<not> is_hex_char c \<Longrightarrow> c \<notin> set h"
  by (auto simp: isHex_def list_all_iff)

lemma ParseDigest_iff:
  assumes "a \<noteq> []"
  shows "ParseDigest d = (a, h) \<longleftrightarrow>
           d = a @ CHR '':'' # h \<and> expectedHexLen a = Some (length h) \<and> isHex h"
proof
  assume "ParseDigest d = (a, h)"
  with assms show "d = a @ CHR '':'' # h \<and> expectedHexLen a = Some (length h) \<and> isHex h"
    by (auto simp: ParseDigest_def Cut_Some_iff split: option.splits prod.splits if_splits)
next
  assume d: "d = a @ CHR '':'' # h \<and> expectedHexLen a = Some (length h) \<and> isHex h"
  from expectedHexLen_SomeD [of a "length h"] d
  have *: "CHR '':'' \<notin> set a" "h \<noteq> []" by auto
  then have "Cut d (CHR '':'') = Some (a, h)" using d by (simp add: Cut_Some_iff)
  with assms d * show "ParseDigest d = (a, h)" by (simp add: ParseDigest_def)
qed

lemma ParseDigest_empty: "fst (ParseDigest d) = [] \<Longrightarrow> ParseDigest d = ([], [])"
  by (auto simp: ParseDigest_def split: option.splits prod.splits if_splits)

lemma valid_digestE:
  assumes "valid_digest d"
  obtains a h where "ParseDigest d = (a, h)" "d = a @ CHR '':'' # h"
    "expectedHexLen a = Some (length h)" "isHex h" "a \<noteq> []" "h \<noteq> []"
proof -
  obtain a h where p: "ParseDigest d = (a, h)" by fastforce
  with assms have "a \<noteq> []" by (simp add: valid_digest_def)
  with p have i: "d = a @ CHR '':'' # h" "expectedHexLen a = Some (length h)" "isHex h"
    by (simp_all add: ParseDigest_iff)
  with expectedHexLen_SomeD [OF i(2)] have "h \<noteq> []" by auto
  with p i \<open>a \<noteq> []\<close> that show thesis by blast
qed

lemma valid_digest_no_at: "valid_digest d \<Longrightarrow> CHR ''@'' \<notin> set d"
  by (erule valid_digestE)
    (auto dest!: expectedHexLen_SomeD isHex_no_char [where c = "CHR ''@''"] simp: is_hex_char_def)

lemma valid_digest_nonempty: "valid_digest d \<Longrightarrow> d \<noteq> []"
  by (auto elim: valid_digestE)

lemma ExtractDigest_bare: "valid_digest d \<Longrightarrow> ExtractDigest d = d"
  using valid_digest_no_at [of d]
  by (simp add: ExtractDigest_def valid_digest_def CutLast_None_iff [THEN iffD2])

lemma ExtractDigest_pinned: "valid_digest d \<Longrightarrow> ExtractDigest (ref @ CHR ''@'' # d) = d"
proof -
  assume v: "valid_digest d"
  then have "CutLast (ref @ CHR ''@'' # d) (CHR ''@'') = Some (ref, d)"
    by (simp add: CutLast_Some_iff valid_digest_no_at)
  with v show ?thesis by (simp add: ExtractDigest_def valid_digest_def)
qed

lemma ExtractDigest_sound:
  "ExtractDigest e = d \<Longrightarrow> d \<noteq> [] \<Longrightarrow> valid_digest d \<and> (e = d \<or> (\<exists>ref. e = ref @ CHR ''@'' # d))"
  by (auto simp: ExtractDigest_def valid_digest_def Let_def CutLast_Some_iff
      split: option.splits if_splits)

text \<open>Extraction of a digest is exact.  The result is non-empty exactly when the entry is
  a well-formed digest (known algorithm, lower-case hex of that algorithm's length) or ends in
  one after an at sign, and it is then that digest; otherwise the result is empty.\<close>

lemma ExtractDigest_exact:
  "ExtractDigest e = d \<longleftrightarrow>
     (if d = [] then \<not> (valid_digest e \<or> (\<exists>ref d'. e = ref @ CHR ''@'' # d' \<and> valid_digest d'))
      else valid_digest d \<and> (e = d \<or> (\<exists>ref. e = ref @ CHR ''@'' # d)))"
proof (cases "ExtractDigest e = []")
  case True
  then show ?thesis
    using ExtractDigest_bare ExtractDigest_pinned valid_digest_nonempty by (metis (no_types, lifting))
next
  case False
  with ExtractDigest_sound [of e] ExtractDigest_bare ExtractDigest_pinned show ?thesis
    by (metis (no_types, lifting))
qed

lemma MatchDigestInMap_iff:
  "MatchDigestInMap d m \<longleftrightarrow> (\<exists>a h. a \<noteq> [] \<and> ParseDigest d = (a, h) \<and> m a = Some h)"
proof (cases "valid_digest d")
  case True
  then show ?thesis
    by (rule valid_digestE) (auto simp: MatchDigestInMap_def split: option.splits)
next
  case False
  then have "ParseDigest d = ([], [])" using ParseDigest_empty by (simp add: valid_digest_def)
  then show ?thesis by (simp add: MatchDigestInMap_def)
qed

section \<open>Severities\<close>

text \<open>A finding that was only built by \<^const>\<open>NewFinding\<close>, \<^const>\<open>AddScore\<close> and
  \<^const>\<open>AddSeverity\<close> has a known rank and a score in range, which its rank covers.\<close>

inductive rated :: "Finding \<Rightarrow> bool" where
  rated_new: "rated (NewFinding i)"
| rated_score: "rated f \<Longrightarrow> rated (fst (AddScore f s))"
| rated_severity: "rated f \<Longrightarrow> rated (fst (AddSeverity f v))"

definition wf_finding :: "Finding \<Rightarrow> bool" where
  "wf_finding f =
     (f_Rank f \<in> {-1..4} \<and>
      (case f_Score f of None \<Rightarrow> True
       | Some s \<Rightarrow> snd (SeverityRankFromCVSS s) \<and> fst (SeverityRankFromCVSS s) \<le> f_Rank f))"

lemma SeverityRankFromCVSS_Fin:
  "SeverityRankFromCVSS (Fin x) =
     (if x < 0 \<or> 10 < x then (-1, False) else if 9 \<le> x then (4, True) else if 7 \<le> x then (3, True)
      else if 4 \<le> x then (2, True) else if cvssLowMinimum \<le> x then (1, True) else (0, True))"
  by (auto simp: SeverityRankFromCVSS_def flt_geq_def)

lemma SeverityRankFromCVSS_valid:
  "snd (SeverityRankFromCVSS s) \<Longrightarrow> \<exists>x. s = Fin x \<and> 0 \<le> x \<and> x \<le> 10"
  by (cases s) (auto simp: SeverityRankFromCVSS_def split: if_splits)

lemma SeverityRankFromCVSS_range:
  "fst (SeverityRankFromCVSS s) \<in> {-1..4}" "snd (SeverityRankFromCVSS s) \<Longrightarrow> 0 \<le> fst (SeverityRankFromCVSS s)"
  by (auto simp: SeverityRankFromCVSS_def)

lemma SeverityRankOf_range:
  "fst (SeverityRankOf v) \<in> {-1..4}" "snd (SeverityRankOf v) \<Longrightarrow> 0 \<le> fst (SeverityRankOf v)"
  by (auto simp: SeverityRankOf_def Let_def split: if_splits)

lemma rank_mono: "x \<le> y \<Longrightarrow> 0 \<le> x \<Longrightarrow> y \<le> 10 \<Longrightarrow>
    fst (SeverityRankFromCVSS (Fin x)) \<le> fst (SeverityRankFromCVSS (Fin y))"
  by (auto simp: SeverityRankFromCVSS_Fin)

lemma wf_AddScore: "wf_finding f \<Longrightarrow> wf_finding (fst (AddScore f s))"
  using SeverityRankFromCVSS_range [of s]
  by (auto simp: wf_finding_def AddScore_def Let_def split: option.splits prod.splits if_splits)

lemma wf_AddSeverity: "wf_finding f \<Longrightarrow> wf_finding (fst (AddSeverity f v))"
  using SeverityRankOf_range [of v]
  by (auto simp: wf_finding_def AddSeverity_def Let_def split: option.splits prod.splits)

lemma rated_wf: "rated f \<Longrightarrow> wf_finding f"
  by (induction rule: rated.induct)
    (simp_all add: wf_AddScore wf_AddSeverity, simp add: wf_finding_def NewFinding_def)

lemma low_minimum_bounds: "0 < cvssLowMinimum" "cvssLowMinimum < 4"
  by (simp_all add: cvssLowMinimum_def)

lemma minimum_Fin: "\<exists>m. SeverityMinimumCVSS r = Fin m \<and> 0 \<le> m \<and> m \<le> 9"
  using low_minimum_bounds by (auto simp: SeverityMinimumCVSS_def)

lemma rank_of_minimum:
  "0 \<le> r \<Longrightarrow> r \<le> 4 \<Longrightarrow> SeverityRankFromCVSS (SeverityMinimumCVSS r) = (r, True)"
  using low_minimum_bounds
  by (auto simp: SeverityMinimumCVSS_def SeverityRankFromCVSS_Fin)

lemma EffectiveScore_rank:
  assumes wf: "wf_finding f" and known: "f_Rank f \<noteq> -1"
  shows "SeverityRankFromCVSS (EffectiveScore f) = (f_Rank f, True)"
proof -
  have r: "0 \<le> f_Rank f" "f_Rank f \<le> 4" using wf known by (auto simp: wf_finding_def)
  obtain m where m: "SeverityMinimumCVSS (f_Rank f) = Fin m" "0 \<le> m" "m \<le> 9"
    using minimum_Fin by blast
  have rm: "SeverityRankFromCVSS (Fin m) = (f_Rank f, True)"
    using rank_of_minimum [OF r] m by simp
  show ?thesis
  proof (cases "f_Score f")
    case None
    then show ?thesis using rm m by (simp add: EffectiveScore_def)
  next
    case (Some s)
    with wf obtain x where x: "s = Fin x" "0 \<le> x" "x \<le> 10"
      "fst (SeverityRankFromCVSS (Fin x)) \<le> f_Rank f"
      using SeverityRankFromCVSS_valid by (auto simp: wf_finding_def)
    show ?thesis
    proof (cases "x < m")
      case True
      then show ?thesis using Some x m rm by (simp add: EffectiveScore_def flt_max_def)
    next
      case False
      with m x rank_mono [of m x] rm
      have "fst (SeverityRankFromCVSS (Fin x)) = f_Rank f" by auto
      moreover have "snd (SeverityRankFromCVSS (Fin x))"
        using x by (auto simp: SeverityRankFromCVSS_Fin)
      ultimately have "SeverityRankFromCVSS (Fin x) = (f_Rank f, True)"
        by (metis prod.collapse)
      then show ?thesis using Some x m False by (simp add: EffectiveScore_def flt_max_def)
    qed
  qed
qed

definition exceeds :: "SeverityThresholds \<Rightarrow> Finding \<Rightarrow> bool" where
  "exceeds t f \<longleftrightarrow>
     f_Rank f = -1
     \<or> (\<exists>m. th_MaxScore t = Some m \<and> flt_less m (EffectiveScore f))
     \<or> th_MinSeverity t \<noteq> [] \<and>
         (\<not> snd (SeverityRankOf (th_MinSeverity t)) \<or> fst (SeverityRankOf (th_MinSeverity t)) \<le> f_Rank f)"

lemma finding_violation_iff: "finding_violation t f = [] \<longleftrightarrow> \<not> exceeds t f"
  by (auto simp: finding_violation_def exceeds_def Let_def split: option.splits prod.splits)

lemma violation_loop_iff:
  "violation_loop t fs = [] \<longleftrightarrow> (\<forall>f\<in>set fs. f_ID f \<notin> set (th_IgnoreCVEs t) \<longrightarrow> \<not> exceeds t f)"
  by (induction fs) (auto simp: finding_violation_iff)

text \<open>Severity thresholds fail closed.  With a threshold configured, a set of findings is
  accepted exactly when every finding that is not on the ignore list has a known severity, does
  not exceed the maximum score and stays below the minimum severity; without a threshold every
  set is accepted.  The order of the findings does not matter.\<close>

lemma Violation_exact:
  "Violation t fs = [] \<longleftrightarrow>
     (if th_MaxScore t = None \<and> th_MinSeverity t = [] then True
      else \<not> (\<exists>f. f \<in> set fs \<and> f_ID f \<notin> set (th_IgnoreCVEs t) \<and> exceeds t f))"
  by (auto simp: Violation_def violation_loop_iff)

text \<open>A rated finding is never under-reported.  However its ratings were added and in
  whatever order, the score compared against the maximum lies in the CVSS band of its rank, so a
  numeric score cannot outweigh a more severe textual severity and the other way round.\<close>

lemma EffectiveScore_in_rank_band:
  assumes "rated f" and "f_Rank f \<noteq> SeverityRankUnknown"
  shows "SeverityRankFromCVSS (EffectiveScore f) = (f_Rank f, True)"
  using assms EffectiveScore_rank rated_wf by blast

lemma EffectiveScore_in_rank_band_witness:
  "let f = fst (AddSeverity (fst (AddScore (NewFinding ''CVE-1'') (Fin 5))) ''HIGH'')
   in SeverityRankFromCVSS (EffectiveScore f) = (3, True)"
proof -
  have r: "rated (fst (AddSeverity (fst (AddScore (NewFinding ''CVE-1'') (Fin 5))) ''HIGH''))"
    by (intro rated.intros)
  have "SeverityRankOf ''HIGH'' = (3, True)" by code_simp
  then have "f_Rank (fst (AddSeverity (fst (AddScore (NewFinding ''CVE-1'') (Fin 5))) ''HIGH'')) = 3"
    by (simp add: AddSeverity_def AddScore_def NewFinding_def SeverityRankFromCVSS_Fin)
  with EffectiveScore_in_rank_band [OF r] show ?thesis by simp
qed

section \<open>Freshness\<close>

lemma skew_bounds: "int64_min < - ClockSkewTolerance" "ClockSkewTolerance = 60000000000"
  by (simp_all add: ClockSkewTolerance_def int64_min_def)

lemma reasonable_bounds: "maxReasonableAge < int64_max" "maxReasonableAge = 6307200000000000000"
  by (simp_all add: maxReasonableAge_def int64_max_def)

text \<open>Freshness is decided on the true age.  Although durations saturate at 64 bits, a
  timestamp is accepted exactly when it lies at most the clock skew tolerance in the future, at
  most 200 years in the past and, when a maximum age is given, is not older than it (a timestamp
  in the tolerated future has age zero).\<close>

lemma VerifyFreshness_exact:
  "VerifyFreshness now ts maxAge label eF eO eS = None \<longleftrightarrow>
     now - ts \<ge> - ClockSkewTolerance \<and> now - ts \<le> maxReasonableAge \<and>
     (case maxAge of None \<Rightarrow> True | Some m \<Rightarrow> max 0 (now - ts) \<le> m)"
proof -
  have f: "time_Sub now ts < - ClockSkewTolerance \<longleftrightarrow> now - ts < - ClockSkewTolerance"
    using skew_bounds by (intro time_Sub_less_iff) (simp_all add: int64_max_def)
  have o: "time_Sub now ts \<le> maxReasonableAge \<longleftrightarrow> now - ts \<le> maxReasonableAge"
    using reasonable_bounds by (intro time_Sub_le_iff) (simp_all add: int64_min_def)
  show ?thesis
  proof (cases "now - ts < - ClockSkewTolerance \<or> now - ts > maxReasonableAge")
    case True
    with f o reasonable_bounds show ?thesis
      by (auto simp: VerifyFreshness_def Let_def not_le)
  next
    case False
    then have "time_Sub now ts = now - ts"
      using skew_bounds reasonable_bounds by (intro time_Sub_exact) (auto simp: int64_min_def)
    with False reasonable_bounds show ?thesis
      by (auto simp: VerifyFreshness_def Let_def max_def split: option.splits)
  qed
qed

section \<open>Aggregation\<close>

lemma first_pass_loop_pass:
  "first_pass_loop ctxErr k v fr pe items = Inr (Inl r) \<longleftrightarrow>
     (\<exists>i < length items. (\<forall>j \<le> i. ctxErr (k + j) = None) \<and> v (items ! i) = Inr r \<and> cr_Passed r
        \<and> (\<forall>j < i. \<forall>r'. v (items ! j) = Inr r' \<longrightarrow> \<not> cr_Passed r'))"
proof (induction items arbitrary: k fr pe)
  case (Cons a items)
  have all_Suc: "(\<forall>j \<le> Suc i. ctxErr (k + j) = None) \<longleftrightarrow>
      ctxErr k = None \<and> (\<forall>j \<le> i. ctxErr (Suc k + j) = None)" for i
    by (metis Suc_le_mono add_0_right add_Suc_right add_Suc_shift le0 not0_implies_Suc)
  have less_Suc: "(\<forall>j < Suc i. \<forall>r'. v ((a # items) ! j) = Inr r' \<longrightarrow> \<not> cr_Passed r') \<longleftrightarrow>
      (\<forall>r'. v a = Inr r' \<longrightarrow> \<not> cr_Passed r') \<and> (\<forall>j < i. \<forall>r'. v (items ! j) = Inr r' \<longrightarrow> \<not> cr_Passed r')" for i
    by (auto simp: less_Suc_eq_0_disj)
  show ?case
    unfolding Ex_less_Suc2 length_Cons all_Suc less_Suc
    by (auto simp: Cons.IH split: option.splits sum.splits)
qed simp

lemma first_pass_loop_passed:
  "first_pass_loop ctxErr k v fr pe items = Inr (Inl r) \<Longrightarrow> cr_Passed r"
  by (auto simp: first_pass_loop_pass)

text \<open>First-pass aggregation.  The aggregate passes exactly when some attestation verifies
  and passes before the context is cancelled, its result is that of the first such attestation,
  and attestations that fail or do not parse never turn the aggregate into a pass.\<close>

lemma VerifyMultipleFirstPassOf_pass:
  "(VerifyMultipleFirstPassOf ctxErr t label items v = Inr r \<and> cr_Passed r) \<longleftrightarrow>
     (\<exists>i < length items. \<not> (\<exists>j \<le> i. ctxErr j \<noteq> None) \<and> v (items ! i) = Inr r \<and> cr_Passed r
        \<and> \<not> (\<exists>j < i. \<exists>r'. v (items ! j) = Inr r' \<and> cr_Passed r'))"
proof -
  have "(VerifyMultipleFirstPassOf ctxErr t label items v = Inr r \<and> cr_Passed r) \<longleftrightarrow>
      first_pass_loop ctxErr 0 v [] [] items = Inr (Inl r)"
    by (auto simp: VerifyMultipleFirstPassOf_def result_simps
        dest: first_pass_loop_passed split: sum.splits prod.splits if_splits)
  then show ?thesis by (simp add: first_pass_loop_pass)
qed

definition agg_clean :: "mergeAggregate \<Rightarrow> bool" where
  "agg_clean a = (ma_failDetails a = [] \<and> ma_softDetails a = [] \<and> ma_verifyErrors a = [])"

lemma agg_clean_add:
  "agg_clean (mergeAggregate_add mm a res) \<longleftrightarrow>
     agg_clean a \<and> (case res of Inl e \<Rightarrow> False | Inr r \<Rightarrow> cr_Passed r)"
  by (auto simp: agg_clean_def mergeAggregate_add_def split: sum.splits option.splits)

lemma merge_loop_clean:
  "(\<exists>agg. merge_loop ctxErr k v mm a atts = Inr agg \<and> agg_clean agg) \<longleftrightarrow>
     agg_clean a \<and> (\<forall>i < length atts. ctxErr (k + i) = None) \<and>
     (\<forall>att\<in>set atts. \<exists>r. v att = Inr r \<and> cr_Passed r)"
proof (induction atts arbitrary: k a)
  case (Cons x xs)
  show ?case
  proof (cases "ctxErr k")
    case None
    have *: "(\<forall>i < Suc (length xs). ctxErr (k + i) = None) \<longleftrightarrow> (\<forall>i < length xs. ctxErr (Suc k + i) = None)"
      using None by (auto simp: less_Suc_eq_0_disj)
    show ?thesis using None
      unfolding length_Cons *
      by (auto simp: Cons.IH agg_clean_add split: sum.splits)
  qed (auto intro: exI [of _ 0])
qed simp

text \<open>All-must-pass aggregation.  The aggregate passes exactly when there is at least one
  attestation, the context stays alive and every attestation verifies and passes: an unparsable,
  failing or inconclusive document can never be masked by another one.\<close>

lemma VerifyMultipleWithMerge_pass:
  "(\<exists>r. VerifyMultipleWithMerge ctxErr t label pd atts v mm = Inr r \<and> cr_Passed r) \<longleftrightarrow>
     (atts \<noteq> [] \<and> \<not> (\<exists>i < length atts. ctxErr i \<noteq> None) \<and>
      \<not> (\<exists>att. att \<in> set atts \<and> \<not> (\<exists>r. v att = Inr r \<and> cr_Passed r)))"
proof -
  let ?a0 = "\<lparr>ma_failDetails = [], ma_softDetails = [], ma_verifyErrors = [], ma_mergedMeta = None\<rparr>"
  have "(\<exists>r. VerifyMultipleWithMerge ctxErr t label pd atts v mm = Inr r \<and> cr_Passed r) \<longleftrightarrow>
      atts \<noteq> [] \<and> (\<exists>agg. merge_loop ctxErr 0 v mm ?a0 atts = Inr agg \<and> agg_clean agg)"
    by (auto simp: VerifyMultipleWithMerge_def result_simps agg_clean_def Let_def split: sum.splits if_splits)
  also have "\<dots> \<longleftrightarrow> atts \<noteq> [] \<and> (\<forall>i < length atts. ctxErr i = None) \<and>
     (\<forall>att\<in>set atts. \<exists>r. v att = Inr r \<and> cr_Passed r)"
    by (simp only: merge_loop_clean) (simp add: agg_clean_def)
  finally show ?thesis by (simp add: Ball_def)
qed

subsection \<open>Merging of comma separated lists\<close>

lemma add_unique_spec:
  assumes "set seen = set (map ToLower result)" "distinct (map ToLower result)"
  shows "distinct (map ToLower (add_unique seen result ss)) \<and>
         ToLower ` set (add_unique seen result ss) = ToLower ` (set result \<union> set ss) \<and>
         set (add_unique seen result ss) \<subseteq> set result \<union> set ss"
  using assms
proof (induction ss arbitrary: seen result)
  case (Cons s ss)
  show ?case
  proof (cases "ToLower s \<in> set seen")
    case True
    with Cons.IH [OF Cons.prems] Cons.prems(1) show ?thesis
      by (auto simp: insert_absorb)
  next
    case False
    with Cons.IH [of "ToLower s # seen" "result @ [s]"] Cons.prems show ?thesis
      by auto
  qed
qed auto

text \<open>Two non-empty lists merge to the list of their entries without case-insensitive
  duplicates; nothing is lost and nothing is invented.\<close>

lemma MergeCommaSeparated_spec:
  assumes "existing \<noteq> []" "incoming \<noteq> []"
  shows "\<exists>xs. MergeCommaSeparated existing incoming = Join xs '','' \<and> distinct (map ToLower xs)
      \<and> ToLower ` set xs = ToLower ` (set (Split existing (CHR '','')) \<union> set (Split incoming (CHR '','')))
      \<and> set xs \<subseteq> set (Split existing (CHR '','')) \<union> set (Split incoming (CHR '',''))"
  using assms add_unique_spec [of "[]" "[]" "Split existing (CHR '','') @ Split incoming (CHR '','')"]
  unfolding MergeCommaSeparated_def
  by (intro exI [of _ "add_unique [] [] (Split existing (CHR '','') @ Split incoming (CHR '',''))"]) auto

text \<open>When one side is empty the other side is returned as it is, duplicates included.\<close>

lemma MergeCommaSeparated_keeps_duplicates:
  "MergeCommaSeparated [] ''a,A'' = ''a,A''"
  by (simp add: MergeCommaSeparated_def)

end
