(* ===== verification/Result_Cache.thy ===== *)
theory Result_Cache
  imports Expiry_Heap Result_Types "HOL-Library.Product_Lexorder"
begin

text \<open>
  The verification result cache, \<open>internal/cache/cache.go\<close>: entries with a time to live, an expiry
  heap for eviction, an index of the keys of a digest and invalidation epochs per digest shard.

  The methods are state-passing functions on the record \<open>Cache\<close>; each runs under the cache's
  mutex, so it is one step.  \<open>Get\<close> gives up the read lock before it takes the write lock: what
  other goroutines do in between is its argument \<open>between\<close>.  Readings of the clock, the random
  number generator and the iteration order of a map are arguments.  The Prometheus gauge is the
  last value it was set to.
\<close>

unbundle bit_operations_syntax

section \<open>State\<close>

record cache_entry =
  e_result :: Result
  e_expiresAt :: time

record Cache =
  c_entries :: "cache_key \<rightharpoonup> cache_entry"
  c_ttl :: duration
  c_maxSize :: int
  c_gauge :: "nat option"
  c_evictions :: "string list"
  c_expHeap :: "nat list"
  c_mem :: hmem
  c_next :: nat
  c_heapIndex :: "cache_key \<rightharpoonup> nat"
  c_digestIndex :: "string \<rightharpoonup> cache_key set"
  c_epochs :: "nat \<Rightarrow> 64 word"
  c_stopped :: bool

abbreviation cache_heap :: "Cache \<Rightarrow> heap" where
  "cache_heap c \<equiv> (c_expHeap c, c_mem c)"

definition cache_Len :: "Cache \<Rightarrow> nat" where
  "cache_Len c = card (dom (c_entries c))"

definition DefaultMaxSize :: int where
  "DefaultMaxSize = 10000"

definition NewWithGauge :: "duration \<Rightarrow> int \<Rightarrow> nat option \<Rightarrow> Cache" where
  "NewWithGauge ttl maxSize gauge =
     \<lparr>c_entries = Map.empty, c_ttl = ttl,
      c_maxSize = (if maxSize \<le> 0 then DefaultMaxSize else maxSize),
      c_gauge = (case gauge of None \<Rightarrow> None | Some _ \<Rightarrow> Some 0), c_evictions = [],
      c_expHeap = [], c_mem = (\<lambda>_. \<lparr>he_cacheKey = ([], []), he_expiresAt = 0, he_index = 0\<rparr>),
      c_next = 0, c_heapIndex = Map.empty, c_digestIndex = Map.empty, c_epochs = (\<lambda>_. 0),
      c_stopped = False\<rparr>"

section \<open>Helpers\<close>

definition fnv32a :: "string \<Rightarrow> 32 word" where
  "fnv32a s = foldl (\<lambda>h b. (h XOR of_char b) * 16777619) 2166136261 s"

definition shardOf :: "string \<Rightarrow> nat" where
  "shardOf digest = unat (fnv32a digest mod 256)"

definition cache_Epoch :: "Cache \<Rightarrow> string \<Rightarrow> 64 word" where
  "cache_Epoch c digest = c_epochs c (shardOf digest)"

definition namespaceKeyMatches :: "string \<Rightarrow> string \<Rightarrow> bool" where
  "namespaceKeyMatches keyNamespace namespace =
     (case CutPrefix keyNamespace namespace of
        None \<Rightarrow> False
      | Some rest \<Rightarrow> rest = [] \<or> rest ! 0 = CHR 0x00)"

text \<open>\<open>rnd n\<close> is what \<open>rand.Int64N(n)\<close> returns.\<close>

definition jitter :: "(int \<Rightarrow> int) \<Rightarrow> duration \<Rightarrow> duration" where
  "jitter rnd ttl = (let maxJitter = ttl div 10 in if maxJitter \<le> 0 then 0 else rnd maxJitter)"

definition evictionInterval :: "duration \<Rightarrow> duration" where
  "evictionInterval ttl = min (max (ttl div 10) (10 * seconds)) (5 * minutes)"

definition updateGaugeLocked :: "Cache \<Rightarrow> Cache" where
  "updateGaugeLocked c =
     (if c_gauge c \<noteq> None \<and> \<not> c_stopped c then c\<lparr>c_gauge := Some (cache_Len c)\<rparr> else c)"

definition recordEviction :: "string \<Rightarrow> Cache \<Rightarrow> Cache" where
  "recordEviction reason c = c\<lparr>c_evictions := c_evictions c @ [reason]\<rparr>"

definition indexLocked :: "cache_key \<Rightarrow> Cache \<Rightarrow> Cache" where
  "indexLocked k c =
     c\<lparr>c_digestIndex := (c_digestIndex c)
         (fst k \<mapsto> insert k (case c_digestIndex c (fst k) of None \<Rightarrow> {} | Some keys \<Rightarrow> keys))\<rparr>"

section \<open>Removal and eviction\<close>

text \<open>\<open>removeLocked\<close>, in its three steps: the entry, the heap (unless already popped) with the
  heap index, and the digest index.\<close>

definition removeLocked :: "cache_key \<Rightarrow> Cache \<Rightarrow> Cache" where
  "removeLocked k c =
     (let c1 = c\<lparr>c_entries := (c_entries c)(k := None)\<rparr>;
          c2 = (case c_heapIndex c1 k of
                  None \<Rightarrow> c1
                | Some p \<Rightarrow>
                    let c' = (if he_index (c_mem c1 p) \<ge> 0 then
                                (let h = snd (heap_Remove (cache_heap c1) (nat (he_index (c_mem c1 p))))
                                 in c1\<lparr>c_expHeap := fst h, c_mem := snd h\<rparr>)
                              else c1)
                    in c'\<lparr>c_heapIndex := (c_heapIndex c')(k := None)\<rparr>)
      in case c_digestIndex c2 (fst k) of
           None \<Rightarrow> c2
         | Some keys \<Rightarrow>
             c2\<lparr>c_digestIndex := (c_digestIndex c2)
                  (fst k := (if keys - {k} = {} then None else Some (keys - {k})))\<rparr>)"

text \<open>Pop of the root of the heap; the second component is the key of the popped entry.\<close>

definition pop_root :: "Cache \<Rightarrow> Cache \<times> cache_key" where
  "pop_root c =
     (let (p, h) = heap_Pop (cache_heap c)
      in (c\<lparr>c_expHeap := fst h, c_mem := snd h\<rparr>, he_cacheKey (snd h p)))"

definition evictSoonestExpiringLocked :: "Cache \<Rightarrow> Cache" where
  "evictSoonestExpiringLocked c =
     (if c_expHeap c = [] then c
      else let (c1, k) = pop_root c in recordEviction ''capacity'' (removeLocked k c1))"

lemma length_Swap [simp]: "length (fst (h_Swap h i j)) = length (fst h)"
  by (simp add: fst_Swap)

lemma length_heap_up [simp]: "length (fst (heap_up h j)) = length (fst h)"
  by (induction h j rule: heap_up.induct) (subst heap_up.simps, simp add: Let_def)

lemma length_heap_down_loop [simp]: "length (fst (fst (heap_down_loop h i n))) = length (fst h)"
  by (induction h i n rule: heap_down_loop.induct) (subst heap_down_loop.simps, simp add: Let_def)

lemma length_heap_down [simp]: "length (fst (fst (heap_down h i n))) = length (fst h)"
  using length_heap_down_loop [of h i n] by (cases "heap_down_loop h i n") (simp add: heap_down_def)

lemma length_h_Pop [simp]: "length (fst (snd (h_Pop h))) = length (fst h) - 1"
  by (cases h) (simp add: h_Pop_def)

lemma length_heap_Pop [simp]: "length (fst (snd (heap_Pop h))) = length (fst h) - 1"
  by (simp add: heap_Pop_def Let_def)

lemma length_heap_Remove [simp]: "length (fst (snd (heap_Remove h i))) = length (fst h) - 1"
proof -
  obtain g b where d: "heap_down (h_Swap h i (h_Len h - 1)) i (h_Len h - 1) = (g, b)" by fastforce
  then have "length (fst g) = length (fst h)"
    using length_heap_down [of "h_Swap h i (h_Len h - 1)" i "h_Len h - 1"] unfolding d by simp
  with d show ?thesis by (simp add: heap_Remove_def Let_def)
qed

lemma length_removeLocked: "length (c_expHeap (removeLocked k c)) \<le> length (c_expHeap c)"
  by (auto simp: removeLocked_def Let_def split: option.splits)

lemma length_pop_root: "length (c_expHeap (fst (pop_root c))) = length (c_expHeap c) - 1"
  using length_heap_Pop [of "cache_heap c"] by (cases "heap_Pop (cache_heap c)") (simp add: pop_root_def)

function evictExpiredLocked :: "time \<Rightarrow> Cache \<Rightarrow> Cache" where
  "evictExpiredLocked now c =
     (if c_expHeap c \<noteq> [] \<and> now > he_expiresAt (c_mem c (c_expHeap c ! 0)) then
        (let (c1, k) = pop_root c
         in evictExpiredLocked now (recordEviction ''expired'' (removeLocked k c1)))
      else c)"
  by pat_completeness auto
termination
proof (relation "measure (\<lambda>(now, c). length (c_expHeap c))", simp, clarsimp)
  fix c c1 a b
  assume "(c1, a, b) = pop_root c" "c_expHeap c \<noteq> []"
  then have "length (c_expHeap c1) < length (c_expHeap c)"
    using length_pop_root [of c] by (cases "c_expHeap c") (auto dest: sym)
  then show "length (c_expHeap (recordEviction ''expired'' (removeLocked (a, b) c1))) < length (c_expHeap c)"
    using length_removeLocked [of "(a, b)" c1] by (simp add: recordEviction_def)
qed

declare evictExpiredLocked.simps [simp del]

text \<open>One tick of the background eviction.\<close>

definition backgroundEvict :: "time \<Rightarrow> Cache \<Rightarrow> Cache" where
  "backgroundEvict now c = updateGaugeLocked (evictExpiredLocked now c)"

section \<open>The methods\<close>

text \<open>\<open>nowE\<close> is the time the eviction reads, \<open>now\<close> the time the expiry is computed from.\<close>

definition setLocked ::
  "string \<Rightarrow> string \<Rightarrow> Result \<Rightarrow> duration \<Rightarrow> (int \<Rightarrow> int) \<Rightarrow> time \<Rightarrow> time \<Rightarrow> Cache \<Rightarrow> Cache" where
  "setLocked digest namespace result ttl rnd nowE now c =
     (let k = (digest, namespace);
          c1 = (if c_entries c k = None \<and> int (cache_Len c) \<ge> c_maxSize c then
                  (let c' = evictExpiredLocked nowE c
                   in if int (cache_Len c') \<ge> c_maxSize c' then evictSoonestExpiringLocked c' else c')
                else c);
          expiresAt = now + (ttl + jitter rnd ttl);
          c2 = indexLocked k c1;
          c3 = c2\<lparr>c_entries := (c_entries c2)(k \<mapsto> \<lparr>e_result = result, e_expiresAt = expiresAt\<rparr>)\<rparr>;
          c4 = (case c_heapIndex c3 k of
                  Some p \<Rightarrow>
                    (let h = heap_Fix (with_expiry (cache_heap c3) p expiresAt) (nat (he_index (c_mem c3 p)))
                     in c3\<lparr>c_expHeap := fst h, c_mem := snd h\<rparr>)
                | None \<Rightarrow>
                    (let p = c_next c3;
                         h = heap_Push (c_expHeap c3,
                               (c_mem c3)(p := \<lparr>he_cacheKey = k, he_expiresAt = expiresAt, he_index = 0\<rparr>)) p
                     in c3\<lparr>c_expHeap := fst h, c_mem := snd h, c_next := Suc p,
                           c_heapIndex := (c_heapIndex c3)(k \<mapsto> p)\<rparr>))
      in updateGaugeLocked c4)"

definition SetWithTTLAtEpoch ::
  "string \<Rightarrow> string \<Rightarrow> Result \<Rightarrow> duration \<Rightarrow> 64 word \<Rightarrow> (int \<Rightarrow> int) \<Rightarrow> time \<Rightarrow> time \<Rightarrow> Cache \<Rightarrow> Cache \<times> bool" where
  "SetWithTTLAtEpoch digest namespace result ttl epoch rnd nowE now c =
     (if ttl \<le> 0 then (c, False)
      else if c_epochs c (shardOf digest) \<noteq> epoch then (c, False)
      else (setLocked digest namespace result ttl rnd nowE now c, True))"

definition cache_Get ::
  "string \<Rightarrow> string \<Rightarrow> time \<Rightarrow> (Cache \<Rightarrow> Cache) \<Rightarrow> time \<Rightarrow> Cache \<Rightarrow> Cache \<times> Result option" where
  "cache_Get digest namespace now between now2 c =
     (let k = (digest, namespace)
      in case c_entries c k of
           None \<Rightarrow> (c, None)
         | Some e \<Rightarrow>
             if \<not> now > e_expiresAt e then (c, Some (e_result e))
             else
               let c' = between c
               in (case c_entries c' k of
                     None \<Rightarrow> (c', None)
                   | Some e' \<Rightarrow>
                       if \<not> now2 > e_expiresAt e' then (c', Some (e_result e'))
                       else (updateGaugeLocked (recordEviction ''expired'' (removeLocked k c')), None)))"

text \<open>The loop of \<open>DeleteAll\<close>; \<open>order\<close> is the order in which the keys of the digest are visited.\<close>

fun delete_loop :: "string \<Rightarrow> cache_key list \<Rightarrow> Cache \<Rightarrow> nat \<Rightarrow> Cache \<times> nat" where
  "delete_loop namespace [] c removed = (c, removed)"
| "delete_loop namespace (k # ks) c removed =
     (if \<not> namespaceKeyMatches (snd k) namespace then delete_loop namespace ks c removed
      else delete_loop namespace ks (removeLocked k c) (Suc removed))"

definition DeleteAll :: "string \<Rightarrow> string \<Rightarrow> cache_key list \<Rightarrow> Cache \<Rightarrow> Cache \<times> nat" where
  "DeleteAll digest namespace order c =
     (let c1 = c\<lparr>c_epochs := (c_epochs c)(shardOf digest := c_epochs c (shardOf digest) + 1)\<rparr>;
          (c2, removed) = delete_loop namespace order c1 0
      in (if removed > 0 then updateGaugeLocked c2 else c2, removed))"

definition cache_Stop :: "Cache \<Rightarrow> Cache" where
  "cache_Stop c = c\<lparr>c_stopped := True\<rparr>"

definition ReportSize :: "Cache \<Rightarrow> Cache" where
  "ReportSize c = updateGaugeLocked c"

section \<open>The invariant\<close>

text \<open>\<open>X\<close> is the entry that was popped from the heap and is not yet removed from the maps.\<close>

definition cache_wf :: "nat option \<Rightarrow> Cache \<Rightarrow> bool" where
  "cache_wf X c \<longleftrightarrow>
     heap_inv (cache_heap c) \<and>
     (\<forall>p. p \<in> set (c_expHeap c) \<or> X = Some p \<longrightarrow> p < c_next c) \<and>
     (\<forall>p. X = Some p \<longrightarrow> p \<notin> set (c_expHeap c) \<and> he_index (c_mem c p) = - 1) \<and>
     (\<forall>k p. c_heapIndex c k = Some p \<longleftrightarrow>
        (p \<in> set (c_expHeap c) \<or> X = Some p) \<and> he_cacheKey (c_mem c p) = k) \<and>
     dom (c_entries c) = dom (c_heapIndex c) \<and>
     (\<forall>k p e. c_heapIndex c k = Some p \<and> c_entries c k = Some e \<longrightarrow>
        he_expiresAt (c_mem c p) = e_expiresAt e) \<and>
     (\<forall>d. c_digestIndex c d =
        (if \<exists>k. k \<in> dom (c_entries c) \<and> fst k = d then Some {k. k \<in> dom (c_entries c) \<and> fst k = d} else None)) \<and>
     finite (dom (c_entries c))"

definition cache_inv :: "Cache \<Rightarrow> bool" where
  "cache_inv c \<longleftrightarrow> cache_wf None c \<and> 0 < c_maxSize c \<and> int (cache_Len c) \<le> c_maxSize c"

lemma cache_wfD:
  assumes "cache_wf X c"
  shows "heap_inv (cache_heap c)"
    "\<And>p. p \<in> set (c_expHeap c) \<or> X = Some p \<Longrightarrow> p < c_next c"
    "\<And>p. X = Some p \<Longrightarrow> p \<notin> set (c_expHeap c) \<and> he_index (c_mem c p) = - 1"
    "\<And>k p. c_heapIndex c k = Some p \<longleftrightarrow> (p \<in> set (c_expHeap c) \<or> X = Some p) \<and> he_cacheKey (c_mem c p) = k"
    "dom (c_entries c) = dom (c_heapIndex c)"
    "\<And>k p e. c_heapIndex c k = Some p \<Longrightarrow> c_entries c k = Some e \<Longrightarrow> he_expiresAt (c_mem c p) = e_expiresAt e"
    "\<And>d. c_digestIndex c d =
        (if \<exists>k. k \<in> dom (c_entries c) \<and> fst k = d then Some {k. k \<in> dom (c_entries c) \<and> fst k = d} else None)"
    "finite (dom (c_entries c))"
  using assms unfolding cache_wf_def by blast+

lemma entry_pointer:
  assumes "cache_wf X c" "c_entries c k = Some e"
  obtains p where "c_heapIndex c k = Some p" "he_expiresAt (c_mem c p) = e_expiresAt e"
proof -
  have "k \<in> dom (c_heapIndex c)" using cache_wfD(5) [OF assms(1)] assms(2) by blast
  then obtain p where p: "c_heapIndex c k = Some p" by blast
  with cache_wfD(6) [OF assms(1) p assms(2)] that show thesis by blast
qed

lemma pointer_entry:
  assumes "cache_wf X c" "c_heapIndex c k = Some p"
  obtains e where "c_entries c k = Some e" "he_expiresAt (c_mem c p) = e_expiresAt e"
proof -
  have "k \<in> dom (c_entries c)" using cache_wfD(5) [OF assms(1)] assms(2) by blast
  then obtain e where e: "c_entries c k = Some e" by blast
  with cache_wfD(6) [OF assms(1,2) e] that show thesis by blast
qed

text \<open>Fields the invariant does not look at.\<close>

lemma cache_wf_frame [simp]:
  "cache_wf X (c\<lparr>c_gauge := g\<rparr>) = cache_wf X c" "cache_wf X (c\<lparr>c_evictions := ev\<rparr>) = cache_wf X c"
  "cache_wf X (c\<lparr>c_epochs := ep\<rparr>) = cache_wf X c" "cache_wf X (c\<lparr>c_stopped := st\<rparr>) = cache_wf X c"
  "cache_Len (c\<lparr>c_gauge := g\<rparr>) = cache_Len c" "cache_Len (c\<lparr>c_evictions := ev\<rparr>) = cache_Len c"
  "cache_Len (c\<lparr>c_epochs := ep\<rparr>) = cache_Len c" "cache_Len (c\<lparr>c_stopped := st\<rparr>) = cache_Len c"
  by (simp_all add: cache_wf_def cache_Len_def)

lemma cache_wf_updateGauge [simp]: "cache_wf X (updateGaugeLocked c) = cache_wf X c"
  by (simp add: updateGaugeLocked_def)

lemma updateGauge_frame [simp]:
  "c_entries (updateGaugeLocked c) = c_entries c" "c_maxSize (updateGaugeLocked c) = c_maxSize c"
  "c_epochs (updateGaugeLocked c) = c_epochs c" "cache_Len (updateGaugeLocked c) = cache_Len c"
  by (simp_all add: updateGaugeLocked_def)

lemma recordEviction_frame [simp]:
  "c_entries (recordEviction r c) = c_entries c" "c_maxSize (recordEviction r c) = c_maxSize c"
  "c_epochs (recordEviction r c) = c_epochs c" "cache_Len (recordEviction r c) = cache_Len c"
  "cache_wf X (recordEviction r c) = cache_wf X c" "c_expHeap (recordEviction r c) = c_expHeap c"
  "c_mem (recordEviction r c) = c_mem c"
  by (simp_all add: recordEviction_def)

lemma digest_index_remove:
  assumes "\<And>d. di d = (if \<exists>k. k \<in> D \<and> fst k = d then Some {k. k \<in> D \<and> fst k = d} else None)"
  shows "(case di (fst k) of None \<Rightarrow> di
          | Some keys \<Rightarrow> di(fst k := (if keys - {k} = {} then None else Some (keys - {k})))) d
         = (if \<exists>k'. k' \<in> D - {k} \<and> fst k' = d then Some {k'. k' \<in> D - {k} \<and> fst k' = d} else None)"
proof (cases "d = fst k")
  case True
  have "{k'. k' \<in> D - {k} \<and> fst k' = d} = {k'. k' \<in> D \<and> fst k' = d} - {k}" by auto
  with True show ?thesis using assms [of d] by auto
next
  case False
  then have "(\<exists>k'. k' \<in> D - {k} \<and> fst k' = d) \<longleftrightarrow> (\<exists>k'. k' \<in> D \<and> fst k' = d)"
    "{k'. k' \<in> D - {k} \<and> fst k' = d} = {k'. k' \<in> D \<and> fst k' = d}" by auto
  with False assms [of d] show ?thesis by (simp split: option.splits)
qed

text \<open>The effect of \<open>removeLocked\<close> on each field.\<close>

lemma removeLocked_fields:
  "c_entries (removeLocked k c) = (c_entries c)(k := None)"
  "c_heapIndex (removeLocked k c) = (c_heapIndex c)(k := None)"
  "c_maxSize (removeLocked k c) = c_maxSize c" "c_epochs (removeLocked k c) = c_epochs c"
  "c_next (removeLocked k c) = c_next c" "c_gauge (removeLocked k c) = c_gauge c"
  "c_digestIndex (removeLocked k c) =
     (case c_digestIndex c (fst k) of None \<Rightarrow> c_digestIndex c
      | Some keys \<Rightarrow> (c_digestIndex c)(fst k := (if keys - {k} = {} then None else Some (keys - {k}))))"
  "cache_heap (removeLocked k c) =
     (case c_heapIndex c k of
        None \<Rightarrow> cache_heap c
      | Some p \<Rightarrow> if he_index (c_mem c p) \<ge> 0 then snd (heap_Remove (cache_heap c) (nat (he_index (c_mem c p))))
                 else cache_heap c)"
  by (auto simp: removeLocked_def Let_def fun_upd_idem split: option.splits)

lemma removeLocked_heap:
  assumes wf: "cache_wf X c" and X: "X = None \<or> (\<exists>p. X = Some p \<and> he_cacheKey (c_mem c p) = k)"
  shows "heap_inv (cache_heap (removeLocked k c))" "same_entries (c_mem c) (c_mem (removeLocked k c))"
    "p \<in> set (c_expHeap (removeLocked k c)) \<longleftrightarrow>
       (p \<in> set (c_expHeap c) \<or> X = Some p) \<and> he_cacheKey (c_mem c p) \<noteq> k"
proof -
  note W = cache_wfD [OF wf]
  let ?c = "removeLocked k c"
  have "heap_inv (cache_heap ?c) \<and> same_entries (c_mem c) (c_mem ?c) \<and>
      (p \<in> set (c_expHeap ?c) \<longleftrightarrow> (p \<in> set (c_expHeap c) \<or> X = Some p) \<and> he_cacheKey (c_mem c p) \<noteq> k)"
  proof (cases "c_heapIndex c k")
    case None
    then have "c_expHeap ?c = c_expHeap c \<and> c_mem ?c = c_mem c" using removeLocked_fields(8) [of k c] by simp
    moreover have free: "he_cacheKey (c_mem c q) \<noteq> k" if "q \<in> set (c_expHeap c) \<or> X = Some q" for q
      using W(4) [of k q] None that by auto
    moreover have "X = None" using X free by blast
    ultimately show ?thesis using W(1) by auto
  next
    case (Some r)
    then have r: "r \<in> set (c_expHeap c) \<or> X = Some r" "he_cacheKey (c_mem c r) = k" using W(4) by auto
    have uniq: "q = r" if "q \<in> set (c_expHeap c) \<or> X = Some q" "he_cacheKey (c_mem c q) = k" for q
      using W(4) [of k q] Some that by simp
    show ?thesis
    proof (cases "r \<in> set (c_expHeap c)")
      case True
      have ix: "0 \<le> he_index (c_mem c r)" using eheap.elem_index [OF W(1)] True by simp
      obtain q h where rm: "heap_Remove (cache_heap c) (nat (he_index (c_mem c r))) = (q, h)" by (rule prod.exhaust)
      have h: "heap_inv h" "set (fst h) = set (c_expHeap c) - {r}" "same_entries (c_mem c) (snd h)"
        using eheap.remove_at [OF W(1), of r q h] True rm by auto
      have "cache_heap ?c = h" using Some ix rm removeLocked_fields(8) [of k c] by simp
      then have "c_expHeap ?c = fst h" "c_mem ?c = snd h" by auto
      moreover have "X = None"
      proof (rule ccontr)
        assume "X \<noteq> None"
        with X obtain q where q: "X = Some q" "he_cacheKey (c_mem c q) = k" by blast
        with uniq [of q] have "q = r" by simp
        with W(3) [OF q(1)] True show False by simp
      qed
      ultimately show ?thesis using h uniq [of p] r(2) by auto
    next
      case False
      with r have Xr: "X = Some r" by simp
      then have "he_index (c_mem c r) = - 1" using W(3) by blast
      then have "c_expHeap ?c = c_expHeap c" "c_mem ?c = c_mem c"
        using Some removeLocked_fields(8) [of k c] by auto
      moreover have "p \<in> set (c_expHeap c) \<longleftrightarrow> (p \<in> set (c_expHeap c) \<or> X = Some p) \<and> he_cacheKey (c_mem c p) \<noteq> k"
        using uniq [of p] r(2) Xr False by auto
      ultimately show ?thesis using W(1) by simp
    qed
  qed
  then show "heap_inv (cache_heap ?c)" "same_entries (c_mem c) (c_mem ?c)"
    "p \<in> set (c_expHeap ?c) \<longleftrightarrow> (p \<in> set (c_expHeap c) \<or> X = Some p) \<and> he_cacheKey (c_mem c p) \<noteq> k"
    by blast+
qed

lemma removeLocked_wf:
  assumes wf: "cache_wf X c" and X: "X = None \<or> (\<exists>p. X = Some p \<and> he_cacheKey (c_mem c p) = k)"
  shows "cache_wf None (removeLocked k c)"
proof -
  note W = cache_wfD [OF wf]
  note H = removeLocked_heap [OF assms]
  let ?c = "removeLocked k c"
  have hk: "he_cacheKey (c_mem ?c p) = he_cacheKey (c_mem c p)" "he_expiresAt (c_mem ?c p) = he_expiresAt (c_mem c p)" for p
    using H(2) by (auto simp: same_entries_def)
  show ?thesis
    unfolding cache_wf_def
  proof (intro conjI allI impI)
    show "heap_inv (cache_heap ?c)" by (rule H(1))
    show "p < c_next ?c" if "p \<in> set (c_expHeap ?c) \<or> None = Some p" for p
      using that H(3) [of p] W(2) [of p] by (auto simp: removeLocked_fields)
    show "c_heapIndex ?c k' = Some p \<longleftrightarrow> (p \<in> set (c_expHeap ?c) \<or> None = Some p) \<and> he_cacheKey (c_mem ?c p) = k'" for k' p
      using H(3) [of p] W(4) [of k' p] hk(1) [of p] by (auto simp: removeLocked_fields)
    show "dom (c_entries ?c) = dom (c_heapIndex ?c)" using W(5) by (simp add: removeLocked_fields)
    show "he_expiresAt (c_mem ?c p) = e_expiresAt e" if "c_heapIndex ?c k' = Some p \<and> c_entries ?c k' = Some e" for k' p e
      using that W(6) [of k' p e] hk(2) by (auto simp: removeLocked_fields split: if_splits)
    show "c_digestIndex ?c d = (if \<exists>k'. k' \<in> dom (c_entries ?c) \<and> fst k' = d
        then Some {k'. k' \<in> dom (c_entries ?c) \<and> fst k' = d} else None)" for d
      using digest_index_remove [of "c_digestIndex c" "dom (c_entries c)" k d, OF W(7)]
      by (simp add: removeLocked_fields)
    show "finite (dom (c_entries ?c))" using W(8) by (simp add: removeLocked_fields)
  qed simp_all
qed

lemma removeLocked_Len: "finite (dom (c_entries c)) \<Longrightarrow> cache_Len (removeLocked k c) \<le> cache_Len c"
  by (simp add: cache_Len_def removeLocked_fields card_mono)

lemma removeLocked_Len_less:
  "finite (dom (c_entries c)) \<Longrightarrow> k \<in> dom (c_entries c) \<Longrightarrow> cache_Len (removeLocked k c) < cache_Len c"
  by (simp only: cache_Len_def removeLocked_fields dom_fun_upd simp_thms if_True card_Diff1_less)

section \<open>Eviction\<close>

lemma pop_root_wf:
  assumes wf: "cache_wf None c" and ne: "c_expHeap c \<noteq> []" and pop: "pop_root c = (c1, k)"
  shows "\<exists>p e. cache_wf (Some p) c1 \<and> he_cacheKey (c_mem c1 p) = k \<and> c_entries c k = Some e \<and>
      e_expiresAt e = he_expiresAt (c_mem c (c_expHeap c ! 0)) \<and>
      (\<forall>k' e'. c_entries c k' = Some e' \<longrightarrow> e_expiresAt e \<le> e_expiresAt e') \<and>
      c_entries c1 = c_entries c \<and> c_maxSize c1 = c_maxSize c \<and> c_epochs c1 = c_epochs c"
proof -
  note W = cache_wfD [OF wf]
  obtain p h where hp: "heap_Pop (cache_heap c) = (p, h)" by (rule prod.exhaust)
  have ne': "set (fst (cache_heap c)) \<noteq> {}" using ne by simp
  note P = eheap.pop_inv [OF W(1) ne' hp] eheap.pop_elem [OF W(1) ne' hp] eheap.pop_elems [OF W(1) ne' hp]
    eheap.pop_mem [OF W(1) ne' hp] eheap.pop_min [OF W(1) ne' hp] eheap.pop_index [OF W(1) ne' hp]
  have c1: "c1 = c\<lparr>c_expHeap := fst h, c_mem := snd h\<rparr>" "k = he_cacheKey (snd h p)"
    using pop hp by (auto simp: pop_root_def)
  have me: "he_cacheKey (snd h q) = he_cacheKey (c_mem c q)" "he_expiresAt (snd h q) = he_expiresAt (c_mem c q)" for q
    using P(4) by (auto simp: same_entries_def)
  have hk: "c_heapIndex c k = Some p" using W(4) P(2) c1 me by auto
  then obtain e where e: "c_entries c k = Some e" "he_expiresAt (c_mem c p) = e_expiresAt e"
    by (rule pointer_entry [OF wf])
  have min: "e_expiresAt e \<le> e_expiresAt e'" if e': "c_entries c k' = Some e'" for k' e'
  proof -
    obtain q where q: "c_heapIndex c k' = Some q" "he_expiresAt (c_mem c q) = e_expiresAt e'"
      by (rule entry_pointer [OF wf e'])
    then have "q \<in> set (c_expHeap c)" using W(4) by simp
    then show ?thesis using P(5) [of q] q(2) e(2) by simp
  qed
  have "e_expiresAt e = he_expiresAt (c_mem c (c_expHeap c ! 0))"
    using heap_root_min [OF W(1), of p] ne P(2) P(5) [of "c_expHeap c ! 0"] e(2) by simp
  moreover have "cache_wf (Some p) c1"
    unfolding cache_wf_def
  proof (intro conjI allI impI)
    show "heap_inv (cache_heap c1)" using P(1) by (simp add: c1)
    show "q < c_next c1" if "q \<in> set (c_expHeap c1) \<or> Some p = Some q" for q
      using that W(2) P(2,3) by (auto simp: c1)
    show "q \<notin> set (c_expHeap c1)" "he_index (c_mem c1 q) = - 1" if "Some p = Some q" for q
      using that P(3,6) by (auto simp: c1)
    show "c_heapIndex c1 k' = Some q \<longleftrightarrow> (q \<in> set (c_expHeap c1) \<or> Some p = Some q) \<and> he_cacheKey (c_mem c1 q) = k'" for k' q
      using W(4) [of k' q] P(2,3) me by (auto simp: c1)
    show "he_expiresAt (c_mem c1 q) = e_expiresAt e'" if "c_heapIndex c1 k' = Some q \<and> c_entries c1 k' = Some e'" for k' q e'
      using that W(6) [of k' q e'] me by (simp add: c1(1))
    show "c_digestIndex c1 d = (if \<exists>k. k \<in> dom (c_entries c1) \<and> fst k = d
        then Some {k. k \<in> dom (c_entries c1) \<and> fst k = d} else None)" for d
      using W(7) [of d] by (simp add: c1(1))
  qed (use W(5,8) in \<open>simp_all add: c1(1)\<close>)
  moreover have "he_cacheKey (c_mem c1 p) = k" "c_entries c1 = c_entries c" "c_maxSize c1 = c_maxSize c"
    "c_epochs c1 = c_epochs c" using c1 by simp_all
  ultimately show ?thesis using e(1) min by blast
qed

lemma evict_step:
  assumes wf: "cache_wf None c" and ne: "c_expHeap c \<noteq> []" and pop: "pop_root c = (c1, k)"
  shows "cache_wf None (recordEviction r (removeLocked k c1))"
    "c_entries (recordEviction r (removeLocked k c1)) = (c_entries c)(k := None)"
    "k \<in> dom (c_entries c)"
    "c_maxSize (recordEviction r (removeLocked k c1)) = c_maxSize c"
    "c_epochs (recordEviction r (removeLocked k c1)) = c_epochs c"
  using pop_root_wf [OF assms] removeLocked_wf [of _ c1 k] by (auto simp: removeLocked_fields)

lemma evictExpired_correct:
  "cache_wf None c \<Longrightarrow>
     cache_wf None (evictExpiredLocked now c) \<and>
     c_entries (evictExpiredLocked now c) =
       (\<lambda>k. case c_entries c k of Some e \<Rightarrow> if now > e_expiresAt e then None else Some e | None \<Rightarrow> None) \<and>
     c_maxSize (evictExpiredLocked now c) = c_maxSize c \<and> c_epochs (evictExpiredLocked now c) = c_epochs c"
proof (induction now c rule: evictExpiredLocked.induct)
  case (1 now c)
  note W = cache_wfD [OF 1(2)]
  show ?case
  proof (cases "c_expHeap c \<noteq> [] \<and> now > he_expiresAt (c_mem c (c_expHeap c ! 0))")
    case True
    obtain c1 k where pr: "pop_root c = (c1, k)" by (rule prod.exhaust)
    let ?c2 = "recordEviction ''expired'' (removeLocked k c1)"
    note st = evict_step [OF 1(2) _ pr]
    have eq: "evictExpiredLocked now c = evictExpiredLocked now ?c2"
      using True pr by (subst evictExpiredLocked.simps) simp
    from pop_root_wf [OF 1(2) _ pr] True obtain e where e: "c_entries c k = Some e" "now > e_expiresAt e" by auto
    from 1(1) [OF True pr [symmetric] refl] st True
    have IH: "cache_wf None (evictExpiredLocked now ?c2) \<and>
       c_entries (evictExpiredLocked now ?c2) =
         (\<lambda>k. case c_entries ?c2 k of Some e \<Rightarrow> if now > e_expiresAt e then None else Some e | None \<Rightarrow> None) \<and>
       c_maxSize (evictExpiredLocked now ?c2) = c_maxSize ?c2 \<and> c_epochs (evictExpiredLocked now ?c2) = c_epochs ?c2"
      by blast
    have "(\<lambda>k'. case c_entries ?c2 k' of Some e \<Rightarrow> if now > e_expiresAt e then None else Some e | None \<Rightarrow> None)
        = (\<lambda>k'. case c_entries c k' of Some e \<Rightarrow> if now > e_expiresAt e then None else Some e | None \<Rightarrow> None)"
      using st(2) True e by (intro ext) auto
    with IH st True show ?thesis unfolding eq by simp
  next
    case False
    have live: "\<not> now > e_expiresAt e" if e: "c_entries c k = Some e" for k e
    proof -
      obtain p where p: "c_heapIndex c k = Some p" "he_expiresAt (c_mem c p) = e_expiresAt e"
        by (rule entry_pointer [OF 1(2) e])
      then have "p \<in> set (c_expHeap c)" using W(4) by simp
      then have "he_expiresAt (c_mem c (c_expHeap c ! 0)) \<le> he_expiresAt (c_mem c p)" "c_expHeap c \<noteq> []"
        using heap_root_min [OF W(1), of p] by (cases "c_expHeap c"; simp)+
      with False p(2) show ?thesis by auto
    qed
    have "evictExpiredLocked now c = c" using False by (subst evictExpiredLocked.simps) auto
    moreover have "c_entries c = (\<lambda>k. case c_entries c k of Some e \<Rightarrow> if now > e_expiresAt e then None else Some e | None \<Rightarrow> None)"
      using live by (intro ext) (auto split: option.splits)
    ultimately show ?thesis using 1(2) by simp
  qed
qed

lemma evictSoonest_correct:
  assumes wf: "cache_wf None c" and ne: "c_entries c \<noteq> Map.empty"
  shows "cache_wf None (evictSoonestExpiringLocked c) \<and>
    (\<exists>k e. c_entries c k = Some e \<and> (\<forall>k' e'. c_entries c k' = Some e' \<longrightarrow> e_expiresAt e \<le> e_expiresAt e') \<and>
       c_entries (evictSoonestExpiringLocked c) = (c_entries c)(k := None)) \<and>
    c_maxSize (evictSoonestExpiringLocked c) = c_maxSize c \<and> c_epochs (evictSoonestExpiringLocked c) = c_epochs c"
proof -
  obtain k' e' where "c_entries c k' = Some e'" using ne by (metis not_None_eq ext)
  then obtain q where "c_heapIndex c k' = Some q" by (rule entry_pointer [OF wf])
  then have ne': "c_expHeap c \<noteq> []" using cache_wfD(4) [OF wf] by fastforce
  obtain c1 k where pr: "pop_root c = (c1, k)" by (rule prod.exhaust)
  have eq: "evictSoonestExpiringLocked c = recordEviction ''capacity'' (removeLocked k c1)"
    using ne' pr by (simp add: evictSoonestExpiringLocked_def)
  show ?thesis unfolding eq
    using evict_step [OF wf ne' pr] pop_root_wf [OF wf ne' pr] by blast
qed

section \<open>Storing a result\<close>

text \<open>The state in which the new entry is written: at least one place is free unless the key is
  already present.\<close>

definition room_made :: "cache_key \<Rightarrow> time \<Rightarrow> Cache \<Rightarrow> Cache" where
  "room_made k nowE c =
     (if c_entries c k = None \<and> int (cache_Len c) \<ge> c_maxSize c then
        (let c' = evictExpiredLocked nowE c
         in if int (cache_Len c') \<ge> c_maxSize c' then evictSoonestExpiringLocked c' else c')
      else c)"

definition put_entry :: "cache_key \<Rightarrow> Result \<Rightarrow> time \<Rightarrow> Cache \<Rightarrow> Cache" where
  "put_entry k result expiresAt c1 =
     (let c2 = indexLocked k c1;
          c3 = c2\<lparr>c_entries := (c_entries c2)(k \<mapsto> \<lparr>e_result = result, e_expiresAt = expiresAt\<rparr>)\<rparr>
      in (case c_heapIndex c3 k of
            Some p \<Rightarrow>
              (let h = heap_Fix (with_expiry (cache_heap c3) p expiresAt) (nat (he_index (c_mem c3 p)))
               in c3\<lparr>c_expHeap := fst h, c_mem := snd h\<rparr>)
          | None \<Rightarrow>
              (let p = c_next c3;
                   h = heap_Push (c_expHeap c3,
                         (c_mem c3)(p := \<lparr>he_cacheKey = k, he_expiresAt = expiresAt, he_index = 0\<rparr>)) p
               in c3\<lparr>c_expHeap := fst h, c_mem := snd h, c_next := Suc p,
                     c_heapIndex := (c_heapIndex c3)(k \<mapsto> p)\<rparr>)))"

lemma setLocked_split:
  "setLocked d n r ttl rnd nowE now c =
     updateGaugeLocked (put_entry (d, n) r (now + (ttl + jitter rnd ttl)) (room_made (d, n) nowE c))"
  unfolding setLocked_def put_entry_def room_made_def Let_def ..

lemma put_entry_fields:
  "c_entries (put_entry k r t c) = (c_entries c)(k \<mapsto> \<lparr>e_result = r, e_expiresAt = t\<rparr>)"
  "c_maxSize (put_entry k r t c) = c_maxSize c" "c_epochs (put_entry k r t c) = c_epochs c"
  "c_digestIndex (put_entry k r t c) = c_digestIndex (indexLocked k c)"
  by (simp_all add: put_entry_def Let_def indexLocked_def split: option.splits)

lemma digest_index_insert:
  assumes "\<And>d. di d = (if \<exists>k. k \<in> D \<and> fst k = d then Some {k. k \<in> D \<and> fst k = d} else None)"
  shows "(di(fst k \<mapsto> insert k (case di (fst k) of None \<Rightarrow> {} | Some keys \<Rightarrow> keys))) d
         = (if \<exists>k'. k' \<in> insert k D \<and> fst k' = d then Some {k'. k' \<in> insert k D \<and> fst k' = d} else None)"
proof (cases "d = fst k")
  case True
  have e: "{k'. k' \<in> insert k D \<and> fst k' = d} = insert k {k'. k' \<in> D \<and> fst k' = d}" using True by auto
  have ex: "\<exists>k'. k' \<in> insert k D \<and> fst k' = d" using True by blast
  have "(case di d of None \<Rightarrow> {} | Some keys \<Rightarrow> keys) = {k'. k' \<in> D \<and> fst k' = d}"
    using assms [of d] by auto
  then show ?thesis unfolding e if_P [OF ex] using True by simp
next
  case False
  then have "(\<exists>k'. k' \<in> insert k D \<and> fst k' = d) \<longleftrightarrow> (\<exists>k'. k' \<in> D \<and> fst k' = d)"
    "{k'. k' \<in> insert k D \<and> fst k' = d} = {k'. k' \<in> D \<and> fst k' = d}" by auto
  with False assms [of d] show ?thesis by simp
qed

lemma put_entry_update_wf:
  assumes wf: "cache_wf None c" and k: "c_heapIndex c k = Some p"
  shows "cache_wf None (put_entry k r t c)"
proof -
  note W = cache_wfD [OF wf]
  let ?c = "put_entry k r t c"
  have p: "p \<in> set (c_expHeap c)" "he_cacheKey (c_mem c p) = k" using W(4) k by auto
  then obtain i where i: "i < length (c_expHeap c)" "c_expHeap c ! i = p" by (auto simp: in_set_conv_nth)
  then have ix: "nat (he_index (c_mem c p)) = i" using W(1) by (auto simp: heap_inv_def indexed_def)
  define h where "h = heap_Fix (with_expiry (cache_heap c) p t) i"
  have c: "?c = (indexLocked k c)\<lparr>c_entries := (c_entries c)(k \<mapsto> \<lparr>e_result = r, e_expiresAt = t\<rparr>),
      c_expHeap := fst h, c_mem := snd h\<rparr>"
    using k ix by (simp add: put_entry_def Let_def indexLocked_def h_def)
  have F: "heap_inv h" "rearranged (with_expiry (cache_heap c) p t) h"
    using heap_Fix_correct [OF W(1), of i p t] i by (simp_all add: h_def)
  have st: "set (fst h) = set (c_expHeap c)" using rearranged_set [OF F(2)] by (simp add: with_expiry_def)
  have me: "he_cacheKey (snd h q) = he_cacheKey (c_mem c q)"
    "he_expiresAt (snd h q) = (if q = p then t else he_expiresAt (c_mem c q))" for q
    using F(2) by (auto simp: rearranged_def same_entries_def with_expiry_def)
  show ?thesis
    unfolding cache_wf_def
  proof (intro conjI allI impI)
    show "heap_inv (cache_heap ?c)" using F(1) by (simp add: c)
    show "q < c_next ?c" if "q \<in> set (c_expHeap ?c) \<or> None = Some q" for q
      using that W(2) [of q] st by (simp add: c indexLocked_def)
    show "c_heapIndex ?c k' = Some q \<longleftrightarrow> (q \<in> set (c_expHeap ?c) \<or> None = Some q) \<and> he_cacheKey (c_mem ?c q) = k'" for k' q
      using W(4) [of k' q] st me(1) by (simp add: c indexLocked_def)
    show "dom (c_entries ?c) = dom (c_heapIndex ?c)" using W(5) k by (auto simp: c indexLocked_def)
    show "he_expiresAt (c_mem ?c q) = e_expiresAt e" if "c_heapIndex ?c k' = Some q \<and> c_entries ?c k' = Some e" for k' q e
      using that W(6) [of k' q e] W(4) [of k' q] p me(2) [of q] k
      by (auto simp: c indexLocked_def split: if_splits)
    show "c_digestIndex ?c d = (if \<exists>k'. k' \<in> dom (c_entries ?c) \<and> fst k' = d
        then Some {k'. k' \<in> dom (c_entries ?c) \<and> fst k' = d} else None)" for d
      using digest_index_insert [of "c_digestIndex c" "dom (c_entries c)" k d, OF W(7)]
      by (simp add: put_entry_fields indexLocked_def)
    show "finite (dom (c_entries ?c))" using W(8) by (simp add: put_entry_fields)
  qed simp_all
qed

lemma put_entry_new_wf:
  assumes wf: "cache_wf None c" and k: "c_heapIndex c k = None"
  shows "cache_wf None (put_entry k r t c)"
proof -
  note W = cache_wfD [OF wf]
  let ?c = "put_entry k r t c" and ?p = "c_next c"
  let ?m = "(c_mem c)(?p := \<lparr>he_cacheKey = k, he_expiresAt = t, he_index = 0\<rparr>)"
  have fresh: "?p \<notin> set (c_expHeap c)" using W(2) by blast
  define h where "h = heap_Push (c_expHeap c, ?m) ?p"
  have c: "?c = (indexLocked k c)\<lparr>c_entries := (c_entries c)(k \<mapsto> \<lparr>e_result = r, e_expiresAt = t\<rparr>),
      c_expHeap := fst h, c_mem := snd h, c_next := Suc ?p, c_heapIndex := (c_heapIndex c)(k \<mapsto> ?p)\<rparr>"
    using k by (simp add: put_entry_def Let_def indexLocked_def h_def)
  have eq: "?m q = c_mem c q" if "q \<in> set (c_expHeap c)" for q using that fresh by auto
  have "heap_inv (c_expHeap c, ?m)"
  proof -
    have "prio (c_expHeap c, ?m) i = prio (cache_heap c) i" if "i < length (c_expHeap c)" for i
      using eq [of "c_expHeap c ! i"] that by (simp add: prio_def)
    then have "heap_ok (prio (c_expHeap c, ?m)) (length (c_expHeap c))"
      using W(1) heap_ok_cong [of "length (c_expHeap c)" "prio (c_expHeap c, ?m)"] by (simp add: heap_inv_def)
    moreover have "indexed (c_expHeap c, ?m)"
      using W(1) eq [OF nth_mem] by (simp add: heap_inv_def indexed_def)
    ultimately show ?thesis by (simp add: heap_inv_def)
  qed
  note P = heap_Push_correct [OF this, of ?p, folded h_def]
  have H: "heap_inv h" "set (fst h) = insert ?p (set (c_expHeap c))" "same_entries ?m (snd h)"
    using P(1-3) fresh by simp_all
  have me: "he_cacheKey (snd h q) = (if q = ?p then k else he_cacheKey (c_mem c q))"
    "he_expiresAt (snd h q) = (if q = ?p then t else he_expiresAt (c_mem c q))" for q
    using H(3) by (auto simp: same_entries_def)
  show ?thesis
    unfolding cache_wf_def
  proof (intro conjI allI impI)
    show "heap_inv (cache_heap ?c)" using H(1) by (simp add: c)
    show "q < c_next ?c" if "q \<in> set (c_expHeap ?c) \<or> None = Some q" for q
      using that W(2) [of q] H(2) by (auto simp: c indexLocked_def)
    show "c_heapIndex ?c k' = Some q \<longleftrightarrow> (q \<in> set (c_expHeap ?c) \<or> None = Some q) \<and> he_cacheKey (c_mem ?c q) = k'" for k' q
      using W(4) [of k' q] H(2) me(1) [of q] fresh k by (auto simp: c indexLocked_def)
    show "dom (c_entries ?c) = dom (c_heapIndex ?c)" using W(5) by (simp add: c indexLocked_def)
    show "he_expiresAt (c_mem ?c q) = e_expiresAt e" if "c_heapIndex ?c k' = Some q \<and> c_entries ?c k' = Some e" for k' q e
      using that W(6) [of k' q e] W(4) [of k' q] fresh me(2) [of q]
      by (auto simp: c indexLocked_def split: if_splits)
    show "c_digestIndex ?c d = (if \<exists>k'. k' \<in> dom (c_entries ?c) \<and> fst k' = d
        then Some {k'. k' \<in> dom (c_entries ?c) \<and> fst k' = d} else None)" for d
      using digest_index_insert [of "c_digestIndex c" "dom (c_entries c)" k d, OF W(7)]
      by (simp add: put_entry_fields indexLocked_def)
    show "finite (dom (c_entries ?c))" using W(8) by (simp add: put_entry_fields)
  qed simp_all
qed

lemma put_entry_wf: "cache_wf None c \<Longrightarrow> cache_wf None (put_entry k r t c)"
  using put_entry_update_wf put_entry_new_wf by (cases "c_heapIndex c k") auto


lemma room_made_wf:
  assumes wf: "cache_wf None c" and m: "0 < c_maxSize c" "int (cache_Len c) \<le> c_maxSize c"
  shows "cache_wf None (room_made k nowE c)" "c_maxSize (room_made k nowE c) = c_maxSize c"
    "c_epochs (room_made k nowE c) = c_epochs c"
    "\<And>k' e. c_entries (room_made k nowE c) k' = Some e \<Longrightarrow> c_entries c k' = Some e"
    "c_entries (room_made k nowE c) k = c_entries c k"
    "c_entries c k = None \<Longrightarrow> int (cache_Len (room_made k nowE c)) < c_maxSize c"
proof -
  let ?e = "evictExpiredLocked nowE c"
  note E = evictExpired_correct [OF wf, of nowE]
  have sub: "c_entries ?e k' = Some e \<Longrightarrow> c_entries c k' = Some e" for k' e
    using E by (auto split: option.splits if_splits)
  let ?s = "evictSoonestExpiringLocked ?e"
  have full: "c_entries ?e \<noteq> Map.empty" if "int (cache_Len ?e) \<ge> c_maxSize ?e"
    using that m(1) E by (auto simp: cache_Len_def)
  have S: "cache_wf None ?s \<and> (\<exists>k e. c_entries ?e k = Some e \<and> c_entries ?s = (c_entries ?e)(k := None)) \<and>
      c_maxSize ?s = c_maxSize ?e \<and> c_epochs ?s = c_epochs ?e" if "int (cache_Len ?e) \<ge> c_maxSize ?e"
    using evictSoonest_correct [OF _ full [OF that]] E by blast
  have lenS: "int (cache_Len ?s) < c_maxSize c" if f: "int (cache_Len ?e) \<ge> c_maxSize ?e"
  proof -
    obtain k0 e0 where k0: "c_entries ?e k0 = Some e0" "c_entries ?s = (c_entries ?e)(k0 := None)"
      using S [OF f] by blast
    have fin: "finite (dom (c_entries ?e))" using E cache_wfD(8) by blast
    have "cache_Len ?s < cache_Len ?e"
      using card_Diff1_less [OF fin domI [of "c_entries ?e" k0 e0, OF k0(1)]] by (simp add: cache_Len_def k0(2))
    moreover have "dom (c_entries ?e) \<subseteq> dom (c_entries c)" using sub by blast
    then have "cache_Len ?e \<le> cache_Len c"
      unfolding cache_Len_def using cache_wfD(8) [OF wf] by (rule card_mono [rotated])
    ultimately show ?thesis using m(2) by linarith
  qed
  show "cache_wf None (room_made k nowE c)"
    using wf E S by (auto simp: room_made_def Let_def)
  show "c_maxSize (room_made k nowE c) = c_maxSize c" "c_epochs (room_made k nowE c) = c_epochs c"
    using E S by (auto simp: room_made_def Let_def)
  show r: "c_entries c k' = Some e" if "c_entries (room_made k nowE c) k' = Some e" for k' e
    using that sub [of k' e] S by (auto simp: room_made_def Let_def split: if_splits)
  show "c_entries (room_made k nowE c) k = c_entries c k"
  proof (cases "c_entries c k")
    case None
    then show ?thesis using r [of k] by (cases "c_entries (room_made k nowE c) k") auto
  qed (simp add: room_made_def)
  show "int (cache_Len (room_made k nowE c)) < c_maxSize c" if "c_entries c k = None"
    using that lenS E by (auto simp: room_made_def Let_def)
qed

lemma setLocked_inv: "cache_inv c \<Longrightarrow> cache_inv (setLocked d n r ttl rnd nowE now c)"
proof -
  assume inv: "cache_inv c"
  then have wf: "cache_wf None c" and m: "0 < c_maxSize c" "int (cache_Len c) \<le> c_maxSize c"
    by (auto simp: cache_inv_def)
  note R = room_made_wf [OF wf m, of "(d, n)" nowE]
  let ?c = "put_entry (d, n) r (now + (ttl + jitter rnd ttl)) (room_made (d, n) nowE c)"
  have fin: "finite (dom (c_entries (room_made (d, n) nowE c)))" using cache_wfD(8) [OF R(1)] .
  have "int (cache_Len ?c) \<le> c_maxSize c"
  proof (cases "c_entries c (d, n)")
    case None
    then show ?thesis using R(5,6) fin by (simp add: cache_Len_def put_entry_fields card_insert_if)
  next
    case (Some e)
    then have "dom (c_entries ?c) \<subseteq> dom (c_entries c)" using R(4) by (auto simp: put_entry_fields)
    then have "cache_Len ?c \<le> cache_Len c"
      unfolding cache_Len_def using cache_wfD(8) [OF wf] by (rule card_mono [rotated])
    then show ?thesis using m(2) by linarith
  qed
  then show ?thesis
    using put_entry_wf [OF R(1)] R(2) m(1) by (simp add: cache_inv_def setLocked_split put_entry_fields)
qed

section \<open>Lookup, invalidation and the other methods\<close>

lemma cache_inv_wf: "cache_inv c \<Longrightarrow> cache_wf None c"
  by (simp add: cache_inv_def)

lemma removeLocked_inv: "cache_inv c \<Longrightarrow> cache_inv (removeLocked k c)"
  using removeLocked_wf [of None c k] removeLocked_Len [of c k] cache_wfD(8) [of None c]
  by (simp add: cache_inv_def removeLocked_fields)

lemma updateGauge_inv [simp]: "cache_inv (updateGaugeLocked c) = cache_inv c"
  by (simp add: cache_inv_def)

lemma recordEviction_inv [simp]: "cache_inv (recordEviction r c) = cache_inv c"
  by (simp add: cache_inv_def)

lemma Get_inv:
  assumes "cache_inv c" "cache_inv (between c)"
  shows "cache_inv (fst (cache_Get d n now between now2 c))"
  using assms by (auto simp: cache_Get_def Let_def removeLocked_inv split: option.splits)

lemma Set_inv: "cache_inv c \<Longrightarrow> cache_inv (fst (SetWithTTLAtEpoch d n r ttl e rnd nowE now c))"
  by (simp add: SetWithTTLAtEpoch_def setLocked_inv)

lemma evict_inv: "cache_inv c \<Longrightarrow> cache_inv (backgroundEvict now c)"
proof -
  assume inv: "cache_inv c"
  note E = evictExpired_correct [OF cache_inv_wf [OF inv], of now]
  have "dom (c_entries (evictExpiredLocked now c)) \<subseteq> dom (c_entries c)"
    using E by (auto split: option.splits if_splits)
  then have "cache_Len (evictExpiredLocked now c) \<le> cache_Len c"
    unfolding cache_Len_def using cache_wfD(8) [OF cache_inv_wf [OF inv]] by (rule card_mono [rotated])
  then show ?thesis using E inv by (simp add: backgroundEvict_def cache_inv_def)
qed

text \<open>The keys \<open>DeleteAll\<close> visits: those of the digest, each once, in any order.\<close>

definition digest_keys :: "Cache \<Rightarrow> string \<Rightarrow> cache_key set" where
  "digest_keys c d = (case c_digestIndex c d of None \<Rightarrow> {} | Some keys \<Rightarrow> keys)"

definition valid_order :: "Cache \<Rightarrow> string \<Rightarrow> cache_key list \<Rightarrow> bool" where
  "valid_order c d ks \<longleftrightarrow> distinct ks \<and> set ks = digest_keys c d"

lemma delete_loop_correct:
  "cache_wf None c \<Longrightarrow> delete_loop ns ks c m = (c', m') \<Longrightarrow>
     cache_wf None c' \<and>
     c_entries c' = (\<lambda>k. if k \<in> set ks \<and> namespaceKeyMatches (snd k) ns then None else c_entries c k) \<and>
     c_maxSize c' = c_maxSize c \<and> c_epochs c' = c_epochs c"
proof (induction ks arbitrary: c m)
  case (Cons k ks)
  show ?case
  proof (cases "namespaceKeyMatches (snd k) ns")
    case True
    with Cons.prems have "delete_loop ns ks (removeLocked k c) (Suc m) = (c', m')" by simp
    from Cons.IH [OF removeLocked_wf [OF Cons.prems(1)] this] True
    show ?thesis by (auto simp: removeLocked_fields fun_eq_iff)
  next
    case False
    with Cons show ?thesis by (auto simp: fun_eq_iff)
  qed
qed simp

lemma digest_keys_iff: "cache_wf None c \<Longrightarrow> k \<in> digest_keys c d \<longleftrightarrow> c_entries c k \<noteq> None \<and> fst k = d"
  using cache_wfD(7) [of None c d] by (cases k) (auto simp: digest_keys_def)

lemma DeleteAll_correct:
  assumes "cache_wf None c" "valid_order c d ks" "DeleteAll d ns ks c = (c', m)"
  shows "cache_wf None c'"
    "c_entries c' = (\<lambda>k. if fst k = d \<and> namespaceKeyMatches (snd k) ns then None else c_entries c k)"
    "c_maxSize c' = c_maxSize c"
    "c_epochs c' = (c_epochs c)(shardOf d := c_epochs c (shardOf d) + 1)"
proof -
  let ?c1 = "c\<lparr>c_epochs := (c_epochs c)(shardOf d := c_epochs c (shardOf d) + 1)\<rparr>"
  obtain c2 where dl: "delete_loop ns ks ?c1 0 = (c2, m)" and c': "c' = (if m > 0 then updateGaugeLocked c2 else c2)"
    using assms(3) by (auto simp: DeleteAll_def Let_def split: prod.splits)
  have "cache_wf None ?c1" using assms(1) by simp
  note D = delete_loop_correct [OF this dl]
  show "cache_wf None c'" "c_maxSize c' = c_maxSize c"
    "c_epochs c' = (c_epochs c)(shardOf d := c_epochs c (shardOf d) + 1)"
    using D by (simp_all add: c')
  have "k \<in> set ks \<longleftrightarrow> c_entries c k \<noteq> None \<and> fst k = d" for k
    using digest_keys_iff [OF assms(1)] assms(2) by (simp add: valid_order_def)
  then show "c_entries c' = (\<lambda>k. if fst k = d \<and> namespaceKeyMatches (snd k) ns then None else c_entries c k)"
    using D by (intro ext) (auto simp: c')
qed

lemma DeleteAll_inv:
  assumes "cache_inv c" "valid_order c d ks"
  shows "cache_inv (fst (DeleteAll d ns ks c))"
proof -
  obtain c' m where e: "DeleteAll d ns ks c = (c', m)" by (rule prod.exhaust)
  note D = DeleteAll_correct [OF cache_inv_wf [OF assms(1)] assms(2) e]
  have "dom (c_entries c') \<subseteq> dom (c_entries c)" using D(2) by (auto split: if_splits)
  then have "cache_Len c' \<le> cache_Len c"
    unfolding cache_Len_def using cache_wfD(8) [OF cache_inv_wf [OF assms(1)]] by (rule card_mono [rotated])
  then show ?thesis using D assms(1) e by (simp add: cache_inv_def)
qed

section \<open>Runs of the cache\<close>

text \<open>A run is any interleaving of the methods and of the background eviction.  It counts the
  invalidations of the shard \<open>s\<close>.  The locked part of a \<open>Get\<close> that found an expired entry is the
  step \<open>run_get\<close>; what happened since the unlocked part are the steps before it.\<close>

inductive cache_run :: "nat \<Rightarrow> Cache \<Rightarrow> nat \<Rightarrow> Cache \<Rightarrow> bool" for s where
  run_refl: "cache_run s c 0 c"
| run_get: "cache_run s c n c' \<Longrightarrow> cache_run s c n (fst (cache_Get d ns now id now c'))"
| run_set: "cache_run s c n c' \<Longrightarrow> cache_run s c n (fst (SetWithTTLAtEpoch d ns r ttl e rnd nowE now c'))"
| run_delete: "cache_run s c n c' \<Longrightarrow> valid_order c' d ks \<Longrightarrow>
    cache_run s c (if shardOf d = s then Suc n else n) (fst (DeleteAll d ns ks c'))"
| run_evict: "cache_run s c n c' \<Longrightarrow> cache_run s c n (backgroundEvict now c')"
| run_stop: "cache_run s c n c' \<Longrightarrow> cache_run s c n (cache_Stop c')"
| run_report: "cache_run s c n c' \<Longrightarrow> cache_run s c n (ReportSize c')"

lemma New_inv: "cache_inv (NewWithGauge ttl maxSize gauge)"
  by (auto simp: cache_inv_def cache_wf_def NewWithGauge_def heap_inv_def indexed_def heap_ok_def cache_Len_def
      DefaultMaxSize_def)

lemma cache_run_inv: "cache_run s c n c' \<Longrightarrow> cache_inv c \<Longrightarrow> cache_inv c'"
  by (induction rule: cache_run.induct)
    (simp_all add: Get_inv Set_inv DeleteAll_inv evict_inv ReportSize_def, simp add: cache_Stop_def cache_inv_def)

lemma epochs_Get: "c_epochs (fst (cache_Get d ns now id now2 c)) = c_epochs c"
  by (auto simp: cache_Get_def Let_def removeLocked_fields split: option.splits)

lemma epochs_Set: "cache_inv c \<Longrightarrow> c_epochs (fst (SetWithTTLAtEpoch d ns r ttl e rnd nowE now c)) = c_epochs c"
  using room_made_wf(3) [of c "(d, ns)" nowE]
  by (simp add: SetWithTTLAtEpoch_def setLocked_split put_entry_fields cache_inv_def)

lemma epochs_evict: "cache_inv c \<Longrightarrow> c_epochs (backgroundEvict now c) = c_epochs c"
  using evictExpired_correct [of c now] by (simp add: backgroundEvict_def cache_inv_def)

lemma cache_run_epoch:
  "cache_run s c n c' \<Longrightarrow> cache_inv c \<Longrightarrow> c_epochs c' s = c_epochs c s + of_nat n"
proof (induction rule: cache_run.induct)
  case (run_delete c n c' d ks ns)
  then have wf: "cache_wf None c'" using cache_run_inv cache_inv_wf by blast
  obtain c2 m where e: "DeleteAll d ns ks c' = (c2, m)" by (rule prod.exhaust)
  from DeleteAll_correct(4) [OF wf run_delete(2) e] run_delete e show ?case by auto
next
  case (run_set c n c' d ns r ttl e rnd nowE now)
  then show ?case using epochs_Set cache_run_inv by metis
next
  case (run_evict c n c' now)
  then show ?case using epochs_evict cache_run_inv by metis
qed (simp_all add: epochs_Get cache_Stop_def ReportSize_def)


section \<open>Properties\<close>

text \<open>C10: the cache invariant.  In every state reachable from a new cache the entries, the
  expiry heap with its index fields, the heap index and the digest index describe the same set of
  keys with the same expiry, the heap is ordered, and the cache never holds more entries than its
  maximum size, which is positive even when the configured one is not.\<close>

theorem cache_invariant:
  assumes "cache_run s (NewWithGauge ttl maxSize gauge) n c"
  shows "cache_wf None c \<and> 0 < c_maxSize c \<and> int (cache_Len c) \<le> c_maxSize c"
  using cache_run_inv [OF assms New_inv] by (simp add: cache_inv_def)

theorem cache_invariant_witness:
  "int (cache_Len (backgroundEvict 5 (NewWithGauge (3 * seconds) 0 None))) \<le> 10000"
proof -
  have r: "cache_run 0 (NewWithGauge (3 * seconds) 0 None) 0 (backgroundEvict 5 (NewWithGauge (3 * seconds) 0 None))"
    by (intro cache_run.intros)
  have "c_maxSize (backgroundEvict 5 (NewWithGauge (3 * seconds) 0 None)) = 10000"
    by (simp add: backgroundEvict_def evictExpiredLocked.simps NewWithGauge_def DefaultMaxSize_def)
  with cache_invariant [OF r] show ?thesis by simp
qed



text \<open>C23: \<open>DeleteAll\<close> is exact.  Whatever the iteration order of the map, it removes every entry of
  the digest whose namespace key is the namespace or extends it after a NUL byte, leaves every
  other entry untouched and advances exactly the epoch of the digest's shard.\<close>

theorem DeleteAll_exact:
  assumes "cache_run s (NewWithGauge ttl maxSize gauge) n c" and "valid_order c d ks"
    and "DeleteAll d ns ks c = (c', m)"
  shows "c_entries c' = (\<lambda>k. if fst k = d \<and> namespaceKeyMatches (snd k) ns then None else c_entries c k)
    \<and> c_epochs c' = (c_epochs c)(shardOf d := c_epochs c (shardOf d) + 1)"
  using DeleteAll_correct [OF cache_inv_wf [OF cache_run_inv [OF assms(1) New_inv]] assms(2,3)] by blast

theorem DeleteAll_exact_witness:
  "c_entries (fst (DeleteAll ''d'' ''ns'' [] (NewWithGauge 1 5 None))) = Map.empty"
proof -
  let ?c = "NewWithGauge 1 5 None"
  have v: "valid_order ?c ''d'' []" by (simp add: valid_order_def digest_keys_def NewWithGauge_def)
  obtain c' m where e: "DeleteAll ''d'' ''ns'' [] ?c = (c', m)" by (rule prod.exhaust)
  have "c_entries c' = (\<lambda>k. if fst k = ''d'' \<and> namespaceKeyMatches (snd k) ''ns'' then None else c_entries ?c k)"
    using DeleteAll_exact [OF run_refl v e] by blast
  then show ?thesis using e by (auto simp: NewWithGauge_def fun_eq_iff)
qed

definition jitter_source :: "(int \<Rightarrow> int) \<Rightarrow> bool" where
  "jitter_source rnd \<longleftrightarrow> (\<forall>n > 0. 0 \<le> rnd n \<and> rnd n < n)"

lemma jitter_bounds:
  assumes "jitter_source rnd" "0 < ttl"
  shows "0 \<le> jitter rnd ttl" "jitter rnd ttl \<le> ttl div 10"
  using assms by (auto simp: jitter_def jitter_source_def Let_def dest!: spec [of _ "ttl div 10"])

lemma Set_stored:
  assumes "SetWithTTLAtEpoch d ns r ttl e rnd nowE now c = (c', True)"
  shows "c_entries c' (d, ns) = Some \<lparr>e_result = r, e_expiresAt = now + (ttl + jitter rnd ttl)\<rparr>" "0 < ttl"
  using assms by (auto simp: SetWithTTLAtEpoch_def setLocked_split put_entry_fields split: if_splits)

text \<open>A stored result is returned for its whole time to live and not after it.  The jitter only
  ever lengthens the life of an entry, by at most a tenth; after that \<open>Get\<close> returns nothing, and
  nothing else is done to the state by a hit.\<close>

lemma stored_result_lives_for_ttl:
  assumes "SetWithTTLAtEpoch d ns r ttl e rnd nowE now c = (c', True)" and "jitter_source rnd"
  shows "(if t \<le> now + ttl then cache_Get d ns t between t2 c' = (c', Some r)
          else if t > now + ttl + ttl div 10 then snd (cache_Get d ns t id t c') = None
          else snd (cache_Get d ns t id t c') \<in> {None, Some r})"
  using Set_stored [OF assms(1)] jitter_bounds [OF assms(2), of ttl]
  by (auto simp: cache_Get_def Let_def)

lemma stored_result_lives_for_ttl_witness:
  "let r = \<lparr>r_Allowed = False, r_Verified = False, r_Mode = [], r_Reason = [], r_CheckResults = []\<rparr>;
       c' = fst (SetWithTTLAtEpoch ''d'' ''ns'' r 100 0 (\<lambda>_. 0) 0 7 (NewWithGauge 100 1 None))
   in cache_Get ''d'' ''ns'' 107 id 108 c' = (c', Some r)"
proof -
  let ?r = "\<lparr>r_Allowed = False, r_Verified = False, r_Mode = [], r_Reason = [], r_CheckResults = []\<rparr>"
  let ?s = "SetWithTTLAtEpoch ''d'' ''ns'' ?r 100 0 (\<lambda>_. 0) 0 7 (NewWithGauge 100 1 None)"
  have "snd ?s" by (simp add: SetWithTTLAtEpoch_def NewWithGauge_def)
  then have "?s = (fst ?s, True)" by (metis prod.collapse)
  moreover have "jitter_source (\<lambda>_. 0)" by (simp add: jitter_source_def)
  ultimately show ?thesis using stored_result_lives_for_ttl [of _ _ _ _ _ _ _ _ _ _ 107 id 108] by simp
qed

text \<open>\<open>Get\<close> never returns an expired result, whatever other goroutines do between its two
  critical sections: the result belongs to an entry of the requested key that had not expired when
  the clock was read for it.\<close>

lemma Get_never_expired:
  assumes "snd (cache_Get d ns now between now2 c) = Some r"
  shows "(\<exists>e. c_entries c (d, ns) = Some e \<and> e_result e = r \<and> now \<le> e_expiresAt e)
    \<or> (\<exists>e. c_entries (between c) (d, ns) = Some e \<and> e_result e = r \<and> now2 \<le> e_expiresAt e)"
  using assms by (auto simp: cache_Get_def Let_def not_less split: option.splits if_splits)

lemma Get_never_expired_witness:
  "let r = \<lparr>r_Allowed = True, r_Verified = True, r_Mode = [], r_Reason = [], r_CheckResults = []\<rparr>;
       c = (NewWithGauge 1 5 None)\<lparr>c_entries := [(''d'', ''n'') \<mapsto> \<lparr>e_result = r, e_expiresAt = 9\<rparr>]\<rparr>
   in \<exists>e. c_entries c (''d'', ''n'') = Some e \<and> e_result e = r \<and> 4 \<le> e_expiresAt e"
proof -
  let ?r = "\<lparr>r_Allowed = True, r_Verified = True, r_Mode = [], r_Reason = [], r_CheckResults = []\<rparr>"
  let ?c = "(NewWithGauge 1 5 None)\<lparr>c_entries := [(''d'', ''n'') \<mapsto> \<lparr>e_result = ?r, e_expiresAt = 9\<rparr>]\<rparr>"
  have "snd (cache_Get ''d'' ''n'' 4 id 5 ?c) = Some ?r" by (simp add: cache_Get_def)
  from Get_never_expired [OF this] show ?thesis by simp
qed

text \<open>Eviction only removes what has to go.  Storing a result removes another entry only when
  the cache is full and the key is new, and then that entry had expired or no entry that stays
  expires before it.\<close>

lemma eviction_takes_soonest:
  assumes "cache_run s (NewWithGauge gttl maxSize gauge) n c" and "k \<noteq> (d, ns)"
    and "c_entries c k = Some e"
    and "c_entries (setLocked d ns r ttl rnd nowE now c) k = None"
  shows "int (cache_Len c) = c_maxSize c \<and> c_entries c (d, ns) = None \<and>
    (if nowE > e_expiresAt e then True
     else \<not> (\<exists>k' e'. c_entries (setLocked d ns r ttl rnd nowE now c) k' = Some e' \<and> k' \<noteq> (d, ns)
             \<and> e_expiresAt e' < e_expiresAt e))"
proof -
  have inv: "cache_inv c" using cache_run_inv [OF assms(1) New_inv] .
  let ?x = "evictExpiredLocked nowE c"
  note E = evictExpired_correct [OF cache_inv_wf [OF inv], of nowE]
  have ent: "c_entries (setLocked d ns r ttl rnd nowE now c) k' = c_entries (room_made (d, ns) nowE c) k'"
    if "k' \<noteq> (d, ns)" for k' using that by (simp add: setLocked_split put_entry_fields)
  have gone: "c_entries (room_made (d, ns) nowE c) k = None" using assms(2,4) ent by simp
  then have full: "c_entries c (d, ns) = None" "int (cache_Len c) \<ge> c_maxSize c"
    using assms(3) by (auto simp: room_made_def split: if_splits)
  show ?thesis
  proof (cases "nowE > e_expiresAt e")
    case True
    with full inv show ?thesis by (simp add: cache_inv_def)
  next
    case False
    then have xk: "c_entries ?x k = Some e" using E assms(3) by simp
    with gone full have x: "int (cache_Len ?x) \<ge> c_maxSize ?x"
      and room: "room_made (d, ns) nowE c = evictSoonestExpiringLocked ?x"
      by (auto simp: room_made_def Let_def split: if_splits)
    from evictSoonest_correct [of ?x] E xk obtain k0 e0 where k0: "c_entries ?x k0 = Some e0"
      "\<And>k' e'. c_entries ?x k' = Some e' \<Longrightarrow> e_expiresAt e0 \<le> e_expiresAt e'"
      "c_entries (evictSoonestExpiringLocked ?x) = (c_entries ?x)(k0 := None)"
      by (metis option.distinct(1))
    with gone room xk have "k0 = k" "e0 = e" by (auto split: if_splits)
    then have "\<not> e_expiresAt e' < e_expiresAt e"
      if "c_entries (setLocked d ns r ttl rnd nowE now c) k' = Some e'" "k' \<noteq> (d, ns)" for k' e'
      using that k0(2) [of k' e'] ent [OF that(2)] room k0(3) by (auto split: if_splits)
    with False full inv show ?thesis by (auto simp: cache_inv_def)
  qed
qed


lemma full_cache_replaces:
  assumes inv: "cache_inv c" and c: "c_entries c = [k \<mapsto> e]" "c_maxSize c = 1" "nowE \<le> e_expiresAt e"
    and k: "k \<noteq> (d, ns)"
  shows "c_entries (setLocked d ns r ttl rnd nowE now c) k = None"
proof -
  let ?x = "evictExpiredLocked nowE c"
  note E = evictExpired_correct [OF cache_inv_wf [OF inv], of nowE]
  have x: "c_entries ?x = [k \<mapsto> e]" using E c by (auto simp: fun_eq_iff)
  have len: "cache_Len c = 1" "cache_Len ?x = 1" by (simp_all add: cache_Len_def c x)
  have "c_entries ?x \<noteq> Map.empty" by (simp add: x)
  from evictSoonest_correct [OF _ this] E obtain k0 e0 where
    "c_entries ?x k0 = Some e0" "c_entries (evictSoonestExpiringLocked ?x) = (c_entries ?x)(k0 := None)" by blast
  then have "c_entries (evictSoonestExpiringLocked ?x) = Map.empty" by (auto simp: x split: if_splits)
  moreover have "room_made (d, ns) nowE c = evictSoonestExpiringLocked ?x"
    using len c k E by (simp add: room_made_def)
  ultimately show ?thesis using k by (simp add: setLocked_split put_entry_fields)
qed

lemma eviction_takes_soonest_witness:
  "let r = \<lparr>r_Allowed = True, r_Verified = True, r_Mode = [], r_Reason = [], r_CheckResults = []\<rparr>;
       c = fst (SetWithTTLAtEpoch ''d1'' ''n'' r 100 0 (\<lambda>_. 0) 0 0 (NewWithGauge 100 1 None))
   in int (cache_Len c) = c_maxSize c \<and> c_entries c (''d2'', ''n'') = None
      \<and> c_entries (setLocked ''d2'' ''n'' r 100 (\<lambda>_. 0) 5 5 c) (''d1'', ''n'') = None"
proof -
  let ?r = "\<lparr>r_Allowed = True, r_Verified = True, r_Mode = [], r_Reason = [], r_CheckResults = []\<rparr>"
  let ?c = "fst (SetWithTTLAtEpoch ''d1'' ''n'' ?r 100 0 (\<lambda>_. 0) 0 0 (NewWithGauge 100 1 None))"
  let ?e = "\<lparr>e_result = ?r, e_expiresAt = 100\<rparr>"
  have run: "cache_run 0 (NewWithGauge 100 1 None) 0 ?c" by (intro cache_run.intros)
  have c: "c_entries ?c = [(''d1'', ''n'') \<mapsto> ?e]" "c_maxSize ?c = 1"
    by (simp_all add: SetWithTTLAtEpoch_def setLocked_split put_entry_fields room_made_def NewWithGauge_def
        cache_Len_def jitter_def)
  have gone: "c_entries (setLocked ''d2'' ''n'' ?r 100 (\<lambda>_. 0) 5 5 ?c) (''d1'', ''n'') = None"
    by (rule full_cache_replaces [OF cache_run_inv [OF run New_inv] c]) simp_all
  have "c_entries ?c (''d1'', ''n'') = Some ?e" by (simp add: c)
  from eviction_takes_soonest [OF run _ this gone] gone show ?thesis by simp
qed

section \<open>The contract towards the verifier\<close>

text \<open>What the verifier relies on when it stores results with the epoch it read before it started
  to verify.  \<open>put\<close> and \<open>drop\<close> are the methods at some clock readings and jitter.\<close>

locale epoch_store =
  fixes valid :: "'c \<Rightarrow> bool" and content :: "'c \<Rightarrow> cache_key \<rightharpoonup> cache_entry"
    and epoch :: "'c \<Rightarrow> string \<Rightarrow> 64 word"
    and put :: "string \<Rightarrow> string \<Rightarrow> Result \<Rightarrow> duration \<Rightarrow> 64 word \<Rightarrow> 'c \<Rightarrow> 'c \<times> bool"
    and drop_all :: "string \<Rightarrow> string \<Rightarrow> 'c \<Rightarrow> 'c"
  assumes put_valid: "valid c \<Longrightarrow> valid (fst (put d n r ttl e c))"
    and put_stale: "epoch c d \<noteq> e \<Longrightarrow> put d n r ttl e c = (c, False)"
    and put_content: "put d n r ttl e c = (c', True) \<Longrightarrow> \<exists>x. content c' (d, n) = Some x \<and> e_result x = r"
    and drop_valid: "valid c \<Longrightarrow> valid (drop_all d n c)"
    and drop_content: "valid c \<Longrightarrow> content (drop_all d n c) k =
      (if fst k = d \<and> namespaceKeyMatches (snd k) n then None else content c k)"
    and drop_epoch: "valid c \<Longrightarrow> epoch (drop_all d n c) d = epoch c d + 1"
begin

text \<open>A result verified before an invalidation does not come back after it.\<close>

lemma no_resurrection:
  assumes "valid c" "namespaceKeyMatches m n"
  shows "content (fst (put d m r ttl (epoch c d) (drop_all d n c))) (d, m) = None"
proof -
  have "epoch (drop_all d n c) d \<noteq> epoch c d" using drop_epoch [OF assms(1)] by simp
  then have "put d m r ttl (epoch c d) (drop_all d n c) = (drop_all d n c, False)" by (rule put_stale)
  then show ?thesis using drop_content [OF assms(1), of d n "(d, m)"] assms(2) by simp
qed

text \<open>A result verified after the invalidation is kept.\<close>

lemma fresh_result_kept:
  assumes "put d m r ttl (epoch (drop_all d n c) d) (drop_all d n c) = (c', True)"
  shows "\<exists>x. content c' (d, m) = Some x \<and> e_result x = r"
  using put_content [OF assms] .

end

definition key_order :: "Cache \<Rightarrow> string \<Rightarrow> cache_key list" where
  "key_order c d = sorted_list_of_set (digest_keys c d)"

lemma key_order_valid: "cache_inv c \<Longrightarrow> valid_order c d (key_order c d)"
proof -
  assume inv: "cache_inv c"
  have "digest_keys c d \<subseteq> dom (c_entries c)"
    using digest_keys_iff [OF cache_inv_wf [OF inv]] by blast
  then have "finite (digest_keys c d)" using cache_wfD(8) [OF cache_inv_wf [OF inv]] finite_subset by blast
  then show ?thesis by (simp add: valid_order_def key_order_def)
qed

interpretation rcache: epoch_store cache_inv c_entries cache_Epoch
  "\<lambda>d n r ttl e. SetWithTTLAtEpoch d n r ttl e rnd nowE now"
  "\<lambda>d n c. fst (DeleteAll d n (key_order c d) c)" for rnd nowE now
proof unfold_locales
  fix c c' :: Cache and d n r ttl e k
  show "cache_inv c \<Longrightarrow> cache_inv (fst (SetWithTTLAtEpoch d n r ttl e rnd nowE now c))" by (rule Set_inv)
  show "cache_Epoch c d \<noteq> e \<Longrightarrow> SetWithTTLAtEpoch d n r ttl e rnd nowE now c = (c, False)"
    by (simp add: SetWithTTLAtEpoch_def cache_Epoch_def)
  show "SetWithTTLAtEpoch d n r ttl e rnd nowE now c = (c', True) \<Longrightarrow>
      \<exists>x. c_entries c' (d, n) = Some x \<and> e_result x = r"
    using Set_stored(1) by (metis cache_entry.select_convs(1))
  assume inv: "cache_inv c"
  note v = key_order_valid [OF inv, of d]
  obtain c2 m where D: "DeleteAll d n (key_order c d) c = (c2, m)" by (rule prod.exhaust)
  show "cache_inv (fst (DeleteAll d n (key_order c d) c))" by (rule DeleteAll_inv [OF inv v])
  show "c_entries (fst (DeleteAll d n (key_order c d) c)) k =
      (if fst k = d \<and> namespaceKeyMatches (snd k) n then None else c_entries c k)"
    using DeleteAll_correct(2) [OF cache_inv_wf [OF inv] v D] D by simp
  show "cache_Epoch (fst (DeleteAll d n (key_order c d) c)) d = cache_Epoch c d + 1"
    using DeleteAll_correct(4) [OF cache_inv_wf [OF inv] v D] D by (simp add: cache_Epoch_def)
qed

end
