(* ===== verification/Circuit.thy ===== *)
theory Circuit
  imports Go_Prelude
begin

text \<open>
  The circuit breakers of the registries, \<open>internal/circuit/circuit.go\<close>.  A breaker is a record
  and its methods are functions on it; every method runs under the breaker's mutex.  \<open>Acquire\<close>
  reads the state once before it takes the lock, so the state it then sees is an argument.  The
  registry holds addresses of breakers in a store, because callers keep using a breaker after it
  was evicted.  The counter of consecutive failures is unbounded here; probe numbers and the clock
  of the registry are 64-bit words.
\<close>

section \<open>Breaker\<close>

datatype circuitState = circuitClosed | circuitOpen | circuitHalfOpen

record Breaker =
  cb_state :: circuitState
  cb_consecutiveFailures :: int
  cb_lastFailureTime :: time
  cb_threshold :: int
  cb_cooldown :: duration
  cb_probe :: "64 word"

type_synonym Permit = "64 word"

definition NewBreaker :: "int \<Rightarrow> duration \<Rightarrow> Breaker" where
  "NewBreaker threshold cooldown =
     \<lparr>cb_state = circuitClosed, cb_consecutiveFailures = 0, cb_lastFailureTime = 0,
      cb_threshold = threshold, cb_cooldown = cooldown, cb_probe = 0\<rparr>"

text \<open>\<open>cb0\<close> is the breaker when its state is read, \<open>cb\<close> the breaker once the lock is held.\<close>

definition Acquire_from :: "time \<Rightarrow> Breaker \<Rightarrow> Breaker \<Rightarrow> Breaker \<times> Permit \<times> bool" where
  "Acquire_from now cb0 cb =
     (if cb_state cb0 = circuitClosed then (cb, 0, True)
      else
        (case cb_state cb of
           circuitClosed \<Rightarrow> (cb, 0, True)
         | circuitOpen \<Rightarrow>
             if time_Sub now (cb_lastFailureTime cb) \<ge> cb_cooldown cb then
               (cb\<lparr>cb_state := circuitHalfOpen, cb_probe := cb_probe cb + 1\<rparr>, cb_probe cb + 1, True)
             else (cb, 0, False)
         | circuitHalfOpen \<Rightarrow> (cb, 0, False)))"

definition Acquire :: "time \<Rightarrow> Breaker \<Rightarrow> Breaker \<times> Permit \<times> bool" where
  "Acquire now cb = Acquire_from now cb cb"

definition Allow :: "time \<Rightarrow> Breaker \<Rightarrow> Breaker \<times> bool" where
  "Allow now cb = (let (cb', _, allowed) = Acquire now cb in (cb', allowed))"

definition decidesLocked :: "Breaker \<Rightarrow> Permit \<Rightarrow> bool" where
  "decidesLocked cb permit \<longleftrightarrow> cb_state cb \<noteq> circuitHalfOpen \<or> (permit \<noteq> 0 \<and> permit = cb_probe cb)"

definition recordSuccessLocked :: "Breaker \<Rightarrow> Breaker" where
  "recordSuccessLocked cb = cb\<lparr>cb_consecutiveFailures := 0, cb_state := circuitClosed\<rparr>"

definition recordFailureLocked :: "time \<Rightarrow> Breaker \<Rightarrow> Breaker \<times> bool" where
  "recordFailureLocked now cb =
     (let cb1 = cb\<lparr>cb_consecutiveFailures := cb_consecutiveFailures cb + 1, cb_lastFailureTime := now\<rparr>
      in if cb_consecutiveFailures cb1 \<ge> cb_threshold cb1 then
           (cb1\<lparr>cb_state := circuitOpen\<rparr>, cb_state cb1 = circuitClosed)
         else (cb1, False))"

definition RecordSuccess :: "Breaker \<Rightarrow> Breaker" where
  "RecordSuccess cb = recordSuccessLocked cb"

definition RecordFailure :: "time \<Rightarrow> Breaker \<Rightarrow> Breaker \<times> bool" where
  "RecordFailure now cb = recordFailureLocked now cb"

definition Succeeded :: "Permit \<Rightarrow> Breaker \<Rightarrow> Breaker" where
  "Succeeded permit cb = (if \<not> decidesLocked cb permit then cb else recordSuccessLocked cb)"

definition Failed :: "time \<Rightarrow> Permit \<Rightarrow> Breaker \<Rightarrow> Breaker \<times> bool" where
  "Failed now permit cb = (if \<not> decidesLocked cb permit then (cb, False) else recordFailureLocked now cb)"

definition Release :: "Permit \<Rightarrow> Breaker \<Rightarrow> Breaker" where
  "Release permit cb =
     (if cb_state cb = circuitHalfOpen \<and> permit \<noteq> 0 \<and> permit = cb_probe cb
      then cb\<lparr>cb_state := circuitOpen\<rparr> else cb)"

definition isClosed :: "Breaker \<Rightarrow> bool" where
  "isClosed cb \<longleftrightarrow> cb_state cb = circuitClosed"

definition breakerStateName :: "Breaker \<Rightarrow> string" where
  "breakerStateName cb =
     (case cb_state cb of circuitClosed \<Rightarrow> ''closed'' | circuitOpen \<Rightarrow> ''open'' | circuitHalfOpen \<Rightarrow> ''half-open'')"

section \<open>Registry of breakers\<close>

record registryEntry =
  re_breaker :: nat
  re_lastUsed :: "64 word"

record Registry =
  rg_breakers :: "string \<rightharpoonup> registryEntry"
  rg_store :: "nat \<Rightarrow> Breaker"
  rg_next :: nat
  rg_threshold :: int
  rg_cooldown :: duration
  rg_clock :: "64 word"

definition maxBreakers :: nat where
  "maxBreakers = 1000"

definition NewRegistry :: "int \<Rightarrow> duration \<Rightarrow> Registry" where
  "NewRegistry threshold cooldown =
     \<lparr>rg_breakers = Map.empty, rg_store = (\<lambda>_. NewBreaker threshold cooldown), rg_next = 0,
      rg_threshold = threshold, rg_cooldown = cooldown, rg_clock = 0\<rparr>"

definition evictClosedLocked :: "Registry \<Rightarrow> Registry" where
  "evictClosedLocked r =
     r\<lparr>rg_breakers := (\<lambda>host. case rg_breakers r host of
         None \<Rightarrow> None
       | Some entry \<Rightarrow> if isClosed (rg_store r (re_breaker entry)) then None else Some entry)\<rparr>"

text \<open>\<open>order\<close> is the order in which the map of breakers is visited.\<close>

fun lru_loop :: "(string \<rightharpoonup> registryEntry) \<Rightarrow> string list \<Rightarrow> (string \<times> 64 word) option \<Rightarrow> (string \<times> 64 word) option" where
  "lru_loop breakers [] best = best"
| "lru_loop breakers (host # hosts) best =
     (case breakers host of
        None \<Rightarrow> lru_loop breakers hosts best
      | Some entry \<Rightarrow>
          let used = re_lastUsed entry
          in lru_loop breakers hosts
               (case best of None \<Rightarrow> Some (host, used)
                | Some (_, oldestUse) \<Rightarrow> if used < oldestUse then Some (host, used) else best))"

definition evictLeastRecentlyUsedLocked :: "string list \<Rightarrow> Registry \<Rightarrow> Registry" where
  "evictLeastRecentlyUsedLocked order r =
     (case lru_loop (rg_breakers r) order None of
        None \<Rightarrow> r
      | Some (oldestHost, _) \<Rightarrow> r\<lparr>rg_breakers := (rg_breakers r)(oldestHost := None)\<rparr>)"

definition touch :: "string \<Rightarrow> registryEntry \<Rightarrow> Registry \<Rightarrow> Registry" where
  "touch host entry r =
     r\<lparr>rg_clock := rg_clock r + 1,
       rg_breakers := (rg_breakers r)(host \<mapsto> entry\<lparr>re_lastUsed := rg_clock r + 1\<rparr>)\<rparr>"

definition registry_Get :: "string list \<Rightarrow> string \<Rightarrow> Registry \<Rightarrow> Registry \<times> nat" where
  "registry_Get order host r =
     (case rg_breakers r host of
        Some entry \<Rightarrow> (touch host entry r, re_breaker entry)
      | None \<Rightarrow>
          let r1 = (if card (dom (rg_breakers r)) \<ge> maxBreakers then evictClosedLocked r else r);
              r2 = (if card (dom (rg_breakers r1)) \<ge> maxBreakers
                    then evictLeastRecentlyUsedLocked order r1 else r1);
              addr = rg_next r2;
              r3 = r2\<lparr>rg_store := (rg_store r2)(addr := NewBreaker (rg_threshold r2) (rg_cooldown r2)),
                      rg_next := Suc addr\<rparr>
          in (touch host \<lparr>re_breaker = addr, re_lastUsed = 0\<rparr> r3, addr))"

text \<open>A method of the breaker at an address.\<close>

definition on_breaker :: "nat \<Rightarrow> (Breaker \<Rightarrow> Breaker) \<Rightarrow> Registry \<Rightarrow> Registry" where
  "on_breaker addr f r = r\<lparr>rg_store := (rg_store r)(addr := f (rg_store r addr))\<rparr>"

definition States :: "Registry \<Rightarrow> string \<rightharpoonup> string" where
  "States r = (\<lambda>host. map_option (\<lambda>e. breakerStateName (rg_store r (re_breaker e))) (rg_breakers r host))"

section \<open>Runs of a breaker\<close>

text \<open>The requests in flight hold the permits \<open>ps\<close>, and \<open>n\<close> probes were started so far.  A request that
  was admitted ends with exactly one outcome.  \<open>br_fast\<close> is an \<open>Acquire\<close> that read a closed state
  before another request tripped the breaker.\<close>

inductive breaker_run :: "Breaker \<Rightarrow> nat \<Rightarrow> Permit list \<Rightarrow> Breaker \<Rightarrow> bool" for b0 where
  br_start: "breaker_run b0 0 [] b0"
| br_acquire: "breaker_run b0 n ps b \<Longrightarrow> Acquire now b = (b', p, True) \<Longrightarrow>
    breaker_run b0 (if cb_state b = circuitOpen then Suc n else n) (p # ps) b'"
| br_refused: "breaker_run b0 n ps b \<Longrightarrow> Acquire now b = (b', p, False) \<Longrightarrow> breaker_run b0 n ps b'"
| br_fast: "breaker_run b0 n ps b \<Longrightarrow> breaker_run b0 n (0 # ps) b"
| br_success: "breaker_run b0 n ps b \<Longrightarrow> p \<in> set ps \<Longrightarrow> breaker_run b0 n (remove1 p ps) (Succeeded p b)"
| br_failure: "breaker_run b0 n ps b \<Longrightarrow> p \<in> set ps \<Longrightarrow> breaker_run b0 n (remove1 p ps) (fst (Failed now p b))"
| br_release: "breaker_run b0 n ps b \<Longrightarrow> p \<in> set ps \<Longrightarrow> breaker_run b0 n (remove1 p ps) (Release p b)"

definition breaker_inv :: "Breaker \<Rightarrow> bool" where
  "breaker_inv b \<longleftrightarrow>
     (cb_state b \<noteq> circuitClosed \<longrightarrow> cb_consecutiveFailures b \<ge> cb_threshold b \<and> cb_consecutiveFailures b > 0) \<and>
     0 \<le> cb_consecutiveFailures b \<and>
     (cb_state b = circuitClosed \<and> 0 < cb_threshold b \<longrightarrow> cb_consecutiveFailures b < cb_threshold b)"

lemmas breaker_defs =
  Acquire_def Acquire_from_def Succeeded_def Failed_def Release_def decidesLocked_def
  recordSuccessLocked_def recordFailureLocked_def Let_def

lemma breaker_inv_Acquire: "breaker_inv b \<Longrightarrow> breaker_inv (fst (Acquire now b))"
  by (auto simp: breaker_inv_def breaker_defs split: circuitState.splits)

lemma breaker_inv_Succeeded: "breaker_inv b \<Longrightarrow> breaker_inv (Succeeded p b)"
  by (auto simp: breaker_inv_def breaker_defs)

lemma breaker_inv_Failed: "breaker_inv b \<Longrightarrow> breaker_inv (fst (Failed now p b))"
  by (cases "cb_state b") (auto simp: breaker_inv_def breaker_defs)

lemma breaker_inv_Release: "breaker_inv b \<Longrightarrow> breaker_inv (Release p b)"
  by (auto simp: breaker_inv_def breaker_defs)

lemma breaker_run_inv: "breaker_run b0 n ps b \<Longrightarrow> breaker_inv b0 \<Longrightarrow> breaker_inv b"
proof (induction rule: breaker_run.induct)
  case (br_acquire n ps b now b' p)
  then show ?case using breaker_inv_Acquire [of b now] by simp
next
  case (br_refused n ps b now b' p)
  then show ?case using breaker_inv_Acquire [of b now] by simp
qed (simp_all add: breaker_inv_Succeeded breaker_inv_Failed breaker_inv_Release)

lemma New_breaker_inv: "breaker_inv (NewBreaker t cd)"
  by (simp add: breaker_inv_def NewBreaker_def)

lemma breaker_params:
  "cb_threshold (fst (Failed now p b)) = cb_threshold b" "cb_threshold (Succeeded p b) = cb_threshold b"
  "cb_threshold (Release p b) = cb_threshold b" "cb_probe (fst (Failed now p b)) = cb_probe b"
  "cb_probe (Succeeded p b) = cb_probe b" "cb_probe (Release p b) = cb_probe b"
  by (auto simp: breaker_defs)

text \<open>While fewer than \<open>2 ^ 64\<close> probes were started, probe permits in flight are distinct, and the permit
  of the current probe is in flight whenever the breaker is half-open.\<close>

definition probe_inv :: "nat \<Rightarrow> Permit list \<Rightarrow> Breaker \<Rightarrow> bool" where
  "probe_inv n ps b \<longleftrightarrow>
     cb_probe b = of_nat n \<and> (\<forall>p\<in>set ps. p \<noteq> 0 \<longrightarrow> (\<exists>i. 1 \<le> i \<and> i \<le> n \<and> p = of_nat i)) \<and>
     distinct (filter (\<lambda>p. p \<noteq> 0) ps) \<and>
     (cb_state b = circuitHalfOpen \<longrightarrow> cb_probe b \<noteq> 0 \<and> cb_probe b \<in> set ps)"

lemma of_nat_word64_inj: "i < 2 ^ 64 \<Longrightarrow> j < 2 ^ 64 \<Longrightarrow> (of_nat i :: 64 word) = of_nat j \<longleftrightarrow> i = j"
  by (simp add: word_of_nat_eq_iff take_bit_nat_eq_self)

lemma probe_inv_acquire:
  assumes "probe_inv n ps b" "Acquire now b = (b', p, True)"
    and "(if cb_state b = circuitOpen then Suc n else n) < 2 ^ 64"
  shows "probe_inv (if cb_state b = circuitOpen then Suc n else n) (p # ps) b'"
proof (cases "cb_state b")
  case circuitOpen
  then have p: "p = of_nat (Suc n)" "b' = b\<lparr>cb_state := circuitHalfOpen, cb_probe := of_nat (Suc n)\<rparr>"
    using assms(1,2) by (auto simp: breaker_defs probe_inv_def add.commute split: if_splits)
  have "p \<noteq> 0" using of_nat_word64_inj [of "Suc n" 0] assms(3) circuitOpen p by simp
  moreover have "p \<notin> set ps"
  proof
    assume "p \<in> set ps"
    with assms(1) \<open>p \<noteq> 0\<close> obtain i where "i \<le> n" "p = of_nat i" by (auto simp: probe_inv_def)
    with of_nat_word64_inj [of "Suc n" i] assms(3) circuitOpen p show False by auto
  qed
  ultimately show ?thesis
    using assms(1) circuitOpen p by (auto simp: probe_inv_def) (metis le_Suc_eq)
qed (use assms in \<open>auto simp: breaker_defs probe_inv_def\<close>)

lemma probe_inv_outcome:
  assumes "probe_inv n ps b" "cb_probe b' = cb_probe b"
    and "cb_state b' = circuitHalfOpen \<Longrightarrow> cb_state b = circuitHalfOpen \<and> p \<noteq> cb_probe b"
  shows "probe_inv n (remove1 p ps) b'"
  using assms by (auto simp: probe_inv_def filter_remove1 dest: notin_set_remove1)

lemma outcome_half_open:
  assumes "breaker_inv b"
  shows "cb_state (Succeeded p b) = circuitHalfOpen \<Longrightarrow> cb_state b = circuitHalfOpen \<and> (p = 0 \<or> p \<noteq> cb_probe b)"
    "cb_state (fst (Failed now p b)) = circuitHalfOpen \<Longrightarrow> cb_state b = circuitHalfOpen \<and> (p = 0 \<or> p \<noteq> cb_probe b)"
    "cb_state (Release p b) = circuitHalfOpen \<Longrightarrow> cb_state b = circuitHalfOpen \<and> (p = 0 \<or> p \<noteq> cb_probe b)"
  using assms by (auto simp: breaker_defs breaker_inv_def split: if_splits)

lemma breaker_run_probe_inv:
  assumes "breaker_run (NewBreaker t cd) n ps b" "n < 2 ^ 64"
  shows "probe_inv n ps b"
  using assms
proof (induction rule: breaker_run.induct)
  case br_start
  then show ?case by (simp add: probe_inv_def NewBreaker_def)
next
  case (br_acquire n ps b now b' p)
  have "n < 2 ^ 64" using br_acquire.prems by (auto split: if_splits)
  with br_acquire probe_inv_acquire show ?case by blast
next
  case (br_refused n ps b now b' p)
  then have "b' = b" by (auto simp: breaker_defs split: circuitState.splits if_splits)
  with br_refused show ?case by simp
next
  case (br_fast n ps b)
  then show ?case by (auto simp: probe_inv_def)
next
  case (br_success n ps b p)
  then have "breaker_inv b" "probe_inv n ps b" using breaker_run_inv New_breaker_inv by blast+
  with outcome_half_open(1) [of b p] show ?case
    by (intro probe_inv_outcome) (auto simp: breaker_params probe_inv_def)
next
  case (br_failure n ps b p now)
  then have "breaker_inv b" "probe_inv n ps b" using breaker_run_inv New_breaker_inv by blast+
  with outcome_half_open(2) [of b now p] show ?case
    by (intro probe_inv_outcome) (auto simp: breaker_params probe_inv_def)
next
  case (br_release n ps b p)
  then have "breaker_inv b" "probe_inv n ps b" using breaker_run_inv New_breaker_inv by blast+
  with outcome_half_open(3) [of b p] show ?case
    by (intro probe_inv_outcome) (auto simp: breaker_params probe_inv_def)
qed

section \<open>Properties of the breaker\<close>

lemma no_occurrence: "x \<notin> set ps \<Longrightarrow> filter (\<lambda>p. p = x) ps = []"
  by (induction ps) auto

lemma single_occurrence:
  "P x \<Longrightarrow> distinct (filter P ps) \<Longrightarrow> x \<in> set ps \<Longrightarrow> length (filter (\<lambda>p. p = x) ps) = 1"
  by (induction ps) (auto simp: no_occurrence split: if_splits)

text \<open>C11: a half-open breaker admits one probe and listens to nobody else.  In every reachable
  half-open state the probe is in flight, every further request is refused, and the outcome of any
  other request in flight leaves the breaker exactly as it is, while the outcome of the probe closes
  it (success) or opens it again (failure or no outcome), so it cannot stay half-open.\<close>

theorem half_open_single_probe:
  assumes "breaker_run (NewBreaker t cd) n ps b" and "n < 2 ^ 64" and "cb_state b = circuitHalfOpen"
  shows "(\<exists>p. p \<in> set ps \<and> p = cb_probe b \<and> cb_state (Succeeded p b) = circuitClosed
            \<and> cb_state (fst (Failed now p b)) = circuitOpen \<and> cb_state (Release p b) = circuitOpen)
    \<and> length (filter (\<lambda>p. p = cb_probe b) ps) = 1
    \<and> Acquire now b = (b, 0, False)
    \<and> (if p' = cb_probe b then True
       else Succeeded p' b = b \<and> Failed now p' b = (b, False) \<and> Release p' b = b)"
proof -
  have pi: "probe_inv n ps b" using breaker_run_probe_inv [OF assms(1,2)] .
  have bi: "breaker_inv b" using breaker_run_inv [OF assms(1) New_breaker_inv] .
  have pr: "cb_probe b \<noteq> 0" "cb_probe b \<in> set ps" using pi assms(3) by (auto simp: probe_inv_def)
  have one: "length (filter (\<lambda>p. p = cb_probe b) ps) = 1"
    using pi pr by (intro single_occurrence [of "\<lambda>p. p \<noteq> 0"]) (auto simp: probe_inv_def)
  show ?thesis using pr one bi assms(3) by (auto simp: breaker_defs breaker_inv_def)
qed

theorem half_open_single_probe_witness:
  "let b = fst (Acquire 50 (fst (Failed 0 0 (NewBreaker 1 10))))
   in Acquire 51 b = (b, 0, False) \<and> Succeeded 0 b = b"
proof -
  let ?b1 = "fst (Failed 0 0 (NewBreaker 1 10))"
  let ?b = "fst (Acquire 50 ?b1)"
  have "breaker_run (NewBreaker 1 10) 0 [0] (NewBreaker 1 10)" by (intro br_fast br_start)
  then have "breaker_run (NewBreaker 1 10) 0 (remove1 0 [0]) ?b1" by (rule br_failure) simp
  moreover have "Acquire 50 ?b1 = (?b, 1, True)"
    by (simp add: breaker_defs NewBreaker_def time_Sub_def int64_min_def int64_max_def)
  ultimately have "breaker_run (NewBreaker 1 10) (if cb_state ?b1 = circuitOpen then Suc 0 else 0) (1 # remove1 0 [0]) ?b"
    by (rule br_acquire)
  moreover have "cb_state ?b1 = circuitOpen" "cb_state ?b = circuitHalfOpen" "cb_probe ?b = 1"
    by (simp_all add: breaker_defs NewBreaker_def time_Sub_def int64_min_def int64_max_def)
  ultimately show ?thesis
    using half_open_single_probe [of 1 10 1 "[1]" ?b 51 0] by simp
qed

text \<open>A breaker is closed exactly while it has seen fewer consecutive failures than its
  threshold.  In every reachable state of a breaker with a positive threshold, closed means fewer
  failures than the threshold and admits every request; otherwise at least as many failures were
  seen and an open breaker refuses every request until the cooldown has elapsed.\<close>

lemma breaker_threshold:
  assumes "breaker_run (NewBreaker t cd) n ps b" and "0 < t"
  shows "(cb_state b = circuitClosed \<longleftrightarrow> cb_consecutiveFailures b < t)
    \<and> (cb_state b = circuitClosed \<longrightarrow> Acquire now b = (b, 0, True))
    \<and> (cb_state b = circuitOpen \<longrightarrow>
         snd (snd (Acquire now b)) = (time_Sub now (cb_lastFailureTime b) \<ge> cd))"
proof -
  have "cb_threshold b = t \<and> cb_cooldown b = cd"
    using assms(1) by (induction rule: breaker_run.induct)
      (auto simp: NewBreaker_def breaker_defs split: circuitState.splits if_splits)
  then show ?thesis
    using breaker_run_inv [OF assms(1) New_breaker_inv] assms(2)
    by (auto simp: breaker_inv_def breaker_defs)
qed

lemma breaker_threshold_witness:
  "cb_state (fst (Failed 7 0 (NewBreaker 2 10))) = circuitClosed"
proof -
  have "breaker_run (NewBreaker 2 10) 0 [0] (NewBreaker 2 10)" by (intro br_fast br_start)
  then have "breaker_run (NewBreaker 2 10) 0 (remove1 0 [0]) (fst (Failed 7 0 (NewBreaker 2 10)))"
    by (rule br_failure) simp
  from breaker_threshold [OF this] show ?thesis by (simp add: breaker_defs NewBreaker_def)
qed

section \<open>The contract of a permit\<close>

text \<open>What the callers of a breaker rely on: every admitted request reports one outcome with its permit,
  and after the outcome of its probe a gate is not half-open any more.\<close>

datatype outcome = OutSuccess | OutFailure | OutNone

fun finish :: "time \<Rightarrow> outcome \<Rightarrow> Permit \<Rightarrow> Breaker \<Rightarrow> Breaker" where
  "finish now OutSuccess p b = Succeeded p b"
| "finish now OutFailure p b = fst (Failed now p b)"
| "finish now OutNone p b = Release p b"

locale permit_gate =
  fixes sound :: "'b \<Rightarrow> bool" and probing :: "'b \<Rightarrow> bool" and numbered :: "'b \<Rightarrow> bool"
    and acquire :: "'b \<Rightarrow> 'b \<times> 'p \<times> bool" and report :: "outcome \<Rightarrow> 'p \<Rightarrow> 'b \<Rightarrow> 'b"
  assumes acquire_sound: "sound b \<Longrightarrow> sound (fst (acquire b))"
    and report_sound: "sound b \<Longrightarrow> sound (report r p b)"
    and refused_unchanged: "acquire b = (b', p, False) \<Longrightarrow> b' = b"
    and probe_decides: "sound b \<Longrightarrow> numbered b \<Longrightarrow> \<not> probing b \<Longrightarrow> acquire b = (b', p, True) \<Longrightarrow>
      probing b' \<Longrightarrow> \<not> probing (report r p b')"
    and report_not_probing: "\<not> probing b \<Longrightarrow> \<not> probing (report r p b)"
    and probing_refuses: "probing b \<Longrightarrow> acquire b = (b', p, ok) \<Longrightarrow> \<not> ok"
begin

text \<open>A caller that reports an outcome for every admitted request never leaves the gate probing, as
  long as the next probe number does not wrap around to zero.\<close>

lemma call_not_stuck:
  assumes "sound b" "numbered b" "\<not> probing b" "acquire b = (b', p, ok)"
  shows "\<not> probing (if ok then report r p b' else b')"
proof (cases ok)
  case True
  with assms probe_decides report_not_probing show ?thesis by (cases "probing b'") auto
next
  case False
  with assms refused_unchanged [of b b' p] show ?thesis by auto
qed

text \<open>A caller that does not report leaves a probing gate closed for everybody.\<close>

lemma probing_blocks:
  assumes "probing b" "acquire b = (b', p, ok)"
  shows "b' = b \<and> \<not> ok"
  using probing_refuses [OF assms] refused_unchanged assms(2) by (cases ok) auto

end

interpretation breaker_gate: permit_gate breaker_inv "\<lambda>b. cb_state b = circuitHalfOpen"
  "\<lambda>b. cb_probe b + 1 \<noteq> 0" "Acquire now" "finish now'" for now now'
proof unfold_locales
  fix b b' :: Breaker and r p ok
  show "breaker_inv b \<Longrightarrow> breaker_inv (fst (Acquire now b))" by (rule breaker_inv_Acquire)
  show "breaker_inv b \<Longrightarrow> breaker_inv (finish now' r p b)"
    by (cases r) (simp_all add: breaker_inv_Succeeded breaker_inv_Failed breaker_inv_Release)
  show "Acquire now b = (b', p, False) \<Longrightarrow> b' = b"
    by (auto simp: breaker_defs split: circuitState.splits if_splits)
  show "cb_state b = circuitHalfOpen \<Longrightarrow> Acquire now b = (b', p, ok) \<Longrightarrow> \<not> ok"
    by (simp add: breaker_defs)
  show "cb_state b \<noteq> circuitHalfOpen \<Longrightarrow> cb_state (finish now' r p b) \<noteq> circuitHalfOpen"
    by (cases r) (auto simp: breaker_defs)
  show "cb_state (finish now' r p b') \<noteq> circuitHalfOpen"
    if "breaker_inv b" "cb_probe b + 1 \<noteq> 0" "cb_state b \<noteq> circuitHalfOpen" "Acquire now b = (b', p, True)"
      "cb_state b' = circuitHalfOpen"
    using that by (cases r; cases "cb_state b") (auto simp: breaker_defs breaker_inv_def split: if_splits)
qed

section \<open>Properties of the registry\<close>

text \<open>The map of breakers a \<open>Get\<close> of a new host searches for the least recently used one.\<close>

definition valid_hosts :: "Registry \<Rightarrow> string list \<Rightarrow> bool" where
  "valid_hosts r order \<longleftrightarrow> set order = dom (rg_breakers (evictClosedLocked r))"

definition registry_inv :: "Registry \<Rightarrow> bool" where
  "registry_inv r \<longleftrightarrow>
     finite (dom (rg_breakers r)) \<and> card (dom (rg_breakers r)) \<le> maxBreakers \<and>
     (\<forall>h e. rg_breakers r h = Some e \<longrightarrow> re_breaker e < rg_next r) \<and>
     (\<forall>h h' e e'. rg_breakers r h = Some e \<and> rg_breakers r h' = Some e' \<and> re_breaker e = re_breaker e' \<longrightarrow> h = h')"

text \<open>A run of the registry: lookups, and methods of breakers that were handed out.\<close>

inductive registry_run :: "Registry \<Rightarrow> Registry \<Rightarrow> bool" for r0 where
  rr_start: "registry_run r0 r0"
| rr_get: "registry_run r0 r \<Longrightarrow> valid_hosts r order \<Longrightarrow> registry_run r0 (fst (registry_Get order host r))"
| rr_method: "registry_run r0 r \<Longrightarrow> addr < rg_next r \<Longrightarrow> registry_run r0 (on_breaker addr f r)"

lemma evictClosed_fields:
  "rg_store (evictClosedLocked r) = rg_store r" "rg_next (evictClosedLocked r) = rg_next r"
  "rg_breakers (evictClosedLocked r) h = Some e \<longleftrightarrow>
     rg_breakers r h = Some e \<and> \<not> isClosed (rg_store r (re_breaker e))"
  "rg_breakers (evictClosedLocked r) h = None \<longleftrightarrow>
     (\<forall>e. rg_breakers r h = Some e \<longrightarrow> isClosed (rg_store r (re_breaker e)))"
  by (auto simp: evictClosedLocked_def split: option.splits if_splits)

lemma lru_loop_min:
  "lru_loop m hosts best = Some (h, u) \<Longrightarrow>
     (\<exists>e. m h = Some e \<and> h \<in> set hosts \<and> re_lastUsed e = u \<or> best = Some (h, u)) \<and>
     (\<forall>h' e'. h' \<in> set hosts \<and> m h' = Some e' \<longrightarrow> u \<le> re_lastUsed e') \<and>
     (\<forall>h0 u0. best = Some (h0, u0) \<longrightarrow> u \<le> u0)"
proof (induction hosts arbitrary: best)
  case (Cons x xs)
  show ?case
  proof (cases "m x")
    case None
    with Cons show ?thesis by fastforce
  next
    case (Some ex)
    let ?b = "case best of None \<Rightarrow> Some (x, re_lastUsed ex)
      | Some (_, o') \<Rightarrow> if re_lastUsed ex < o' then Some (x, re_lastUsed ex) else best"
    have IH: "(\<exists>e. m h = Some e \<and> h \<in> set xs \<and> re_lastUsed e = u \<or> ?b = Some (h, u)) \<and>
        (\<forall>h' e'. h' \<in> set xs \<and> m h' = Some e' \<longrightarrow> u \<le> re_lastUsed e') \<and>
        (\<forall>h0 u0. ?b = Some (h0, u0) \<longrightarrow> u \<le> u0)"
      using Cons.IH [of ?b] Cons.prems Some by (simp add: Let_def)
    have "u \<le> re_lastUsed ex" "\<forall>h0 u0. best = Some (h0, u0) \<longrightarrow> u \<le> u0"
      using IH by (auto split: option.splits if_splits)
    moreover have "?b = Some (h, u) \<Longrightarrow> h = x \<and> re_lastUsed ex = u \<or> best = Some (h, u)"
      by (auto split: option.splits if_splits)
    ultimately show ?thesis using IH Some by auto
  qed
qed simp

lemma lru_loop_Some: "h \<in> set hosts \<Longrightarrow> m h \<noteq> None \<Longrightarrow> lru_loop m hosts best \<noteq> None"
proof -
  have keep: "best \<noteq> None \<Longrightarrow> lru_loop m hosts best \<noteq> None" for best hosts
    by (induction hosts arbitrary: best) (auto simp: Let_def split: option.splits)
  show "h \<in> set hosts \<Longrightarrow> m h \<noteq> None \<Longrightarrow> lru_loop m hosts best \<noteq> None"
    by (induction hosts arbitrary: best) (auto simp: keep Let_def simp del: not_None_eq split: option.splits)
qed

lemma evictLRU_correct:
  assumes "set order = dom (rg_breakers r)" "rg_breakers r \<noteq> Map.empty"
  shows "\<exists>h e. rg_breakers r h = Some e \<and>
      evictLeastRecentlyUsedLocked order r = r\<lparr>rg_breakers := (rg_breakers r)(h := None)\<rparr> \<and>
      (\<forall>h' e'. rg_breakers r h' = Some e' \<longrightarrow> re_lastUsed e \<le> re_lastUsed e')"
proof -
  obtain h0 e0 where "rg_breakers r h0 = Some e0" using assms(2) by (metis not_None_eq ext)
  then have "lru_loop (rg_breakers r) order None \<noteq> None"
    using assms(1) by (intro lru_loop_Some [of h0]) auto
  then obtain h u where hu: "lru_loop (rg_breakers r) order None = Some (h, u)" by fastforce
  from lru_loop_min [OF this] obtain e where "rg_breakers r h = Some e" "re_lastUsed e = u"
    "\<forall>h' e'. h' \<in> set order \<and> rg_breakers r h' = Some e' \<longrightarrow> u \<le> re_lastUsed e'" by auto
  with hu assms(1) show ?thesis
    by (intro exI [of _ h] exI [of _ e]) (auto simp: evictLeastRecentlyUsedLocked_def)
qed

text \<open>What a \<open>Get\<close> of a new host evicts before it inserts.\<close>

definition evicted :: "string list \<Rightarrow> Registry \<Rightarrow> Registry" where
  "evicted order r =
     (let r1 = (if card (dom (rg_breakers r)) \<ge> maxBreakers then evictClosedLocked r else r)
      in if card (dom (rg_breakers r1)) \<ge> maxBreakers then evictLeastRecentlyUsedLocked order r1 else r1)"

lemma registry_Get_new:
  "rg_breakers r host = None \<Longrightarrow>
   registry_Get order host r =
     (let r2 = evicted order r; addr = rg_next r2;
          r3 = r2\<lparr>rg_store := (rg_store r2)(addr := NewBreaker (rg_threshold r2) (rg_cooldown r2)), rg_next := Suc addr\<rparr>
      in (touch host \<lparr>re_breaker = addr, re_lastUsed = 0\<rparr> r3, addr))"
  by (simp add: registry_Get_def evicted_def Let_def)

lemma evicted_correct:
  assumes inv: "registry_inv r" and ord: "valid_hosts r order"
  shows "rg_store (evicted order r) = rg_store r" "rg_next (evicted order r) = rg_next r"
    "\<And>h e. rg_breakers (evicted order r) h = Some e \<Longrightarrow> rg_breakers r h = Some e"
    "card (dom (rg_breakers (evicted order r))) < maxBreakers"
    "\<And>h e. rg_breakers r h = Some e \<Longrightarrow> \<not> isClosed (rg_store r (re_breaker e)) \<Longrightarrow>
        rg_breakers (evicted order r) h = None \<Longrightarrow>
        \<forall>h' e'. rg_breakers r h' = Some e' \<and> \<not> isClosed (rg_store r (re_breaker e')) \<longrightarrow> re_lastUsed e \<le> re_lastUsed e'"
proof -
  let ?c = "evictClosedLocked r"
  have fin: "finite (dom (rg_breakers r))" using inv by (simp add: registry_inv_def)
  have sub: "dom (rg_breakers ?c) \<subseteq> dom (rg_breakers r)" using evictClosed_fields(3) [of r] by blast
  have "rg_store (evicted order r) = rg_store r \<and> rg_next (evicted order r) = rg_next r \<and>
    (\<forall>h e. rg_breakers (evicted order r) h = Some e \<longrightarrow> rg_breakers r h = Some e) \<and>
    card (dom (rg_breakers (evicted order r))) < maxBreakers \<and>
    (\<forall>h e. rg_breakers r h = Some e \<and> \<not> isClosed (rg_store r (re_breaker e)) \<and>
        rg_breakers (evicted order r) h = None \<longrightarrow>
        (\<forall>h' e'. rg_breakers r h' = Some e' \<and> \<not> isClosed (rg_store r (re_breaker e')) \<longrightarrow> re_lastUsed e \<le> re_lastUsed e'))"
  proof (cases "card (dom (rg_breakers r)) \<ge> maxBreakers")
    case False
    then show ?thesis by (auto simp: evicted_def Let_def)
  next
    case full: True
    show ?thesis
    proof (cases "card (dom (rg_breakers ?c)) \<ge> maxBreakers")
      case False
      then show ?thesis using full evictClosed_fields [of r] by (auto simp: evicted_def Let_def)
    next
      case True
      then have "rg_breakers ?c \<noteq> Map.empty" by (auto simp: maxBreakers_def)
      from evictLRU_correct [OF _ this] ord obtain h e where he: "rg_breakers ?c h = Some e"
        "evictLeastRecentlyUsedLocked order ?c = ?c\<lparr>rg_breakers := (rg_breakers ?c)(h := None)\<rparr>"
        "\<And>h' e'. rg_breakers ?c h' = Some e' \<Longrightarrow> re_lastUsed e \<le> re_lastUsed e'"
        unfolding valid_hosts_def by blast
      have ev: "evicted order r = ?c\<lparr>rg_breakers := (rg_breakers ?c)(h := None)\<rparr>"
        using full True he(2) by (simp add: evicted_def Let_def)
      have "card (dom (rg_breakers ?c) - {h}) < card (dom (rg_breakers ?c))"
        using he(1) finite_subset [OF sub fin] by (intro card_Diff1_less) auto
      then have "card (dom (rg_breakers (evicted order r))) < maxBreakers"
        using card_mono [OF fin sub] inv by (simp add: ev registry_inv_def)
      then show ?thesis
        using he evictClosed_fields [of r] by (auto simp: ev split: if_splits)
    qed
  qed
  then show "rg_store (evicted order r) = rg_store r" "rg_next (evicted order r) = rg_next r"
    "\<And>h e. rg_breakers (evicted order r) h = Some e \<Longrightarrow> rg_breakers r h = Some e"
    "card (dom (rg_breakers (evicted order r))) < maxBreakers"
    "\<And>h e. rg_breakers r h = Some e \<Longrightarrow> \<not> isClosed (rg_store r (re_breaker e)) \<Longrightarrow>
        rg_breakers (evicted order r) h = None \<Longrightarrow>
        \<forall>h' e'. rg_breakers r h' = Some e' \<and> \<not> isClosed (rg_store r (re_breaker e')) \<longrightarrow> re_lastUsed e \<le> re_lastUsed e'"
    by blast+
qed

lemma registry_Get_inv:
  assumes inv: "registry_inv r" and ord: "valid_hosts r order"
  shows "registry_inv (fst (registry_Get order host r))"
proof (cases "rg_breakers r host")
  case None
  note E = evicted_correct [OF assms]
  have fin: "finite (dom (rg_breakers (evicted order r)))"
    using inv E(3) by (auto simp: registry_inv_def intro: finite_subset [of _ "dom (rg_breakers r)"])
  have "rg_breakers (evicted order r) host = None" using E(3) None by (metis not_None_eq)
  then have "card (insert host (dom (rg_breakers (evicted order r)))) \<le> maxBreakers"
    using E(4) fin by (simp add: card_insert_if domIff)
  then show ?thesis
    using inv E(2,3) fin unfolding registry_Get_new [OF None]
    by (fastforce simp: registry_inv_def Let_def touch_def less_Suc_eq split: if_splits)
next
  case (Some e)
  then have "insert host (dom (rg_breakers r)) = dom (rg_breakers r)" by auto
  then show ?thesis
    using inv Some by (auto simp: registry_inv_def registry_Get_def touch_def split: if_splits)
qed

lemma on_breaker_inv: "registry_inv r \<Longrightarrow> registry_inv (on_breaker a f r)"
  by (simp add: registry_inv_def on_breaker_def)

lemma registry_run_inv: "registry_run (NewRegistry t cd) r \<Longrightarrow> registry_inv r"
  by (induction rule: registry_run.induct)
    (simp_all add: registry_Get_inv on_breaker_inv, simp add: registry_inv_def NewRegistry_def)

text \<open>C24: hosts are isolated and the registry is bounded.  In every reachable state the registry holds at
  most 1000 breakers; a lookup hands out a breaker that no other host has, and whatever is done to that
  breaker leaves the breakers of all other hosts as they were.\<close>

theorem registry_isolation:
  assumes "registry_run (NewRegistry t cd) r" and "valid_hosts r order"
    and "registry_Get order host r = (r', addr)" and "host' \<noteq> host" and "rg_breakers r' host' = Some e'"
  shows "card (dom (rg_breakers r')) \<le> 1000 \<and> (\<exists>e. rg_breakers r' host = Some e \<and> re_breaker e = addr)
    \<and> re_breaker e' \<noteq> addr
    \<and> rg_store (on_breaker addr f r') (re_breaker e') = rg_store r (re_breaker e')
    \<and> rg_breakers r host' = Some e'"
proof -
  have inv: "registry_inv r" by (rule registry_run_inv [OF assms(1)])
  have inv': "registry_inv r'" using registry_Get_inv [OF inv assms(2), of host] assms(3) by simp
  note E = evicted_correct [OF inv assms(2)]
  have host: "\<exists>e. rg_breakers r' host = Some e \<and> re_breaker e = addr"
    using assms(3) by (auto simp: registry_Get_def touch_def Let_def split: option.splits)
  with inv' assms(4,5) have ne: "re_breaker e' \<noteq> addr" by (fastforce simp: registry_inv_def)
  have old: "rg_breakers r host' = Some e' \<and> rg_store r' (re_breaker e') = rg_store r (re_breaker e')"
  proof (cases "rg_breakers r host")
    case None
    with assms(3-5) E(1-3) show ?thesis
      unfolding registry_Get_new [OF None] using ne by (auto simp: Let_def touch_def)
  next
    case (Some e)
    with assms(3-5) show ?thesis by (auto simp: registry_Get_def touch_def)
  qed
  show ?thesis using inv' host ne old by (simp add: registry_inv_def maxBreakers_def on_breaker_def)
qed

theorem registry_isolation_witness:
  "rg_store (on_breaker 1 (\<lambda>b. fst (Failed 0 0 b))
      (fst (registry_Get [] ''a.io'' (fst (registry_Get [] ''b.io'' (NewRegistry 3 10)))))) 0 = NewBreaker 3 10"
proof -
  let ?r = "fst (registry_Get [] ''b.io'' (NewRegistry 3 10))"
  let ?r' = "fst (registry_Get [] ''a.io'' ?r)"
  have "valid_hosts (NewRegistry 3 10) []"
    by (simp add: valid_hosts_def evictClosedLocked_def NewRegistry_def)
  then have run: "registry_run (NewRegistry 3 10) ?r" by (intro registry_run.intros)
  have r: "?r = (NewRegistry 3 10)\<lparr>rg_clock := 1, rg_next := 1,
      rg_breakers := [''b.io'' \<mapsto> \<lparr>re_breaker = 0, re_lastUsed = 1\<rparr>]\<rparr>"
    by (simp add: registry_Get_def NewRegistry_def touch_def Let_def maxBreakers_def fun_eq_iff)
  have v: "valid_hosts ?r []"
    unfolding r
    by (auto simp: valid_hosts_def evictClosedLocked_def NewRegistry_def isClosed_def NewBreaker_def
        split: option.splits if_splits)
  have g: "registry_Get [] ''a.io'' ?r = (?r', 1)"
    by (simp add: r registry_Get_def NewRegistry_def touch_def Let_def maxBreakers_def)
  have e: "rg_breakers ?r' ''b.io'' = Some \<lparr>re_breaker = 0, re_lastUsed = 1\<rparr>"
    by (simp add: r registry_Get_def NewRegistry_def touch_def Let_def maxBreakers_def)
  from registry_isolation [OF run v g _ e, of "\<lambda>b. fst (Failed 0 0 b)"] r show ?thesis
    by (simp add: NewRegistry_def)
qed

text \<open>Eviction prefers breakers without state.  When a lookup drops an open or half-open breaker, no
  closed breaker is left in the registry that it could have dropped instead, and no open or
  half-open one was used less recently.\<close>

lemma registry_eviction:
  assumes "registry_run (NewRegistry t cd) r" and "valid_hosts r order"
    and "registry_Get order host r = (r', addr)" and "rg_breakers r host' = Some e'"
    and "\<not> isClosed (rg_store r (re_breaker e'))" and "rg_breakers r' host' = None"
  shows "\<not> (\<exists>h e. h \<noteq> host \<and> rg_breakers r' h = Some e \<and>
      (isClosed (rg_store r (re_breaker e)) \<or> re_lastUsed e < re_lastUsed e'))"
proof -
  have inv: "registry_inv r" by (rule registry_run_inv [OF assms(1)])
  note E = evicted_correct [OF inv assms(2)]
  have None: "rg_breakers r host = None"
    using assms(3,4,6) by (auto simp: registry_Get_def touch_def split: option.splits if_splits)
  have r': "rg_breakers r' h = rg_breakers (evicted order r) h" if "h \<noteq> host" for h
    using assms(3) that unfolding registry_Get_new [OF None] by (auto simp: Let_def touch_def)
  have ne: "host' \<noteq> host" using assms(4) None by auto
  have gone: "rg_breakers (evicted order r) host' = None" using r' [OF ne] assms(6) by simp
  have "\<not> isClosed (rg_store r (re_breaker e))" if "rg_breakers (evicted order r) h = Some e" for h e
  proof (cases "card (dom (rg_breakers r)) \<ge> maxBreakers")
    case False
    then show ?thesis using gone assms(4) by (simp add: evicted_def)
  next
    case True
    have "rg_breakers (evictLeastRecentlyUsedLocked order q) h = Some e \<Longrightarrow> rg_breakers q h = Some e" for q
      by (auto simp: evictLeastRecentlyUsedLocked_def split: option.splits if_splits)
    then have "rg_breakers (evictClosedLocked r) h = Some e"
      using that True by (auto simp: evicted_def Let_def split: if_splits)
    then show ?thesis by (simp add: evictClosed_fields)
  qed
  note stateful = this
  have "\<not> re_lastUsed e < re_lastUsed e'" if "rg_breakers (evicted order r) h = Some e" for h e
    using E(5) [OF assms(4,5) gone] E(3) [OF that] stateful [OF that] by force
  with stateful show ?thesis using r' by metis
qed

end
