(* ===== verification/Config.thy ===== *)
theory Config
  imports Result_Types Glob
begin

text \<open>
  The operational configuration (src/internal/config): the verification and remediation modes with
  their orderings, the defaults, the migration and normalization steps, and the validation of every
  field that needs neither the file system nor a URL parser.

  A validation error is the sentinel that \<open>errors.Is\<close> finds in it; the formatted texts are left out.
  \<open>errors.Join\<close> of a list of errors is the concatenation of the lists, nil being the empty list.
  The TOML decoder is not modelled: a configuration is the decoded record.  \<open>url.Parse\<close> is an argument
  giving the scheme and the host of a URL, and \<open>name.ParseReference\<close> one telling whether it accepts a
  reference.
\<close>

section \<open>Modes\<close>

type_synonym VerificationMode = string
abbreviation ModeDisabled :: VerificationMode where "ModeDisabled \<equiv> ''disabled''"
abbreviation ModeWarn :: VerificationMode where "ModeWarn \<equiv> ''warn''"
abbreviation ModeEnforce :: VerificationMode where "ModeEnforce \<equiv> ''enforce''"

definition Strictness :: "VerificationMode \<Rightarrow> int" where
  "Strictness m =
     (if m = ModeDisabled then 0 else if m = ModeWarn then 1 else if m = ModeEnforce then 2 else - 1)"

definition mode_IsValid :: "VerificationMode \<Rightarrow> bool" where
  "mode_IsValid m = (Strictness m \<ge> 0)"

type_synonym RemediationMode = string
abbreviation (input) RemediationModeDisabled :: RemediationMode where "RemediationModeDisabled \<equiv> ''''"
abbreviation RemediationModeWarn :: RemediationMode where "RemediationModeWarn \<equiv> ''warn''"
abbreviation RemediationModeThrottle :: RemediationMode where "RemediationModeThrottle \<equiv> ''throttle''"
abbreviation RemediationModeEvict :: RemediationMode where "RemediationModeEvict \<equiv> ''evict''"

definition Severity :: "RemediationMode \<Rightarrow> int" where
  "Severity m =
     (if m = RemediationModeDisabled then - 1
      else if m = RemediationModeWarn then 0
      else if m = RemediationModeThrottle then 1
      else if m = RemediationModeEvict then 2
      else - 1)"

section \<open>The configuration record\<close>

record SigstoreRootSource =
  rs_Name :: string
  rs_TUFMirror :: string
  rs_TUFRoot :: string
  rs_Issuers :: "string list"

record SigstoreConfig =
  sg_TUFMirror :: string
  sg_TUFRoot :: string
  sg_Roots :: "SigstoreRootSource list"
  sg_IncludePublicRoot :: "bool option"

record RegistryConfig =
  rc_Prefix :: string
  rc_Mirror :: string
  rc_CACert :: string
  rc_Insecure :: bool

record PolicyConfig =
  pc_Source :: string
  pc_OCIRef :: string
  pc_PollInterval :: duration
  pc_OCIMaxStaleness :: duration
  pc_Issuers :: "string list"
  pc_SANPatterns :: "string list"
  pc_Keys :: "string list"

abbreviation PolicySourceLocal :: string where "PolicySourceLocal \<equiv> ''local''"
abbreviation PolicySourceOCI :: string where "PolicySourceOCI \<equiv> ''oci''"

record GUACConfig =
  gc_Endpoint :: string
  gc_AuthTokenPath :: string
  gc_CACertPath :: string
  gc_Timeout :: duration
  gc_FallbackPolicy :: Action
  gc_Checks :: "string list"
  gc_MaxDependencies :: int

definition GUACValidChecks :: "string list" where
  "GUACValidChecks = [''certify_vuln'', ''certify_scorecard'', ''is_dependency'']"

record OfflineConfig =
  of_Mode :: string
  of_AttestationStore :: string
  of_BundleMaxAge :: duration
  of_BundleExpiryPolicy :: string
  of_RequireBundleSignature :: bool
  of_BundleSignatureKey :: string

abbreviation OfflineModeDisabled :: string where "OfflineModeDisabled \<equiv> ''disabled''"
abbreviation OfflineModePreferBundle :: string where "OfflineModePreferBundle \<equiv> ''prefer-bundle''"
abbreviation OfflineModeOffline :: string where "OfflineModeOffline \<equiv> ''offline''"
abbreviation BundleExpiryAllow :: string where "BundleExpiryAllow \<equiv> ''allow''"
abbreviation BundleExpiryWarn :: string where "BundleExpiryWarn \<equiv> ''warn''"
abbreviation BundleExpiryDeny :: string where "BundleExpiryDeny \<equiv> ''deny''"

record ThrottleConfig =
  tc_CPUQuotaPercent :: int
  tc_MemoryLimitPercent :: int

record TriggerConfig =
  tr_OnNewCVE :: bool
  tr_OnAttestationRevoked :: bool
  tr_OnPolicyChange :: bool

record RemediationConfig =
  rm_Interval :: duration
  rm_Mode :: RemediationMode
  rm_BatchSize :: int
  rm_Cooldown :: duration
  rm_FeedDir :: string
  rm_Throttle :: ThrottleConfig
  rm_Triggers :: TriggerConfig

record Config =
  cf_ConfigVersion :: int
  cf_Verification :: VerificationMode
  cf_FetchTimeout :: duration
  cf_DigestResolveTimeout :: duration
  cf_AdmissionTimeout :: duration
  cf_FetchFailurePolicy :: Action
  cf_FetchFailurePolicyExplicit :: bool
  cf_CacheTTL :: duration
  cf_CacheFailureTTL :: duration
  cf_PolicyDir :: string
  cf_MetricsAddr :: string
  cf_CircuitBreakerThreshold :: int
  cf_CircuitBreakerCooldown :: duration
  cf_VerificationTimeout :: duration
  cf_CheckTimeout :: duration
  cf_FetchRateLimit :: float64
  cf_LogLevel :: string
  cf_Sigstore :: SigstoreConfig
  cf_Registries :: "RegistryConfig list"
  cf_Policy :: PolicyConfig
  cf_MaxAttestationSize :: int
  cf_CacheMaxEntries :: int
  cf_AllowlistDigests :: "string list"
  cf_AuditLog :: string
  cf_Guac :: GUACConfig
  cf_Offline :: OfflineConfig
  cf_Remediation :: RemediationConfig

definition DefaultAdmissionTimeout :: duration where
  "DefaultAdmissionTimeout = 1500 * millisecond"

definition DefaultRemediationBatchSize :: int where
  "DefaultRemediationBatchSize = 10"

definition DefaultRemediationCooldown :: duration where
  "DefaultRemediationCooldown = 5 * minutes"

definition LatestConfigVersion :: int where
  "LatestConfigVersion = 1"

definition DefaultConfig :: Config where
  "DefaultConfig = \<lparr>
     cf_ConfigVersion = LatestConfigVersion,
     cf_Verification = ModeDisabled,
     cf_FetchTimeout = 30 * seconds,
     cf_DigestResolveTimeout = 1 * seconds,
     cf_AdmissionTimeout = DefaultAdmissionTimeout,
     cf_FetchFailurePolicy = ActionWarn,
     cf_FetchFailurePolicyExplicit = False,
     cf_CacheTTL = 24 * hours,
     cf_CacheFailureTTL = 5 * minutes,
     cf_PolicyDir = ''/etc/nri-supply-chain/policies'',
     cf_MetricsAddr = ''127.0.0.1:9090'',
     cf_CircuitBreakerThreshold = 5,
     cf_CircuitBreakerCooldown = 30 * seconds,
     cf_VerificationTimeout = 5 * minutes,
     cf_CheckTimeout = 2 * minutes,
     cf_FetchRateLimit = Fin 0,
     cf_LogLevel = '''',
     cf_Sigstore = \<lparr>sg_TUFMirror = '''', sg_TUFRoot = '''', sg_Roots = [], sg_IncludePublicRoot = None\<rparr>,
     cf_Registries = [],
     cf_Policy = \<lparr>pc_Source = PolicySourceLocal, pc_OCIRef = '''', pc_PollInterval = 5 * minutes,
        pc_OCIMaxStaleness = 0, pc_Issuers = [], pc_SANPatterns = [], pc_Keys = []\<rparr>,
     cf_MaxAttestationSize = 10 * 1048576,
     cf_CacheMaxEntries = 10000,
     cf_AllowlistDigests = [],
     cf_AuditLog = '''',
     cf_Guac = \<lparr>gc_Endpoint = '''', gc_AuthTokenPath = '''', gc_CACertPath = '''', gc_Timeout = 5 * seconds,
        gc_FallbackPolicy = ActionWarn, gc_Checks = GUACValidChecks, gc_MaxDependencies = 5\<rparr>,
     cf_Offline = \<lparr>of_Mode = OfflineModeDisabled, of_AttestationStore = ''/var/lib/nri-supply-chain/bundles'',
        of_BundleMaxAge = 30 * 24 * hours, of_BundleExpiryPolicy = BundleExpiryWarn,
        of_RequireBundleSignature = False, of_BundleSignatureKey = ''''\<rparr>,
     cf_Remediation = \<lparr>rm_Interval = 5 * minutes, rm_Mode = RemediationModeDisabled,
        rm_BatchSize = DefaultRemediationBatchSize, rm_Cooldown = DefaultRemediationCooldown, rm_FeedDir = '''',
        rm_Throttle = \<lparr>tc_CPUQuotaPercent = 10, tc_MemoryLimitPercent = 100\<rparr>,
        rm_Triggers = \<lparr>tr_OnNewCVE = True, tr_OnAttestationRevoked = True, tr_OnPolicyChange = True\<rparr>\<rparr>\<rparr>"

definition EffectiveRoots :: "SigstoreConfig \<Rightarrow> SigstoreRootSource list" where
  "EffectiveRoots s =
     (if sg_Roots s \<noteq> [] then sg_Roots s
      else if sg_TUFMirror s \<noteq> [] then
        [\<lparr>rs_Name = ''default'', rs_TUFMirror = sg_TUFMirror s, rs_TUFRoot = sg_TUFRoot s, rs_Issuers = []\<rparr>]
      else if sg_TUFRoot s \<noteq> [] then
        [\<lparr>rs_Name = ''default'', rs_TUFMirror = [], rs_TUFRoot = sg_TUFRoot s, rs_Issuers = []\<rparr>]
      else [])"

definition ShouldIncludePublicRoot :: "SigstoreConfig \<Rightarrow> bool" where
  "ShouldIncludePublicRoot s = (case sg_IncludePublicRoot s of None \<Rightarrow> True | Some b \<Rightarrow> b)"

definition SignatureVerificationRequired :: "PolicyConfig \<Rightarrow> bool" where
  "SignatureVerificationRequired p = (pc_Issuers p \<noteq> [] \<or> pc_Keys p \<noteq> [])"

definition IssuersWithoutSANPatterns :: "PolicyConfig \<Rightarrow> bool" where
  "IssuersWithoutSANPatterns p = (pc_Issuers p \<noteq> [] \<and> pc_SANPatterns p = [])"

definition guac_Enabled :: "GUACConfig \<Rightarrow> bool" where
  "guac_Enabled g = (gc_Endpoint g \<noteq> [])"

definition remediation_Enabled :: "RemediationConfig \<Rightarrow> bool" where
  "remediation_Enabled r = (rm_Mode r \<noteq> RemediationModeDisabled)"

definition config_Enabled :: "Config \<Rightarrow> bool" where
  "config_Enabled c = (cf_Verification c \<noteq> ModeDisabled)"

definition ApplyModeDefaults :: "bool \<Rightarrow> Config \<Rightarrow> Config" where
  "ApplyModeDefaults fetchFailurePolicyExplicit c =
     (if cf_Verification c \<noteq> ModeEnforce \<or> fetchFailurePolicyExplicit then c
      else if cf_FetchFailurePolicy c = ActionWarn then c\<lparr>cf_FetchFailurePolicy := ActionDeny\<rparr>
      else c)"

definition EffectiveFetchFailurePolicy :: "Config \<Rightarrow> VerificationMode \<Rightarrow> Action" where
  "EffectiveFetchFailurePolicy c mode =
     (if mode \<noteq> ModeEnforce \<or> cf_Verification c = ModeEnforce then cf_FetchFailurePolicy c
      else if cf_FetchFailurePolicy c = ActionDeny then ActionDeny
      else if cf_FetchFailurePolicy c = ActionWarn then
        (if cf_FetchFailurePolicyExplicit c then ActionWarn else ActionDeny)
      else if cf_FetchFailurePolicy c = ActionAllow then ActionDeny
      else ActionDeny)"

definition RegistriesChanged :: "RegistryConfig list \<Rightarrow> RegistryConfig list \<Rightarrow> bool" where
  "RegistriesChanged prev next = (prev \<noteq> next)"

definition SigstoreConfigChanged :: "SigstoreConfig \<Rightarrow> SigstoreConfig \<Rightarrow> bool" where
  "SigstoreConfigChanged prev next =
     (if (sg_Roots prev \<noteq> []) \<noteq> (sg_Roots next \<noteq> []) then True
      else if \<not> list_all2 (\<lambda>a b. rs_Name a = rs_Name b \<and> rs_TUFMirror a = rs_TUFMirror b \<and>
                 rs_TUFRoot a = rs_TUFRoot b \<and> rs_Issuers a = rs_Issuers b)
              (EffectiveRoots prev) (EffectiveRoots next) then True
      else ShouldIncludePublicRoot prev \<noteq> ShouldIncludePublicRoot next)"

definition OfflineConfigChanged :: "OfflineConfig \<Rightarrow> OfflineConfig \<Rightarrow> bool" where
  "OfflineConfigChanged prev next =
     (of_Mode prev \<noteq> of_Mode next \<or>
      of_AttestationStore prev \<noteq> of_AttestationStore next \<or>
      of_BundleMaxAge prev \<noteq> of_BundleMaxAge next \<or>
      of_BundleExpiryPolicy prev \<noteq> of_BundleExpiryPolicy next \<or>
      of_RequireBundleSignature prev \<noteq> of_RequireBundleSignature next \<or>
      of_BundleSignatureKey prev \<noteq> of_BundleSignatureKey next)"

section \<open>Migration and normalization\<close>

text \<open>There is no migration step yet, so the migration only turns version 0 into version 1.\<close>

definition Migrate :: "Config \<Rightarrow> Config" where
  "Migrate c = (if cf_ConfigVersion c = 0 then c\<lparr>cf_ConfigVersion := 1\<rparr> else c)"

abbreviation DockerHubRegistry :: string where "DockerHubRegistry \<equiv> ''docker.io''"
abbreviation DefaultRegistry :: string where "DefaultRegistry \<equiv> ''index.docker.io''"

definition normalizePrefix :: "string \<Rightarrow> string" where
  "normalizePrefix host =
     (let lower = ToLower host in if lower = DockerHubRegistry then DefaultRegistry else lower)"

definition normalizeRegistryPrefixes :: "Config \<Rightarrow> Config" where
  "normalizeRegistryPrefixes c = c\<lparr>cf_Registries :=
     map (\<lambda>r. r\<lparr>rc_Prefix := normalizePrefix (rc_Prefix r), rc_Mirror := normalizePrefix (rc_Mirror r)\<rparr>)
       (cf_Registries c)\<rparr>"

definition normalizeCacheTTLs :: "Config \<Rightarrow> Config" where
  "normalizeCacheTTLs c =
     (let c = (if cf_CacheTTL c = 0 \<and> cf_CacheFailureTTL c > 0 then c\<lparr>cf_CacheFailureTTL := 0\<rparr> else c) in
      if cf_CacheTTL c > 0 \<and> cf_CacheFailureTTL c > cf_CacheTTL c
      then c\<lparr>cf_CacheFailureTTL := cf_CacheTTL c\<rparr> else c)"

definition normalizeGUAC :: "Config \<Rightarrow> Config" where
  "normalizeGUAC c =
     (if guac_Enabled (cf_Guac c) \<and> gc_FallbackPolicy (cf_Guac c) = []
      then c\<lparr>cf_Guac := (cf_Guac c)\<lparr>gc_FallbackPolicy := ActionWarn\<rparr>\<rparr> else c)"

definition Normalize :: "Config \<Rightarrow> Config" where
  "Normalize c = normalizeGUAC (normalizeRegistryPrefixes (normalizeCacheTTLs c))"

section \<open>Validation\<close>

text \<open>A sentinel error is represented by its name.\<close>

type_synonym config_error = string

definition filepath_IsAbs :: "string \<Rightarrow> bool" where
  "filepath_IsAbs path = HasPrefix path ''/''"

text \<open>\<open>net.SplitHostPort\<close>, None for an error.\<close>

definition SplitHostPort :: "string \<Rightarrow> (string \<times> string) option" where
  "SplitHostPort hostport =
     (case LastIndexByte hostport (CHR '':'') of
        None \<Rightarrow> None
      | Some i \<Rightarrow>
          if HasPrefix hostport ''['' then
            (case IndexByte hostport (CHR '']'') of
               None \<Rightarrow> None
             | Some e \<Rightarrow>
                 if Suc e \<noteq> i then None
                 else if CHR ''['' \<in> set (drop 1 hostport) \<or> CHR '']'' \<in> set (drop (Suc e) hostport) then None
                 else Some (drop 1 (take e hostport), drop (Suc i) hostport))
          else
            (if CHR '':'' \<in> set (take i hostport) then None
             else if CHR ''['' \<in> set hostport \<or> CHR '']'' \<in> set hostport then None
             else Some (take i hostport, drop (Suc i) hostport)))"

text \<open>A bounded numeric field; \<open>lt\<close> and \<open>isNaN\<close> are those of the field's type.\<close>

record 'a numericRange =
  nr_value :: 'a
  nr_minimum :: 'a
  nr_maximum :: 'a
  nr_errBelow :: "config_error option"
  nr_errAbove :: "config_error option"

definition validateRange :: "('a \<Rightarrow> 'a \<Rightarrow> bool) \<Rightarrow> ('a \<Rightarrow> bool) \<Rightarrow> 'a numericRange \<Rightarrow> config_error list" where
  "validateRange lt isNaN r =
     (if isNaN (nr_value r) then
        (case nr_errBelow r of
           Some e \<Rightarrow> [e]
         | None \<Rightarrow> (case nr_errAbove r of Some e \<Rightarrow> [e] | None \<Rightarrow> []))
      else
        (case nr_errBelow r of
           Some e \<Rightarrow> if lt (nr_value r) (nr_minimum r) then [e] else []
         | None \<Rightarrow> []) @
        (case nr_errAbove r of
           Some e \<Rightarrow> if lt (nr_maximum r) (nr_value r) then [e] else []
         | None \<Rightarrow> []))"

definition validateRanges :: "('a \<Rightarrow> 'a \<Rightarrow> bool) \<Rightarrow> ('a \<Rightarrow> bool) \<Rightarrow> 'a numericRange list \<Rightarrow> config_error list" where
  "validateRanges lt isNaN ranges = concat (map (validateRange lt isNaN) ranges)"

abbreviation int_ranges :: "int numericRange list \<Rightarrow> config_error list" where
  "int_ranges \<equiv> validateRanges (<) (\<lambda>_. False)"

definition validateConfigVersion :: "Config \<Rightarrow> config_error list" where
  "validateConfigVersion c =
     (if cf_ConfigVersion c < 1 then [''ErrInvalidConfigVersion'']
      else if cf_ConfigVersion c > LatestConfigVersion then [''ErrConfigVersionTooNew'']
      else [])"

definition validateModeAndLogLevel :: "Config \<Rightarrow> config_error list" where
  "validateModeAndLogLevel c =
     (if cf_Verification c \<in> {ModeDisabled, ModeWarn, ModeEnforce} then [] else [''ErrInvalidVerificationMode'']) @
     (if cf_LogLevel c = [] \<or> cf_LogLevel c \<in> {''debug'', ''info'', ''warn'', ''error''} then []
      else [''ErrInvalidLogLevel''])"

definition validateMetricsAddr :: "Config \<Rightarrow> config_error list" where
  "validateMetricsAddr c =
     (if cf_MetricsAddr c = [] then []
      else if SplitHostPort (cf_MetricsAddr c) = None then [''ErrInvalidMetricsAddr''] else [])"

definition validateTimeoutFields :: "Config \<Rightarrow> config_error list" where
  "validateTimeoutFields c = int_ranges
     [\<lparr>nr_value = cf_FetchTimeout c, nr_minimum = 1, nr_maximum = 5 * minutes,
       nr_errBelow = Some ''ErrFetchTimeoutNotPositive'', nr_errAbove = Some ''ErrFetchTimeoutTooHigh''\<rparr>,
      \<lparr>nr_value = cf_DigestResolveTimeout c, nr_minimum = 1, nr_maximum = 5 * seconds,
       nr_errBelow = Some ''ErrDigestResolveTimeoutNotPositive'', nr_errAbove = Some ''ErrDigestResolveTimeoutTooHigh''\<rparr>,
      \<lparr>nr_value = cf_AdmissionTimeout c, nr_minimum = 1, nr_maximum = 1 * minutes,
       nr_errBelow = Some ''ErrAdmissionTimeoutNotPositive'', nr_errAbove = Some ''ErrAdmissionTimeoutTooHigh''\<rparr>]"

definition validateCacheFields :: "Config \<Rightarrow> config_error list" where
  "validateCacheFields c = int_ranges
     [\<lparr>nr_value = cf_CacheTTL c, nr_minimum = 0, nr_maximum = 7 * 24 * hours,
       nr_errBelow = Some ''ErrCacheTTLNegative'', nr_errAbove = Some ''ErrCacheTTLTooHigh''\<rparr>,
      \<lparr>nr_value = cf_CacheFailureTTL c, nr_minimum = 0, nr_maximum = 1 * hours,
       nr_errBelow = Some ''ErrCacheFailureTTLNegative'', nr_errAbove = Some ''ErrCacheFailureTTLTooHigh''\<rparr>]"

definition validateFetchAndCache :: "Config \<Rightarrow> config_error list" where
  "validateFetchAndCache c =
     (if ValidateAction ''fetch_failure_policy'' (cf_FetchFailurePolicy c) \<noteq> None
      then [''ErrInvalidAction''] else []) @
     (if cf_Verification c = ModeEnforce \<and> cf_FetchFailurePolicy c = ActionAllow
      then [''ErrInvalidVerificationMode''] else []) @
     validateTimeoutFields c @
     validateCacheFields c @
     (if config_Enabled c \<and> pc_Source (cf_Policy c) \<noteq> PolicySourceOCI then
        (if cf_PolicyDir c = [] then [''ErrPolicyDirEmpty'']
         else if \<not> filepath_IsAbs (cf_PolicyDir c) then [''ErrPolicyDirNotAbsolute''] else [])
      else [])"

definition validateCheckTimeout :: "Config \<Rightarrow> config_error list" where
  "validateCheckTimeout c =
     (if cf_CheckTimeout c \<le> 0 then [''ErrCheckTimeoutNotPositive''] else []) @
     (if cf_CheckTimeout c > cf_VerificationTimeout c then [''ErrCheckTimeoutExceedsVerification''] else [])"

definition validateLimitsFields :: "Config \<Rightarrow> config_error list" where
  "validateLimitsFields c = int_ranges
     [\<lparr>nr_value = cf_MaxAttestationSize c, nr_minimum = 1048576, nr_maximum = 100 * 1048576,
       nr_errBelow = Some ''ErrMaxAttestationSizeTooSmall'', nr_errAbove = Some ''ErrMaxAttestationSizeTooLarge''\<rparr>,
      \<lparr>nr_value = cf_CacheMaxEntries c, nr_minimum = 100, nr_maximum = 1000000,
       nr_errBelow = Some ''ErrCacheMaxEntriesTooSmall'', nr_errAbove = Some ''ErrCacheMaxEntriesTooLarge''\<rparr>]"

definition validateResilienceFields :: "Config \<Rightarrow> config_error list" where
  "validateResilienceFields c =
     int_ranges
       [\<lparr>nr_value = cf_CircuitBreakerCooldown c, nr_minimum = 1, nr_maximum = 10 * minutes,
         nr_errBelow = Some ''ErrCircuitBreakerCooldown'', nr_errAbove = Some ''ErrCircuitBreakerCooldownTooHigh''\<rparr>,
        \<lparr>nr_value = cf_VerificationTimeout c, nr_minimum = 1, nr_maximum = 30 * minutes,
         nr_errBelow = Some ''ErrVerificationTimeoutNotPositive'', nr_errAbove = Some ''ErrVerificationTimeoutTooHigh''\<rparr>] @
     int_ranges
       [\<lparr>nr_value = cf_CircuitBreakerThreshold c, nr_minimum = 1, nr_maximum = 0,
         nr_errBelow = Some ''ErrCircuitBreakerThreshold'', nr_errAbove = None\<rparr>] @
     validateCheckTimeout c @
     validateRanges flt_less (\<lambda>x. x = NaN)
       [\<lparr>nr_value = cf_FetchRateLimit c, nr_minimum = Fin 0, nr_maximum = Fin 10000,
         nr_errBelow = Some ''ErrFetchRateLimitNegative'', nr_errAbove = Some ''ErrFetchRateLimitTooHigh''\<rparr>] @
     validateLimitsFields c"

fun allowlist_errors :: "string list \<Rightarrow> string list \<Rightarrow> config_error list" where
  "allowlist_errors seen [] = []"
| "allowlist_errors seen (entry # rest) =
     (let digest = ExtractDigest entry in
      if digest = [] then ''ErrAllowlistDigestInvalid'' # allowlist_errors seen rest
      else (if digest \<in> set seen then [''ErrAllowlistDigestInvalid''] else []) @
           allowlist_errors (digest # seen) rest)"

definition validateAllowlistDigests :: "Config \<Rightarrow> config_error list" where
  "validateAllowlistDigests c = allowlist_errors [] (cf_AllowlistDigests c)"

definition validateAuditLog :: "Config \<Rightarrow> config_error list" where
  "validateAuditLog c =
     (if cf_AuditLog c \<noteq> [] \<and> \<not> filepath_IsAbs (cf_AuditLog c) then [''ErrAuditLogNotAbsolute''] else [])"

definition validateGUACEndpointScheme :: "(string \<Rightarrow> (string \<times> string) option) \<Rightarrow> Config \<Rightarrow> config_error list" where
  "validateGUACEndpointScheme url_Parse c =
     (case url_Parse (gc_Endpoint (cf_Guac c)) of
        None \<Rightarrow> [''ErrGUACEndpointInvalid'']
      | Some (scheme, host) \<Rightarrow>
          if scheme = [] \<or> host = [] then [''ErrGUACEndpointInvalid'']
          else if scheme \<noteq> ''https'' \<and> cf_Verification c = ModeEnforce then [''ErrGUACEndpointNotHTTPS'']
          else [])"

definition validateGUACConfig :: "(string \<Rightarrow> (string \<times> string) option) \<Rightarrow> Config \<Rightarrow> config_error list" where
  "validateGUACConfig url_Parse c =
     (let g = cf_Guac c in
      if \<not> guac_Enabled g then []
      else
        validateGUACEndpointScheme url_Parse c @
        (if gc_Timeout g \<le> 0 then [''ErrGUACTimeoutNotPositive'']
         else if gc_Timeout g > 30 * seconds then [''ErrGUACTimeoutTooHigh''] else []) @
        (if gc_FallbackPolicy g \<in> {ActionAllow, ActionWarn, ActionDeny, ''''} then []
         else [''ErrGUACInvalidFallbackPolicy'']) @
        (if gc_Checks g = [] then [''ErrGUACChecksEmpty'']
         else concat (map (\<lambda>check. if check \<in> set GUACValidChecks then [] else [''ErrGUACInvalidCheck'']) (gc_Checks g))) @
        (if gc_MaxDependencies g < 1 \<or> gc_MaxDependencies g > 20 then [''ErrGUACMaxDepsRange''] else []) @
        (if gc_AuthTokenPath g \<noteq> [] \<and> \<not> filepath_IsAbs (gc_AuthTokenPath g)
         then [''ErrGUACAuthTokenPathNotAbsolute''] else []) @
        (if gc_CACertPath g \<noteq> [] \<and> \<not> filepath_IsAbs (gc_CACertPath g)
         then [''ErrGUACCACertPathNotAbsolute''] else []))"

definition validateOfflineBundlePolicy :: "Config \<Rightarrow> config_error list" where
  "validateOfflineBundlePolicy c =
     (let ofl = cf_Offline c in
      (if of_BundleExpiryPolicy ofl \<in> {BundleExpiryAllow, BundleExpiryWarn, BundleExpiryDeny} then []
       else [''ErrInvalidBundleExpiryPolicy'']) @
      (if of_RequireBundleSignature ofl \<and> of_BundleSignatureKey ofl = [] then [''ErrBundleSignatureKeyRequired''] else []) @
      (if of_BundleSignatureKey ofl \<noteq> [] \<and> \<not> filepath_IsAbs (of_BundleSignatureKey ofl)
       then [''ErrBundleSignatureKeyNotAbsolute''] else []))"

definition validateOfflineConfig :: "Config \<Rightarrow> config_error list" where
  "validateOfflineConfig c =
     (let ofl = cf_Offline c in
      if of_Mode ofl = OfflineModeDisabled then []
      else if of_Mode ofl \<noteq> OfflineModePreferBundle \<and> of_Mode ofl \<noteq> OfflineModeOffline then [''ErrInvalidOfflineMode'']
      else
        (if of_AttestationStore ofl = [] \<or> \<not> filepath_IsAbs (of_AttestationStore ofl)
         then [''ErrOfflineStoreNotAbsolute''] else []) @
        (if of_BundleMaxAge ofl \<le> 0 then [''ErrBundleMaxAgeNotPositive''] else []) @
        validateOfflineBundlePolicy c)"

definition validateThrottleConfig :: "ThrottleConfig \<Rightarrow> config_error list" where
  "validateThrottleConfig t =
     (if tc_CPUQuotaPercent t < 1 \<or> tc_CPUQuotaPercent t > 100 then [''ErrThrottlePercentOutOfRange''] else []) @
     (if tc_MemoryLimitPercent t < 1 \<or> tc_MemoryLimitPercent t > 100 then [''ErrThrottlePercentOutOfRange''] else [])"

definition validateRemediationConfig :: "Config \<Rightarrow> config_error list" where
  "validateRemediationConfig c =
     (let rem = cf_Remediation c in
      if \<not> remediation_Enabled rem then []
      else
        (if rm_Mode rem = RemediationModeWarn \<or> rm_Mode rem = RemediationModeThrottle then []
         else if rm_Mode rem = RemediationModeEvict then
           (if cf_Verification c \<noteq> ModeEnforce then [''ErrRemediationEvictRequiresEnforce''] else [])
         else [''ErrRemediationModeInvalid'']) @
        int_ranges
          [\<lparr>nr_value = rm_Interval rem, nr_minimum = 30 * seconds, nr_maximum = 1 * hours,
            nr_errBelow = Some ''ErrRemediationIntervalTooShort'', nr_errAbove = Some ''ErrRemediationIntervalTooLong''\<rparr>,
           \<lparr>nr_value = rm_Cooldown rem, nr_minimum = 30 * seconds, nr_maximum = 1 * hours,
            nr_errBelow = Some ''ErrRemediationCooldownTooShort'', nr_errAbove = Some ''ErrRemediationCooldownTooLong''\<rparr>] @
        int_ranges
          [\<lparr>nr_value = rm_BatchSize rem, nr_minimum = 1, nr_maximum = 100,
            nr_errBelow = Some ''ErrRemediationBatchSizeInvalid'', nr_errAbove = Some ''ErrRemediationBatchSizeTooLarge''\<rparr>] @
        (if rm_FeedDir rem \<noteq> [] \<and> \<not> filepath_IsAbs (rm_FeedDir rem)
         then [''ErrRemediationFeedDirNotAbsolute''] else []) @
        validateThrottleConfig (rm_Throttle rem))"

definition validatePolicySignatureEntries :: "PolicyConfig \<Rightarrow> config_error list" where
  "validatePolicySignatureEntries p =
     (if [] \<in> set (pc_Issuers p) then [''ErrPolicyIssuerEmpty''] else []) @
     (if [] \<in> set (pc_SANPatterns p) then [''ErrPolicySANPatternEmpty''] else []) @
     concat (map (\<lambda>pattern. if Validate pattern \<noteq> None then [''ErrPolicySANPatternInvalid''] else []) (pc_SANPatterns p)) @
     (if [] \<in> set (pc_Keys p) then [''ErrPolicyKeyEmpty''] else [])"

fun policy_key_errors :: "string list \<Rightarrow> string list \<Rightarrow> config_error list" where
  "policy_key_errors seen [] = []"
| "policy_key_errors seen (keyPath # rest) =
     (let cleaned = filepath_Clean keyPath in
      (if \<not> filepath_IsAbs keyPath then [''ErrPolicySignatureKeyNotAbsolute''] else []) @
      (if cleaned \<in> set seen then [''ErrPolicySignatureKeyDuplicate''] else []) @
      policy_key_errors (cleaned # seen) rest)"

definition validatePolicyKeyPaths :: "string list \<Rightarrow> config_error list" where
  "validatePolicyKeyPaths keys = policy_key_errors [] keys"

definition warnOrRejectIssuersWithoutSANPatterns :: "Config \<Rightarrow> bool \<Rightarrow> config_error list" where
  "warnOrRejectIssuersWithoutSANPatterns c valid =
     (if \<not> valid \<or> \<not> SignatureVerificationRequired (cf_Policy c) then []
      else if IssuersWithoutSANPatterns (cf_Policy c) \<and> cf_Verification c = ModeEnforce
      then [''ErrIssuersWithoutSANPatternsInEnforce''] else [])"

definition validatePolicySignatureFields :: "Config \<Rightarrow> config_error list" where
  "validatePolicySignatureFields c =
     (let p = cf_Policy c;
          hasIssuers = pc_Issuers p \<noteq> [];
          hasKeys = pc_Keys p \<noteq> [];
          errs = (if hasIssuers \<and> hasKeys then [''ErrPolicyIssuersAndKeysMutuallyExclusive''] else []) @
                 (if pc_SANPatterns p \<noteq> [] \<and> \<not> hasIssuers then [''ErrPolicySANPatternsWithoutIssuers''] else []) @
                 validatePolicySignatureEntries p @ validatePolicyKeyPaths (pc_Keys p)
      in errs @ warnOrRejectIssuersWithoutSANPatterns c (errs = []))"

definition validateMaxStaleness :: "PolicyConfig \<Rightarrow> config_error list" where
  "validateMaxStaleness p =
     (if pc_OCIMaxStaleness p = 0 \<or> pc_OCIMaxStaleness p \<ge> pc_PollInterval p then []
      else [''ErrOCIMaxStalenessInvalid''])"

definition validatePolicyConfig :: "(string \<Rightarrow> bool) \<Rightarrow> Config \<Rightarrow> config_error list" where
  "validatePolicyConfig parse_ref_ok c =
     (let p = cf_Policy c; errs = validatePolicySignatureFields c in
      if pc_Source p = PolicySourceLocal \<or> pc_Source p = [] then errs
      else if pc_Source p \<noteq> PolicySourceOCI then errs @ [''ErrInvalidPolicySource'']
      else
        errs @
        (if pc_OCIRef p = [] then [''ErrPolicyOCIRefRequired'']
         else if \<not> parse_ref_ok (pc_OCIRef p) then [''ErrPolicyOCIRefInvalid''] else []) @
        (if pc_PollInterval p < 30 * seconds then [''ErrPollIntervalTooShort''] else []) @
        validateMaxStaleness p @
        (if \<not> SignatureVerificationRequired p \<and> cf_Verification c = ModeEnforce
         then [''ErrPolicyOCIUnsignedInEnforce''] else []))"

definition isValidRegistryHost :: "string \<Rightarrow> bool" where
  "isValidRegistryHost host =
     (if host = [] \<or> set host \<inter> set [CHR '' '', CHR 0x09, CHR 0x0A, CHR ''/''] \<noteq> {} then False
      else if Contains host ''://'' then False
      else
        (let hostname = (case SplitHostPort host of None \<Rightarrow> host | Some (h, _) \<Rightarrow> h)
         in [] \<notin> set (Split hostname (CHR ''.''))))"

text \<open>The prefixes seen so far are the normalized prefixes of the earlier entries.\<close>

definition validateRegistryPrefix :: "string list \<Rightarrow> RegistryConfig \<Rightarrow> config_error list \<times> string list" where
  "validateRegistryPrefix seen reg =
     (if rc_Prefix reg = [] then ([''ErrRegistryPrefixEmpty''], seen)
      else
        (let invalid = (if isValidRegistryHost (rc_Prefix reg) then [] else [''ErrRegistryPrefixInvalid'']);
             normalized = normalizePrefix (rc_Prefix reg)
         in if normalized \<in> set seen then (invalid @ [''ErrDuplicateRegistryPrefix''], seen)
            else (invalid, normalized # seen)))"

definition validateRegistryMirror :: "RegistryConfig \<Rightarrow> config_error list" where
  "validateRegistryMirror reg =
     (if rc_Mirror reg = [] then []
      else
        (if isValidRegistryHost (rc_Mirror reg) then [] else [''ErrRegistryMirrorInvalid'']) @
        (if normalizePrefix (rc_Mirror reg) = normalizePrefix (rc_Prefix reg)
         then [''ErrRegistryMirrorSameAsPrefix''] else []))"

definition validateRegistry :: "Config \<Rightarrow> string list \<Rightarrow> RegistryConfig \<Rightarrow> config_error list \<times> string list" where
  "validateRegistry c seen reg =
     (let (prefix_errs, seen') = validateRegistryPrefix seen reg in
      (prefix_errs @ validateRegistryMirror reg @
       (if rc_CACert reg \<noteq> [] \<and> \<not> filepath_IsAbs (rc_CACert reg) then [''ErrRegistryCACertNotAbsolute''] else []) @
       (if rc_Insecure reg \<and> cf_Verification c = ModeEnforce then [''ErrInsecureRegistryInEnforceMode''] else []),
       seen'))"

fun registries_errors :: "Config \<Rightarrow> string list \<Rightarrow> RegistryConfig list \<Rightarrow> config_error list" where
  "registries_errors c seen [] = []"
| "registries_errors c seen (reg # rest) =
     (let (errs, seen') = validateRegistry c seen reg in errs @ registries_errors c seen' rest)"

definition validateRegistries :: "Config \<Rightarrow> config_error list" where
  "validateRegistries c = registries_errors c [] (cf_Registries c)"

definition validateTUFMirrorURL :: "(string \<Rightarrow> (string \<times> string) option) \<Rightarrow> string \<Rightarrow> config_error list" where
  "validateTUFMirrorURL url_Parse mirror =
     (case url_Parse mirror of
        None \<Rightarrow> [''ErrInvalidTUFMirror'']
      | Some (scheme, host) \<Rightarrow>
          if scheme \<noteq> ''https'' then [''ErrInvalidTUFMirror'']
          else if host = [] then [''ErrInvalidTUFMirror''] else [])"

fun sigstore_root_errors :: "(string \<Rightarrow> (string \<times> string) option) \<Rightarrow> string list \<Rightarrow> SigstoreRootSource list \<Rightarrow> config_error list" where
  "sigstore_root_errors url_Parse seen [] = []"
| "sigstore_root_errors url_Parse seen (src # rest) =
     (if rs_Name src = [] then [''ErrSigstoreRootNameRequired'']
      else if rs_Name src \<in> set seen then [''ErrSigstoreRootNameDuplicate''] else []) @
     (if rs_TUFMirror src \<noteq> [] then validateTUFMirrorURL url_Parse (rs_TUFMirror src) else []) @
     (if rs_TUFRoot src \<noteq> [] then
        (if \<not> filepath_IsAbs (rs_TUFRoot src) then [''ErrTUFRootNotAbsolute''] else []) @
        (if rs_TUFMirror src = [] then [''ErrTUFRootRequiresMirror''] else [])
      else []) @
     sigstore_root_errors url_Parse
       (if rs_Name src = [] \<or> rs_Name src \<in> set seen then seen else rs_Name src # seen) rest"

definition validateSigstoreRoots :: "(string \<Rightarrow> (string \<times> string) option) \<Rightarrow> SigstoreRootSource list \<Rightarrow> config_error list" where
  "validateSigstoreRoots url_Parse roots = sigstore_root_errors url_Parse [] roots"

definition validateSigstoreConfig :: "(string \<Rightarrow> (string \<times> string) option) \<Rightarrow> Config \<Rightarrow> config_error list" where
  "validateSigstoreConfig url_Parse c =
     (let s = cf_Sigstore c in
      if (sg_TUFMirror s \<noteq> [] \<or> sg_TUFRoot s \<noteq> []) \<and> sg_Roots s \<noteq> [] then [''ErrSigstoreRootsMutualExclusion'']
      else
        (if sg_TUFMirror s \<noteq> [] then validateTUFMirrorURL url_Parse (sg_TUFMirror s) else []) @
        (if sg_TUFRoot s \<noteq> [] \<and> \<not> filepath_IsAbs (sg_TUFRoot s) then [''ErrTUFRootNotAbsolute''] else []) @
        validateSigstoreRoots url_Parse (sg_Roots s))"

definition config_Validate :: "(string \<Rightarrow> (string \<times> string) option) \<Rightarrow> (string \<Rightarrow> bool) \<Rightarrow> Config \<Rightarrow> config_error list" where
  "config_Validate url_Parse parse_ref_ok c =
     validateConfigVersion c @
     validateModeAndLogLevel c @
     validateMetricsAddr c @
     validateFetchAndCache c @
     validateResilienceFields c @
     validateSigstoreConfig url_Parse c @
     validateRegistries c @
     validatePolicyConfig parse_ref_ok c @
     validateAllowlistDigests c @
     validateAuditLog c @
     validateGUACConfig url_Parse c @
     validateOfflineConfig c @
     validateRemediationConfig c"

text \<open>\<open>load\<close> after the TOML decoder: \<open>explicit\<close> tells whether the file sets \<open>fetch_failure_policy\<close>.\<close>

definition config_load :: "(string \<Rightarrow> (string \<times> string) option) \<Rightarrow> (string \<Rightarrow> bool) \<Rightarrow> bool \<Rightarrow> Config \<Rightarrow> config_error list + Config" where
  "config_load url_Parse parse_ref_ok explicit decoded =
     (let c = ApplyModeDefaults explicit (decoded\<lparr>cf_FetchFailurePolicyExplicit := explicit\<rparr>);
          c = Migrate c;
          errs = config_Validate url_Parse parse_ref_ok c
      in if errs \<noteq> [] then Inl errs else Inr (Normalize c))"

section \<open>What an accepted configuration guarantees\<close>

lemma if_errors [simp]:
  "(if b then xs else []) = [] \<longleftrightarrow> (b \<longrightarrow> xs = [])"
  "(if b then [] else xs) = [] \<longleftrightarrow> (\<not> b \<longrightarrow> xs = [])"
  by simp_all

lemma validateRanges_Nil [simp]: "validateRanges lt isNaN [] = []"
  by (simp add: validateRanges_def)

lemma validateRanges_Cons [simp]:
  "validateRanges lt isNaN (r # rs) = validateRange lt isNaN r @ validateRanges lt isNaN rs"
  by (simp add: validateRanges_def)

lemma int_range_ok [simp]:
  "validateRange (<) (\<lambda>_. False) \<lparr>nr_value = v, nr_minimum = lo, nr_maximum = hi, nr_errBelow = Some a, nr_errAbove = Some b\<rparr> = []
     \<longleftrightarrow> lo \<le> (v :: int) \<and> v \<le> hi"
  "validateRange (<) (\<lambda>_. False) \<lparr>nr_value = v, nr_minimum = lo, nr_maximum = hi, nr_errBelow = Some a, nr_errAbove = None\<rparr> = []
     \<longleftrightarrow> lo \<le> (v :: int)"
  by (auto simp: validateRange_def)

lemma float_range_ok [simp]:
  "validateRange flt_less (\<lambda>x. x = NaN) \<lparr>nr_value = v, nr_minimum = Fin lo, nr_maximum = Fin hi, nr_errBelow = Some a, nr_errAbove = Some b\<rparr> = []
     \<longleftrightarrow> (\<exists>q. v = Fin q \<and> lo \<le> q \<and> q \<le> hi)"
  by (cases v) (auto simp: validateRange_def)

lemma registries_secure:
  assumes "registries_errors c seen regs = []" and "cf_Verification c = ModeEnforce" and "r \<in> set regs"
  shows "\<not> rc_Insecure r"
  using assms
  by (induction c seen regs rule: registries_errors.induct)
     (auto simp: validateRegistry_def Let_def split: prod.splits if_splits)

lemma allowlist_errors_digests:
  "allowlist_errors seen es = [] \<longleftrightarrow>
     (\<forall>e\<in>set es. ExtractDigest e \<noteq> []) \<and> distinct (map ExtractDigest es) \<and>
     set (map ExtractDigest es) \<inter> set seen = {}"
  by (induction seen es rule: allowlist_errors.induct) (auto simp: Let_def)

lemma Normalize_fields [simp]:
  "cf_Verification (Normalize c) = cf_Verification c"
  "cf_FetchFailurePolicy (Normalize c) = cf_FetchFailurePolicy c"
  "cf_FetchFailurePolicyExplicit (Normalize c) = cf_FetchFailurePolicyExplicit c"
  "cf_Policy (Normalize c) = cf_Policy c"
  "cf_CacheTTL (Normalize c) = cf_CacheTTL c"
  "cf_Remediation (Normalize c) = cf_Remediation c"
  "cf_FetchTimeout (Normalize c) = cf_FetchTimeout c"
  "cf_AdmissionTimeout (Normalize c) = cf_AdmissionTimeout c"
  "cf_DigestResolveTimeout (Normalize c) = cf_DigestResolveTimeout c"
  "cf_VerificationTimeout (Normalize c) = cf_VerificationTimeout c"
  "cf_CheckTimeout (Normalize c) = cf_CheckTimeout c"
  "cf_CircuitBreakerThreshold (Normalize c) = cf_CircuitBreakerThreshold c"
  "cf_CircuitBreakerCooldown (Normalize c) = cf_CircuitBreakerCooldown c"
  "cf_CacheMaxEntries (Normalize c) = cf_CacheMaxEntries c"
  "cf_MaxAttestationSize (Normalize c) = cf_MaxAttestationSize c"
  "gc_Endpoint (cf_Guac (Normalize c)) = gc_Endpoint (cf_Guac c)"
  "map rc_Insecure (cf_Registries (Normalize c)) = map rc_Insecure (cf_Registries c)"
  by (simp_all add: Normalize_def normalizeGUAC_def normalizeRegistryPrefixes_def normalizeCacheTTLs_def Let_def)

lemma Normalize_failure_ttl:
  "cf_CacheTTL c \<ge> 0 \<Longrightarrow> cf_CacheFailureTTL c \<ge> 0 \<Longrightarrow>
     0 \<le> cf_CacheFailureTTL (Normalize c) \<and> cf_CacheFailureTTL (Normalize c) \<le> cf_CacheTTL c"
  by (auto simp: Normalize_def normalizeGUAC_def normalizeRegistryPrefixes_def normalizeCacheTTLs_def Let_def)

lemma Migrate_fields [simp]:
  "cf_Verification (Migrate c) = cf_Verification c"
  "cf_FetchFailurePolicy (Migrate c) = cf_FetchFailurePolicy c"
  "cf_FetchFailurePolicyExplicit (Migrate c) = cf_FetchFailurePolicyExplicit c"
  by (simp_all add: Migrate_def)

lemma ApplyModeDefaults_fields [simp]:
  "cf_Verification (ApplyModeDefaults e c) = cf_Verification c"
  "cf_FetchFailurePolicyExplicit (ApplyModeDefaults e c) = cf_FetchFailurePolicyExplicit c"
  by (simp_all add: ApplyModeDefaults_def)

lemma config_load_cases:
  assumes "config_load url_Parse parse_ref_ok explicit d = Inr c"
  obtains m where "m = Migrate (ApplyModeDefaults explicit (d\<lparr>cf_FetchFailurePolicyExplicit := explicit\<rparr>))"
    "config_Validate url_Parse parse_ref_ok m = []" "c = Normalize m"
  using assms by (auto simp: config_load_def Let_def split: if_splits)

lemma Insecure_Normalize:
  "(\<exists>r\<in>set (cf_Registries (Normalize c)). rc_Insecure r) \<longleftrightarrow> (\<exists>r\<in>set (cf_Registries c). rc_Insecure r)"
proof -
  have "rc_Insecure ` set (cf_Registries (Normalize c)) = rc_Insecure ` set (cf_Registries c)"
    unfolding set_map [symmetric] Normalize_fields(17) ..
  then show ?thesis by (auto simp: image_iff set_eq_iff)
qed

lemma Validate_ok_iff:
  "config_Validate url_Parse parse_ref_ok c = [] \<longleftrightarrow>
     validateConfigVersion c = [] \<and> validateModeAndLogLevel c = [] \<and> validateMetricsAddr c = [] \<and>
     validateFetchAndCache c = [] \<and> validateResilienceFields c = [] \<and> validateSigstoreConfig url_Parse c = [] \<and>
     validateRegistries c = [] \<and> validatePolicyConfig parse_ref_ok c = [] \<and> validateAllowlistDigests c = [] \<and>
     validateAuditLog c = [] \<and> validateGUACConfig url_Parse c = [] \<and> validateOfflineConfig c = [] \<and>
     validateRemediationConfig c = []"
  by (simp add: config_Validate_def)

lemma append_guard: "xs @ f (xs = []) = [] \<Longrightarrow> f True = []"
  by (cases xs) simp_all

lemma policy_issuers_pinned:
  assumes "validatePolicyConfig parse_ref_ok c = []" and "cf_Verification c = ModeEnforce"
    and "pc_Issuers (cf_Policy c) \<noteq> []"
  shows "pc_SANPatterns (cf_Policy c) \<noteq> []"
proof -
  have "validatePolicySignatureFields c = []"
    using assms(1) by (auto simp: validatePolicyConfig_def Let_def split: if_splits)
  then have "warnOrRejectIssuersWithoutSANPatterns c True = []"
    unfolding validatePolicySignatureFields_def Let_def by (rule append_guard)
  then show ?thesis
    using assms(2,3)
    by (simp add: warnOrRejectIssuersWithoutSANPatterns_def SignatureVerificationRequired_def IssuersWithoutSANPatterns_def
        split: if_splits)
qed

lemma guac_https:
  assumes "validateGUACConfig url_Parse c = []" and "cf_Verification c = ModeEnforce"
    and "guac_Enabled (cf_Guac c)"
  shows "\<exists>host. url_Parse (gc_Endpoint (cf_Guac c)) = Some (''https'', host)"
proof -
  have "validateGUACEndpointScheme url_Parse c = []"
    using assms(1,3) by (simp add: validateGUACConfig_def Let_def)
  then show ?thesis
    using assms(2) by (auto simp: validateGUACEndpointScheme_def split: option.splits prod.splits if_splits)
qed

text \<open>C25: a configuration that loads in enforce mode leaves no way around verification: no registry may skip TLS
  verification, policies fetched from a registry must be signed, by pinned identities when they are
  signed keylessly, and GUAC is only reached over HTTPS.\<close>

theorem enforce_config_hardened:
  assumes "config_load url_Parse parse_ref_ok explicit d = Inr c" and "cf_Verification c = ModeEnforce"
  shows "\<not> (\<exists>r\<in>set (cf_Registries c). rc_Insecure r) \<and>
    (pc_Source (cf_Policy c) = PolicySourceOCI \<longrightarrow> SignatureVerificationRequired (cf_Policy c)) \<and>
    (pc_Issuers (cf_Policy c) \<noteq> [] \<longrightarrow> pc_SANPatterns (cf_Policy c) \<noteq> []) \<and>
    (guac_Enabled (cf_Guac c) \<longrightarrow> (\<exists>host. url_Parse (gc_Endpoint (cf_Guac c)) = Some (''https'', host)))"
  using assms(1)
proof (rule config_load_cases)
  fix m
  assume valid: "config_Validate url_Parse parse_ref_ok m = []" and c: "c = Normalize m"
  have enf: "cf_Verification m = ModeEnforce" using assms(2) c by simp
  note parts = valid [unfolded Validate_ok_iff]
  have "\<not> (\<exists>r\<in>set (cf_Registries m). rc_Insecure r)"
    using registries_secure [OF _ enf] parts by (auto simp: validateRegistries_def)
  moreover have "pc_Source (cf_Policy m) = PolicySourceOCI \<longrightarrow> SignatureVerificationRequired (cf_Policy m)"
    using parts enf by (auto simp: validatePolicyConfig_def Let_def)
  moreover have "pc_Issuers (cf_Policy m) \<noteq> [] \<longrightarrow> pc_SANPatterns (cf_Policy m) \<noteq> []"
    using policy_issuers_pinned [OF _ enf] parts by blast
  moreover have "guac_Enabled (cf_Guac m) \<longrightarrow> (\<exists>host. url_Parse (gc_Endpoint (cf_Guac m)) = Some (''https'', host))"
    using guac_https [OF _ enf] parts by blast
  ultimately show ?thesis unfolding c Insecure_Normalize by (simp add: guac_Enabled_def)
qed


lemma fetch_failure_policy_loaded:
  assumes "config_load url_Parse parse_ref_ok explicit d = Inr c"
  shows "cf_FetchFailurePolicyExplicit c = explicit"
    and "cf_FetchFailurePolicy c \<in> {ActionAllow, ActionWarn, ActionDeny}"
    and "cf_Verification c = ModeEnforce \<Longrightarrow> cf_FetchFailurePolicy c \<noteq> ActionAllow"
    and "cf_Verification c = ModeEnforce \<Longrightarrow> \<not> explicit \<Longrightarrow> cf_FetchFailurePolicy c \<noteq> ActionWarn"
proof -
  from assms obtain m where
    m: "m = Migrate (ApplyModeDefaults explicit (d\<lparr>cf_FetchFailurePolicyExplicit := explicit\<rparr>))"
    and valid: "config_Validate url_Parse parse_ref_ok m = []" and c: "c = Normalize m"
    by (rule config_load_cases)
  have fc: "validateFetchAndCache m = []" using valid by (simp add: Validate_ok_iff)
  show "cf_FetchFailurePolicyExplicit c = explicit" by (simp add: c m)
  show "cf_FetchFailurePolicy c \<in> {ActionAllow, ActionWarn, ActionDeny}"
    using fc by (auto simp: c validateFetchAndCache_def ValidateAction_def split: if_splits)
  show "cf_FetchFailurePolicy c \<noteq> ActionAllow" if "cf_Verification c = ModeEnforce"
    using fc that by (auto simp: c validateFetchAndCache_def)
  show "cf_FetchFailurePolicy c \<noteq> ActionWarn" if "cf_Verification c = ModeEnforce" "\<not> explicit"
    using that by (cases "cf_Verification d = ModeEnforce") (auto simp: c m ApplyModeDefaults_def)
qed

text \<open>C26: in a namespace that enforces, whether through the global mode or through its policy, a failed fetch is
  never allowed; it is a mere warning only when the configuration file asks for that explicitly.\<close>

theorem fetch_failure_denies:
  assumes "config_load url_Parse parse_ref_ok explicit d = Inr c"
  shows "EffectiveFetchFailurePolicy c ModeEnforce = ActionDeny \<or>
    EffectiveFetchFailurePolicy c ModeEnforce = ActionWarn \<and> explicit"
  using fetch_failure_policy_loaded [OF assms] by (auto simp: EffectiveFetchFailurePolicy_def)

definition enforcing_default :: Config where
  "enforcing_default = DefaultConfig\<lparr>cf_Verification := ModeEnforce, cf_FetchFailurePolicy := ActionDeny\<rparr>"

lemma enforcing_default_valid:
  "validateConfigVersion enforcing_default = []" "validateModeAndLogLevel enforcing_default = []"
  "validateMetricsAddr enforcing_default = []" "validateFetchAndCache enforcing_default = []"
  "validateResilienceFields enforcing_default = []" "validateRegistries enforcing_default = []"
  "validateAllowlistDigests enforcing_default = []" "validateAuditLog enforcing_default = []"
  "validateOfflineConfig enforcing_default = []" "validateRemediationConfig enforcing_default = []"
  "validatePolicySignatureFields enforcing_default = []" "Normalize enforcing_default = enforcing_default"
  by code_simp+

lemma enforcing_default_fields:
  "cf_Sigstore enforcing_default = \<lparr>sg_TUFMirror = [], sg_TUFRoot = [], sg_Roots = [], sg_IncludePublicRoot = None\<rparr>"
  "pc_Source (cf_Policy enforcing_default) = PolicySourceLocal" "gc_Endpoint (cf_Guac enforcing_default) = []"
  "cf_ConfigVersion enforcing_default = 1"
  by (simp_all add: enforcing_default_def DefaultConfig_def LatestConfigVersion_def)

lemma DefaultConfig_loads:
  "config_load url_Parse parse_ref_ok False (DefaultConfig\<lparr>cf_Verification := ModeEnforce\<rparr>) = Inr enforcing_default"
proof -
  let ?d = "DefaultConfig\<lparr>cf_Verification := ModeEnforce\<rparr>"
  have "Migrate (ApplyModeDefaults False (?d\<lparr>cf_FetchFailurePolicyExplicit := False\<rparr>)) = enforcing_default"
    by code_simp
  moreover have "config_Validate url_Parse parse_ref_ok enforcing_default = []"
    by (simp add: Validate_ok_iff enforcing_default_valid validateSigstoreConfig_def validateSigstoreRoots_def
        validatePolicyConfig_def validateGUACConfig_def guac_Enabled_def enforcing_default_fields Let_def)
  ultimately show ?thesis
    unfolding config_load_def Let_def by (simp add: enforcing_default_valid(12))
qed

theorem fetch_failure_denies_witness:
  "\<exists>c. config_load (\<lambda>_. None) (\<lambda>_. False) False (DefaultConfig\<lparr>cf_Verification := ModeEnforce\<rparr>) = Inr c \<and>
     EffectiveFetchFailurePolicy c ModeEnforce = ActionDeny"
  using fetch_failure_denies [OF DefaultConfig_loads] DefaultConfig_loads by blast

theorem enforce_config_hardened_witness:
  "\<exists>c. config_load (\<lambda>_. None) (\<lambda>_. False) False (DefaultConfig\<lparr>cf_Verification := ModeEnforce\<rparr>) = Inr c \<and>
     \<not> (\<exists>r\<in>set (cf_Registries c). rc_Insecure r) \<and> \<not> guac_Enabled (cf_Guac c)"
  using enforce_config_hardened [OF DefaultConfig_loads, where url_Parse = "\<lambda>_. None"]
    DefaultConfig_loads [of "\<lambda>_. None" "\<lambda>_. False"] enforcing_default_fields(3)
  by (simp add: guac_Enabled_def enforcing_default_def)

text \<open>Every bound the documentation gives holds of a loaded configuration: timeouts, cache lifetimes and sizes,
  the failure lifetime never exceeding the success lifetime, and, when remediation is on, the
  interval, the cooldown, the batch size and the throttle percentages.\<close>

lemma loaded_config_bounds:
  assumes "config_load url_Parse parse_ref_ok explicit d = Inr c"
  shows "cf_FetchTimeout c \<in> {1..5 * minutes} \<and> cf_DigestResolveTimeout c \<in> {1..5 * seconds} \<and>
    cf_AdmissionTimeout c \<in> {1..1 * minutes} \<and> cf_CacheTTL c \<in> {0..7 * 24 * hours} \<and>
    cf_CacheFailureTTL c \<in> {0..cf_CacheTTL c} \<and> cf_CircuitBreakerThreshold c \<ge> 1 \<and>
    cf_CircuitBreakerCooldown c \<in> {1..10 * minutes} \<and> cf_VerificationTimeout c \<in> {1..30 * minutes} \<and>
    cf_CheckTimeout c \<in> {1..cf_VerificationTimeout c} \<and> cf_CacheMaxEntries c \<in> {100..1000000} \<and>
    cf_MaxAttestationSize c \<in> {1048576..100 * 1048576} \<and>
    (if remediation_Enabled (cf_Remediation c) then
       rm_Interval (cf_Remediation c) \<in> {30 * seconds..1 * hours} \<and>
       rm_Cooldown (cf_Remediation c) \<in> {30 * seconds..1 * hours} \<and>
       rm_BatchSize (cf_Remediation c) \<in> {1..100} \<and>
       tc_CPUQuotaPercent (rm_Throttle (cf_Remediation c)) \<in> {1..100} \<and>
       tc_MemoryLimitPercent (rm_Throttle (cf_Remediation c)) \<in> {1..100}
     else True)"
  using assms
proof (rule config_load_cases)
  fix m
  assume valid: "config_Validate url_Parse parse_ref_ok m = []" and c: "c = Normalize m"
  note parts = valid [unfolded Validate_ok_iff]
  have "validateTimeoutFields m = []" "validateCacheFields m = []"
    using parts by (simp_all add: validateFetchAndCache_def)
  note cache = this [unfolded validateTimeoutFields_def validateCacheFields_def, simplified]
  have "validateCheckTimeout m = []" "validateLimitsFields m = []"
    using parts by (simp_all add: validateResilienceFields_def)
  note limits = this [unfolded validateCheckTimeout_def validateLimitsFields_def, simplified]
  have res: "cf_CircuitBreakerThreshold m \<ge> 1 \<and> cf_CircuitBreakerCooldown m \<in> {1..10 * minutes} \<and>
      cf_VerificationTimeout m \<in> {1..30 * minutes}"
    using parts by (simp add: validateResilienceFields_def)
  have ttl: "cf_CacheFailureTTL c \<in> {0..cf_CacheTTL m}"
    using Normalize_failure_ttl [of m] cache c by simp
  have rem: "if remediation_Enabled (cf_Remediation m) then
       rm_Interval (cf_Remediation m) \<in> {30 * seconds..1 * hours} \<and>
       rm_Cooldown (cf_Remediation m) \<in> {30 * seconds..1 * hours} \<and>
       rm_BatchSize (cf_Remediation m) \<in> {1..100} \<and>
       tc_CPUQuotaPercent (rm_Throttle (cf_Remediation m)) \<in> {1..100} \<and>
       tc_MemoryLimitPercent (rm_Throttle (cf_Remediation m)) \<in> {1..100} else True"
  proof (cases "remediation_Enabled (cf_Remediation m)")
    case True
    then have "validateThrottleConfig (rm_Throttle (cf_Remediation m)) = []"
      using parts by (simp add: validateRemediationConfig_def Let_def)
    then show ?thesis
      using parts True by (simp add: validateRemediationConfig_def validateThrottleConfig_def Let_def split: if_splits)
  qed simp
  show ?thesis using cache limits res ttl rem by (simp add: c split: if_splits)
qed

lemma loaded_config_bounds_witness:
  "\<exists>c. config_load (\<lambda>_. None) (\<lambda>_. False) False (DefaultConfig\<lparr>cf_Verification := ModeEnforce\<rparr>) = Inr c \<and>
     cf_CacheFailureTTL c \<in> {0..cf_CacheTTL c}"
  using loaded_config_bounds [OF DefaultConfig_loads] DefaultConfig_loads by blast

end
