(* ===== verification/Throttle.thy ===== *)
theory Throttle
  imports Config
begin

text \<open>
  The resource limits of a container and how remediation changes them
  (src/internal/plugin/continuous_verifier_throttle.go).  The messages of the NRI API are records; an unset
  message or wrapper is None.  Limits keep their 64-bit width: \<open>int64\<close> values are read with \<^const>\<open>sint\<close>, and the
  multiplication by a percentage wraps around as in Go.
\<close>

section \<open>64-bit arithmetic\<close>

type_synonym int64 = "64 word"
type_synonym uint64 = "64 word"

text \<open>Go's division truncates toward zero.\<close>

definition sdiv64 :: "int64 \<Rightarrow> int64 \<Rightarrow> int64" where
  "sdiv64 a b = word_of_int (sgn (sint a) * sgn (sint b) * (\<bar>sint a\<bar> div \<bar>sint b\<bar>))"

definition smax64 :: "int64 \<Rightarrow> int64 \<Rightarrow> int64" where
  "smax64 a b = (if sint a < sint b then b else a)"

section \<open>Resources\<close>

record LinuxCPU =
  cpu_Shares :: "uint64 option"
  cpu_Quota :: "int64 option"
  cpu_Period :: "uint64 option"
  cpu_RealtimeRuntime :: "int64 option"
  cpu_RealtimePeriod :: "uint64 option"
  cpu_Cpus :: string
  cpu_Mems :: string

record LinuxMemory =
  mem_Limit :: "int64 option"
  mem_Reservation :: "int64 option"
  mem_Swap :: "int64 option"
  mem_Kernel :: "int64 option"
  mem_KernelTcp :: "int64 option"
  mem_Swappiness :: "uint64 option"
  mem_DisableOomKiller :: "bool option"
  mem_UseHierarchy :: "bool option"

text \<open>The remaining fields of the message are never looked into; \<open>lr_other\<close> stands for all of them.\<close>

record LinuxResources =
  lr_Memory :: "LinuxMemory option"
  lr_Cpu :: "LinuxCPU option"
  lr_other :: "string list"

definition empty_cpu :: LinuxCPU where
  "empty_cpu = \<lparr>cpu_Shares = None, cpu_Quota = None, cpu_Period = None, cpu_RealtimeRuntime = None,
     cpu_RealtimePeriod = None, cpu_Cpus = [], cpu_Mems = []\<rparr>"

definition empty_memory :: LinuxMemory where
  "empty_memory = \<lparr>mem_Limit = None, mem_Reservation = None, mem_Swap = None, mem_Kernel = None,
     mem_KernelTcp = None, mem_Swappiness = None, mem_DisableOomKiller = None, mem_UseHierarchy = None\<rparr>"

definition empty_resources :: LinuxResources where
  "empty_resources = \<lparr>lr_Memory = None, lr_Cpu = None, lr_other = []\<rparr>"

record ContainerUpdate =
  cu_ContainerId :: string
  cu_Resources :: LinuxResources
  cu_IgnoreFailure :: bool

text \<open>The generated getters are safe on unset messages.\<close>

definition get_quota :: "LinuxResources \<Rightarrow> int64 option" where
  "get_quota r = Option.bind (lr_Cpu r) cpu_Quota"

definition get_shares :: "LinuxResources \<Rightarrow> uint64 option" where
  "get_shares r = Option.bind (lr_Cpu r) cpu_Shares"

definition get_limit :: "LinuxResources \<Rightarrow> int64 option" where
  "get_limit r = Option.bind (lr_Memory r) mem_Limit"

section \<open>Throttling and rollback\<close>

definition minCPUQuotaMicros :: int64 where "minCPUQuotaMicros = 1000"
definition minCPUShares :: uint64 where "minCPUShares = 2"
definition minMemoryLimitBytes :: int64 where "minMemoryLimitBytes = 4194304"

definition throttlePercents :: "RemediationConfig option \<Rightarrow> int \<times> int" where
  "throttlePercents cfg =
     (let (cpuPercent, memPercent) =
            (case cfg of
               None \<Rightarrow> (0, 0)
             | Some c \<Rightarrow> (tc_CPUQuotaPercent (rm_Throttle c), tc_MemoryLimitPercent (rm_Throttle c)));
          cpuPercent = (if cpuPercent \<le> 0 then 10 else cpuPercent);
          memPercent = (if memPercent \<le> 0 then 100 else memPercent)
      in (min cpuPercent 100, min memPercent 100))"

definition throttled_int64 :: "int64 \<Rightarrow> int \<Rightarrow> int64 \<Rightarrow> int64" where
  "throttled_int64 v percent least = smax64 (sdiv64 (v * word_of_int percent) 100) least"

definition throttled_uint64 :: "uint64 \<Rightarrow> int \<Rightarrow> uint64 \<Rightarrow> uint64" where
  "throttled_uint64 v percent least = max ((v * word_of_int percent) div 100) least"

definition buildThrottleUpdate ::
  "RemediationConfig option \<Rightarrow> string \<Rightarrow> LinuxResources option \<Rightarrow> ContainerUpdate option" where
  "buildThrottleUpdate cfg containerID original =
     (case original of
        None \<Rightarrow> None
      | Some orig \<Rightarrow>
          (let (cpuPercent, memPercent) = throttlePercents cfg;
               cpu' = map_option (\<lambda>cpu. empty_cpu\<lparr>
                        cpu_Quota := map_option (\<lambda>q. throttled_int64 q cpuPercent minCPUQuotaMicros) (cpu_Quota cpu),
                        cpu_Shares := map_option (\<lambda>s. throttled_uint64 s cpuPercent minCPUShares) (cpu_Shares cpu)\<rparr>)
                        (lr_Cpu orig);
               mem' = (case lr_Memory orig of
                         None \<Rightarrow> None
                       | Some mem \<Rightarrow>
                           if memPercent < 100 then
                             Some (empty_memory\<lparr>
                               mem_Limit := map_option (\<lambda>l. throttled_int64 l memPercent minMemoryLimitBytes) (mem_Limit mem)\<rparr>)
                           else None)
           in Some \<lparr>cu_ContainerId = containerID,
                    cu_Resources = empty_resources\<lparr>lr_Cpu := cpu', lr_Memory := mem'\<rparr>,
                    cu_IgnoreFailure = False\<rparr>))"

definition buildRollbackUpdate :: "string \<Rightarrow> LinuxResources \<Rightarrow> ContainerUpdate" where
  "buildRollbackUpdate containerID original =
     \<lparr>cu_ContainerId = containerID,
      cu_Resources = empty_resources\<lparr>
        lr_Cpu := map_option (\<lambda>cpu. empty_cpu\<lparr>cpu_Quota := cpu_Quota cpu, cpu_Shares := cpu_Shares cpu\<rparr>) (lr_Cpu original),
        lr_Memory := map_option (\<lambda>l. empty_memory\<lparr>mem_Limit := Some l\<rparr>) (get_limit original)\<rparr>,
      cu_IgnoreFailure = False\<rparr>"

record limitMatch =
  lm_compared :: bool
  lm_matches :: bool
  lm_changed :: bool

definition compareLimit :: "'a option \<Rightarrow> 'a option \<Rightarrow> 'a option \<Rightarrow> limitMatch" where
  "compareLimit throttled current original =
     (case throttled of
        None \<Rightarrow> \<lparr>lm_compared = False, lm_matches = False, lm_changed = False\<rparr>
      | Some t \<Rightarrow> \<lparr>lm_compared = True, lm_matches = (current = Some t), lm_changed = (original \<noteq> Some t)\<rparr>)"

fun limits_loop :: "bool \<Rightarrow> bool \<Rightarrow> limitMatch list \<Rightarrow> bool" where
  "limits_loop compared changed [] = (compared \<and> changed)"
| "limits_loop compared changed (limit # rest) =
     (if \<not> lm_compared limit then limits_loop compared changed rest
      else if \<not> lm_matches limit then False
      else limits_loop True (changed \<or> lm_changed limit) rest)"

definition looksThrottled :: "RemediationConfig option \<Rightarrow> LinuxResources option \<Rightarrow> LinuxResources option \<Rightarrow> bool" where
  "looksThrottled cfg current original =
     (case (buildThrottleUpdate cfg [] original, original, current) of
        (Some u, Some orig, Some cur) \<Rightarrow>
          (let throttled = cu_Resources u in
           limits_loop False False
             [compareLimit (get_quota throttled) (get_quota cur) (get_quota orig),
              compareLimit (get_shares throttled) (get_shares cur) (get_shares orig),
              compareLimit (get_limit throttled) (get_limit cur) (get_limit orig)])
      | _ \<Rightarrow> False)"

section \<open>Bounds\<close>

lemma throttlePercents_range:
  "throttlePercents cfg = (c, m) \<Longrightarrow> c \<in> {1..100} \<and> m \<in> {1..100}"
  by (auto simp: throttlePercents_def Let_def split: option.splits if_splits)

lemma sint_of_int64: "- (2 ^ 63) \<le> x \<Longrightarrow> x < 2 ^ 63 \<Longrightarrow> sint (word_of_int x :: 64 word) = x"
  unfolding sint_sbintrunc' by (rule signed_take_bit_int_eq_self) simp_all

text \<open>The largest limit whose product with a percentage still fits in 64 bits.\<close>

definition max_exact_limit :: int where
  "max_exact_limit = (2 ^ 63 - 1) div 100"

lemma sint_scaled:
  assumes "0 \<le> sint v" "sint v \<le> max_exact_limit" "p \<in> {1..100}"
  shows "sint ((v :: int64) * word_of_int p) = sint v * p"
proof -
  have "sint v * p \<le> sint v * 100" using assms by (intro mult_left_mono) auto
  also have "\<dots> < 2 ^ 63" using assms(2) by (simp add: max_exact_limit_def)
  finally have less: "sint v * p < 2 ^ 63" .
  have p: "sint (word_of_int p :: 64 word) = p" using assms(3) by (intro sint_of_int64) auto
  have "0 \<le> sint v * p" using assms by simp
  then show ?thesis
    unfolding sint_word_mult p using less by (intro signed_take_bit_int_eq_self) auto
qed

lemma throttled_int64_exact:
  assumes "0 \<le> sint v" "sint v \<le> max_exact_limit" "p \<in> {1..100}"
  shows "sint (throttled_int64 v p least) = max (sint v * p div 100) (sint least)"
proof -
  have "0 \<le> sint v * p" using assms by simp
  moreover have "sint (100 :: 64 word) = 100" by simp
  moreover have "sint v * p div 100 \<le> sint v"
  proof -
    have "sint v * p \<le> sint v * 100" using assms by (intro mult_left_mono) auto
    then show ?thesis by simp
  qed
  moreover have "sint v < 2 ^ 63" using assms(2) by (simp add: max_exact_limit_def)
  ultimately have "sint (sdiv64 (v * word_of_int p) 100) = sint v * p div 100"
    unfolding sdiv64_def sint_scaled [OF assms]
    by (cases "sint v = 0") (auto simp: sgn_if sint_of_int64 zero_le_mult_iff)
  then show ?thesis by (simp add: throttled_int64_def smax64_def max_def)
qed

lemma uint_scaled:
  assumes "uint v \<le> max_exact_limit" "p \<in> {1..100}"
  shows "uint (throttled_uint64 v p least) = max (uint v * p div 100) (uint least)"
proof -
  have "uint v * p \<le> uint v * 100" using assms by (intro mult_left_mono) auto
  also have "\<dots> < 2 ^ 64" using assms(1) by (simp add: max_exact_limit_def)
  finally have less: "uint v * p < 2 ^ 64" .
  have p: "uint (word_of_int p :: 64 word) = p" using assms(2) by (simp add: uint_word_of_int)
  have nn: "0 \<le> uint v * p" using assms by simp
  have "uint (v * word_of_int p) = uint v * p"
    using less nn by (simp add: uint_word_arith_bintrs p take_bit_int_eq_self)
  then have "uint ((v * word_of_int p) div 100) = uint v * p div 100"
    by (simp add: uint_div_distrib)
  then show ?thesis
    by (simp add: throttled_uint64_def max_def word_le_def)
qed

definition limits :: "LinuxResources \<Rightarrow> int64 option \<times> uint64 option \<times> int64 option" where
  "limits r = (get_quota r, get_shares r, get_limit r)"

lemma buildThrottleUpdate_Some: "\<exists>u. buildThrottleUpdate cfg cid (Some orig) = Some u"
  by (cases "throttlePercents cfg") (simp add: buildThrottleUpdate_def)

lemma throttle_limits:
  assumes "buildThrottleUpdate cfg cid (Some orig) = Some u" and "throttlePercents cfg = (cp, mp)"
  shows "get_quota (cu_Resources u) = map_option (\<lambda>q. throttled_int64 q cp minCPUQuotaMicros) (get_quota orig)"
    and "get_shares (cu_Resources u) = map_option (\<lambda>s. throttled_uint64 s cp minCPUShares) (get_shares orig)"
    and "get_limit (cu_Resources u) =
      (if mp < 100 then map_option (\<lambda>l. throttled_int64 l mp minMemoryLimitBytes) (get_limit orig) else None)"
  using assms
  by (cases "lr_Cpu orig"; cases "lr_Memory orig";
      auto simp: buildThrottleUpdate_def get_quota_def get_shares_def get_limit_def empty_cpu_def empty_memory_def
        empty_resources_def Let_def)+

lemma rollback_limits:
  "get_quota (cu_Resources (buildRollbackUpdate cid orig)) = get_quota orig"
  "get_shares (cu_Resources (buildRollbackUpdate cid orig)) = get_shares orig"
  "get_limit (cu_Resources (buildRollbackUpdate cid orig)) = get_limit orig"
  by (cases "lr_Cpu orig"; cases "lr_Memory orig"; cases "get_limit orig";
      auto simp: buildRollbackUpdate_def get_quota_def get_shares_def get_limit_def empty_cpu_def empty_memory_def
        empty_resources_def)+

text \<open>For limits below the overflow bound, every limit a throttle update sets is the configured share of the
  original limit or the floor, whichever is larger.  It sets no limit the original lacks, and leaves memory
  alone at 100 percent.\<close>

lemma throttle_bounds:
  assumes "buildThrottleUpdate cfg cid (Some orig) = Some u" and "throttlePercents cfg = (cp, mp)"
    and "\<And>q. get_quota orig = Some q \<Longrightarrow> 0 \<le> sint q \<and> sint q \<le> max_exact_limit"
    and "\<And>s. get_shares orig = Some s \<Longrightarrow> uint s \<le> max_exact_limit"
    and "\<And>l. get_limit orig = Some l \<Longrightarrow> 0 \<le> sint l \<and> sint l \<le> max_exact_limit"
  shows "map_option sint (get_quota (cu_Resources u)) = map_option (\<lambda>q. max (sint q * cp div 100) 1000) (get_quota orig) \<and>
    map_option uint (get_shares (cu_Resources u)) = map_option (\<lambda>s. max (uint s * cp div 100) 2) (get_shares orig) \<and>
    map_option sint (get_limit (cu_Resources u)) =
      (if mp < 100 then map_option (\<lambda>l. max (sint l * mp div 100) 4194304) (get_limit orig) else None)"
proof -
  note r = throttlePercents_range [OF assms(2)]
  have "sint minCPUQuotaMicros = 1000" "uint minCPUShares = 2" "sint minMemoryLimitBytes = 4194304"
    by (simp_all add: minCPUQuotaMicros_def minCPUShares_def minMemoryLimitBytes_def)
  then show ?thesis
    using assms(3-5) r
    by (auto simp: throttle_limits [OF assms(1,2)] throttled_int64_exact uint_scaled option.map_comp o_def
        intro!: option.map_cong)
qed

definition sample_resources :: LinuxResources where
  "sample_resources = empty_resources\<lparr>
     lr_Cpu := Some (empty_cpu\<lparr>cpu_Quota := Some 50000, cpu_Shares := Some 1024, cpu_Period := Some 100000\<rparr>),
     lr_Memory := Some (empty_memory\<lparr>mem_Limit := Some 536870912\<rparr>)\<rparr>"

definition half_memory :: RemediationConfig where
  "half_memory = (cf_Remediation DefaultConfig)\<lparr>
     rm_Throttle := \<lparr>tc_CPUQuotaPercent = 10, tc_MemoryLimitPercent = 50\<rparr>\<rparr>"

lemma sample_limits:
  "get_quota sample_resources = Some 50000" "get_shares sample_resources = Some 1024"
  "get_limit sample_resources = Some 536870912" "throttlePercents (Some half_memory) = (10, 50)"
  by (simp_all add: sample_resources_def empty_resources_def empty_cpu_def empty_memory_def get_quota_def
      get_shares_def get_limit_def half_memory_def throttlePercents_def)

lemma throttle_bounds_witness:
  "\<exists>u. buildThrottleUpdate (Some half_memory) ''c1'' (Some sample_resources) = Some u \<and>
     map_option sint (get_quota (cu_Resources u)) = Some 5000 \<and>
     map_option sint (get_limit (cu_Resources u)) = Some 268435456"
proof -
  obtain u where u: "buildThrottleUpdate (Some half_memory) ''c1'' (Some sample_resources) = Some u"
    using buildThrottleUpdate_Some by blast
  show ?thesis
    using throttle_bounds [OF u sample_limits(4)] u sample_limits by (simp add: max_exact_limit_def)
qed

text \<open>Memory limits that mean "no limit" to the kernel are above the overflow bound or negative.  Scaling
  them wraps around or stays negative, and the floor of 4 MiB is what the container gets.\<close>

text \<open>C31: a container without a memory limit, reported as the kernel's page-aligned maximum or as -1, is throttled to
  4 MiB of memory by any configuration that throttles memory at 50 percent.\<close>

theorem throttle_unlimited_memory:
  assumes "throttlePercents cfg = (cp, 50)" and "get_limit orig = Some l"
    and "l = 9223372036854771712 \<or> l = - 1"
    and "buildThrottleUpdate cfg cid (Some orig) = Some u"
  shows "get_limit (cu_Resources u) = Some 4194304"
proof -
  have "throttled_int64 l 50 minMemoryLimitBytes = 4194304"
    using assms(3)
  proof
    assume l: "l = 9223372036854771712"
    show ?thesis unfolding l by code_simp
  next
    assume l: "l = - 1"
    show ?thesis unfolding l by code_simp
  qed
  then show ?thesis using throttle_limits(3) [OF assms(4,1)] assms(2) by simp
qed

theorem throttle_unlimited_memory_witness:
  "\<exists>u. buildThrottleUpdate (Some half_memory) ''c1''
       (Some (empty_resources\<lparr>lr_Memory := Some (empty_memory\<lparr>mem_Limit := Some 9223372036854771712\<rparr>)\<rparr>)) = Some u \<and>
     get_limit (cu_Resources u) = Some 4194304"
proof -
  let ?r = "empty_resources\<lparr>lr_Memory := Some (empty_memory\<lparr>mem_Limit := Some 9223372036854771712\<rparr>)\<rparr>"
  obtain u where u: "buildThrottleUpdate (Some half_memory) ''c1'' (Some ?r) = Some u"
    using buildThrottleUpdate_Some by blast
  have "get_limit ?r = Some 9223372036854771712" by (simp add: get_limit_def)
  from throttle_unlimited_memory [OF sample_limits(4) this _ u] u show ?thesis by auto
qed

section \<open>Throttle, rollback and recognition\<close>

text \<open>What the runtime does with an update: the limits it sets replace those of the container, the others stay.\<close>

definition updated_limits :: "LinuxResources \<Rightarrow> ContainerUpdate \<Rightarrow> LinuxResources \<Rightarrow> bool" where
  "updated_limits cur u cur' =
     (get_quota cur' = (if get_quota (cu_Resources u) = None then get_quota cur else get_quota (cu_Resources u)) \<and>
      get_shares cur' = (if get_shares (cu_Resources u) = None then get_shares cur else get_shares (cu_Resources u)) \<and>
      get_limit cur' = (if get_limit (cu_Resources u) = None then get_limit cur else get_limit (cu_Resources u)))"


lemma limits_loop_iff:
  "limits_loop cmp chg ms \<longleftrightarrow>
     (\<forall>m\<in>set ms. lm_compared m \<longrightarrow> lm_matches m) \<and> (cmp \<or> (\<exists>m\<in>set ms. lm_compared m)) \<and>
     (chg \<or> (\<exists>m\<in>set ms. lm_compared m \<and> lm_changed m))"
  by (induction cmp chg ms rule: limits_loop.induct) auto

lemma compareLimit_iff:
  "lm_compared (compareLimit t c o') \<longleftrightarrow> t \<noteq> None"
  "lm_compared (compareLimit t c o') \<Longrightarrow> lm_matches (compareLimit t c o') \<longleftrightarrow> c = t"
  "lm_compared (compareLimit t c o') \<Longrightarrow> lm_changed (compareLimit t c o') \<longleftrightarrow> o' \<noteq> t"
  by (auto simp: compareLimit_def split: option.splits)

lemma looksThrottled_iff:
  assumes "buildThrottleUpdate cfg [] (Some orig) = Some u"
  shows "looksThrottled cfg (Some cur) (Some orig) \<longleftrightarrow> updated_limits cur u cur \<and> \<not> updated_limits orig u orig"
  using assms
  by (auto simp: looksThrottled_def limits_loop_iff compareLimit_iff updated_limits_def Let_def)

text \<open>After a restart the plugin recognises exactly its own throttle: a container found with limits \<open>cur\<close> counts as
  throttled precisely when applying the throttle update of its recorded original limits would change none of
  \<open>cur\<close> but would change the originals.\<close>

lemma looksThrottled_exact:
  "looksThrottled cfg current original =
     (case (current, original, buildThrottleUpdate cfg [] original) of
        (Some cur, Some orig, Some u) \<Rightarrow> updated_limits cur u cur \<and> \<not> updated_limits orig u orig
      | _ \<Rightarrow> False)"
proof (cases "current = None \<or> original = None")
  case True
  then show ?thesis by (auto simp: looksThrottled_def buildThrottleUpdate_def split: option.splits)
next
  case False
  then obtain cur orig where eq: "current = Some cur" "original = Some orig" by auto
  obtain u where u: "buildThrottleUpdate cfg [] (Some orig) = Some u"
    using buildThrottleUpdate_Some by blast
  show ?thesis unfolding eq looksThrottled_iff [OF u] by (simp add: u)
qed


end
