(* ===== verification/Containers.thy ===== *)
theory Containers
  imports Throttle
begin

text \<open>
  The registry of running containers (src/internal/plugin/container_registry.go): the verification states, the record
  kept per container and the operations of the concurrent map.  Every operation holds the lock, so it is one
  step on the map.  The entries are pointers that only the registry keeps; they are modelled by value.
\<close>

section \<open>Container states\<close>

datatype VerificationState = StateVerified | StateSkipped | StateDegraded | StateThrottled

definition state_String :: "VerificationState \<Rightarrow> string" where
  "state_String s =
     (case s of
        StateVerified \<Rightarrow> ''verified''
      | StateSkipped \<Rightarrow> ''skipped''
      | StateDegraded \<Rightarrow> ''degraded''
      | StateThrottled \<Rightarrow> ''throttled'')"

record containerState =
  cs_imageRef :: string
  cs_digest :: string
  cs_indexDigest :: string
  cs_namespace :: string
  cs_serviceAccount :: string
  cs_createdAt :: time
  cs_state :: VerificationState
  cs_lastRemediation :: "time option"
  cs_lastTriggerHash :: string
  cs_originalResources :: "LinuxResources option"
  cs_purls :: "string list"
  cs_recoveredOnRestart :: bool
  cs_awaitingFirstResult :: bool
  cs_consecutiveErrors :: nat
  cs_consecutiveIncomplete :: nat
  cs_unresolvedDigest :: string

type_synonym containerRegistry = "string \<rightharpoonup> containerState"

section \<open>Operations\<close>

definition newContainerRegistry :: containerRegistry where
  "newContainerRegistry = Map.empty"

definition registry_Store :: "string \<Rightarrow> containerState \<Rightarrow> containerRegistry \<Rightarrow> containerRegistry" where
  "registry_Store cid cs m = m(cid \<mapsto> cs)"

definition StoreIfAbsent :: "string \<Rightarrow> containerState \<Rightarrow> containerRegistry \<Rightarrow> containerRegistry \<times> bool" where
  "StoreIfAbsent cid cs m = (if m cid \<noteq> None then (m, False) else (m(cid \<mapsto> cs), True))"

definition LoadAndDelete :: "string \<Rightarrow> containerRegistry \<Rightarrow> containerRegistry \<times> containerState option" where
  "LoadAndDelete cid m = (m(cid := None), m cid)"

text \<open>\<open>UpdateState\<close> with what the callback leaves in its captured variables: None when the container is gone.\<close>

definition UpdateState ::
  "string \<Rightarrow> (containerState \<Rightarrow> containerState \<times> 'a) \<Rightarrow> containerRegistry \<Rightarrow> containerRegistry \<times> 'a option" where
  "UpdateState cid updateFn m =
     (case m cid of
        None \<Rightarrow> (m, None)
      | Some cs \<Rightarrow> (let (cs', x) = updateFn cs in (m(cid \<mapsto> cs'), Some x)))"

abbreviation update_only :: "(containerState \<Rightarrow> containerState) \<Rightarrow> containerState \<Rightarrow> containerState \<times> unit" where
  "update_only f \<equiv> \<lambda>cs. (f cs, ())"

text \<open>\<open>ids\<close> enumerates the container ids in the order in which Go ranges over the map.\<close>

definition StateCounts :: "string list \<Rightarrow> containerRegistry \<Rightarrow> VerificationState \<Rightarrow> nat" where
  "StateCounts ids m s = length (filter (\<lambda>cid. map_option cs_state (m cid) = Some s) ids)"

definition IncompleteCount :: "string list \<Rightarrow> nat \<Rightarrow> containerRegistry \<Rightarrow> nat" where
  "IncompleteCount ids threshold m =
     length (filter (\<lambda>cid. case m cid of None \<Rightarrow> False | Some cs \<Rightarrow> cs_consecutiveIncomplete cs \<ge> threshold) ids)"

definition cleanStale :: "string set \<Rightarrow> containerRegistry \<Rightarrow> containerRegistry" where
  "cleanStale activeIDs m = m |` activeIDs"

section \<open>Laws\<close>

lemma UpdateState_other [simp]: "c \<noteq> cid \<Longrightarrow> fst (UpdateState cid f m) c = m c"
  by (simp add: UpdateState_def split: option.splits prod.splits)

lemma UpdateState_same: "fst (UpdateState cid f m) cid = map_option (fst \<circ> f) (m cid)"
  by (simp add: UpdateState_def split: option.splits prod.splits)

lemma UpdateState_result [simp]: "snd (UpdateState cid f m) = map_option (snd \<circ> f) (m cid)"
  by (simp add: UpdateState_def split: option.splits prod.splits)

lemma UpdateState_dom [simp]: "dom (fst (UpdateState cid f m)) = dom m"
  by (auto simp: UpdateState_def split: option.splits prod.splits if_splits)

lemma UpdateState_apply:
  "fst (UpdateState cid f m) c = (if c = cid then map_option (fst \<circ> f) (m c) else m c)"
  by (simp add: UpdateState_same)

lemma StateCounts_total:
  assumes "set ids = dom m"
  shows "StateCounts ids m StateVerified + StateCounts ids m StateSkipped +
    StateCounts ids m StateDegraded + StateCounts ids m StateThrottled = length ids"
proof -
  have "\<forall>cid\<in>set ids. \<exists>cs. m cid = Some cs" using assms by auto
  then show ?thesis
    unfolding StateCounts_def
  proof (induction ids)
    case (Cons a ids)
    then obtain cs where "m a = Some cs" by auto
    with Cons show ?case by (cases "cs_state cs") auto
  qed simp
qed

end
