(* ===== verification/Image_Digest.thy ===== *)
theory Image_Digest
  imports Containers
begin

text \<open>
  Which image a container runs (src/internal/plugin/plugin_digest.go): the image reference and the digest from the
  runtime's annotations, and the resolution of digests through the registry.

  The registry lookup \<open>digestResolver\<close> is an argument that passes a state along, since other goroutines run while it
  waits; it returns the manifest and the index digest or an error.  \<open>name.ParseReference\<close> is an argument that returns the
  repository name of a reference it accepts.
\<close>

section \<open>Messages of the runtime\<close>

record Container =
  ct_Id :: string
  ct_Name :: string
  ct_PodSandboxId :: string
  ct_Annotations :: "string \<rightharpoonup> string"
  ct_ImageName :: string
  ct_ImageDigest :: string
  ct_Resources :: "LinuxResources option"

record PodSandbox =
  pod_Id :: string
  pod_Name :: string
  pod_Namespace :: string
  pod_Annotations :: "string \<rightharpoonup> string"

text \<open>Reading a missing key of a Go map of strings gives the empty string.\<close>

definition lookup_or_empty :: "(string \<rightharpoonup> string) \<Rightarrow> string \<Rightarrow> string" where
  "lookup_or_empty m k = (case m k of None \<Rightarrow> [] | Some v \<Rightarrow> v)"

abbreviation AnnotationImageName :: string where "AnnotationImageName \<equiv> ''io.kubernetes.cri-o.ImageName''"
abbreviation AnnotationImage :: string where "AnnotationImage \<equiv> ''io.kubernetes.cri-o.Image''"
abbreviation AnnotationImageRef :: string where "AnnotationImageRef \<equiv> ''io.kubernetes.cri-o.ImageRef''"
abbreviation AnnotationImageRepoDigests :: string where
  "AnnotationImageRepoDigests \<equiv> ''io.kubernetes.cri-o.ImageRepoDigests''"
abbreviation AnnotationContainerdImage :: string where "AnnotationContainerdImage \<equiv> ''io.kubernetes.cri.image-name''"
abbreviation AnnotationContainerdImageRef :: string where "AnnotationContainerdImageRef \<equiv> ''io.kubernetes.cri.image-ref''"

section \<open>Image reference and digest from the annotations\<close>

definition validDigestOrEmpty :: "string \<Rightarrow> string" where
  "validDigestOrEmpty ref = (case ParseDigest ref of (algo, _) \<Rightarrow> if algo = [] then [] else ref)"

text \<open>The part after the first @, when it is a digest.\<close>

definition pinned_digest :: "string \<Rightarrow> string" where
  "pinned_digest ref = (case Cut ref (CHR ''@'') of None \<Rightarrow> [] | Some (_, d) \<Rightarrow> validDigestOrEmpty d)"

definition resolveCRIOImage :: "(string \<rightharpoonup> string) \<Rightarrow> string \<times> string" where
  "resolveCRIOImage annotations =
     (let imageRef = lookup_or_empty annotations AnnotationImageName;
          imageRef = (if imageRef = [] then lookup_or_empty annotations AnnotationImage else imageRef);
          repoDigests = lookup_or_empty annotations AnnotationImageRepoDigests;
          digest = (if repoDigests \<noteq> [] then
                      pinned_digest (case Cut repoDigests (CHR '','') of None \<Rightarrow> repoDigests | Some (first, _) \<Rightarrow> first)
                    else []);
          digest = (if digest = [] then validDigestOrEmpty (lookup_or_empty annotations AnnotationImageRef) else digest);
          digest = (if digest = [] then pinned_digest (lookup_or_empty annotations AnnotationImageRef) else digest)
      in (imageRef, digest))"

definition resolveImage :: "(string \<rightharpoonup> string) \<Rightarrow> string \<times> string" where
  "resolveImage annotations =
     (let (imageRef, digest) = resolveCRIOImage annotations in
      if imageRef \<noteq> [] \<and> digest \<noteq> [] then (imageRef, digest)
      else
        (let cImg = lookup_or_empty annotations AnnotationContainerdImage;
             cRef = validDigestOrEmpty (lookup_or_empty annotations AnnotationContainerdImageRef);
             cRef = (if cRef = [] \<and> cImg \<noteq> [] then pinned_digest cImg else cRef)
         in if cImg \<noteq> [] \<and> cRef \<noteq> [] then (cImg, cRef)
            else (if imageRef = [] then cImg else imageRef, if digest = [] then cRef else digest)))"

definition resolveContainerImage :: "Container \<Rightarrow> string \<times> string \<times> string" where
  "resolveContainerImage ctr =
     (let (imageRef, digest) = resolveImage (ct_Annotations ctr);
          imageRef = (if imageRef = [] then ct_ImageName ctr else imageRef);
          digest = (if digest = [] then pinned_digest (ct_ImageName ctr) else digest)
      in (imageRef, digest, validDigestOrEmpty (ct_ImageDigest ctr)))"

section \<open>Resolution through the registry\<close>

type_synonym 's resolver = "string \<Rightarrow> 's \<Rightarrow> (goerr + string \<times> string) \<times> 's"

definition pinnedReference :: "(string \<Rightarrow> string option) \<Rightarrow> string \<Rightarrow> string \<Rightarrow> string" where
  "pinnedReference parse_ref imageRef digest =
     (case parse_ref imageRef of
        None \<Rightarrow> (case Cut imageRef (CHR ''@'') of None \<Rightarrow> imageRef | Some (repository, _) \<Rightarrow> repository) @ ''@'' @ digest
      | Some repository \<Rightarrow> repository @ ''@'' @ digest)"

definition resolveRuntimeDigest ::
  "(string \<Rightarrow> string option) \<Rightarrow> 's resolver \<Rightarrow> string \<Rightarrow> string \<Rightarrow> 's \<Rightarrow> (goerr + string \<times> string) \<times> 's" where
  "resolveRuntimeDigest parse_ref digestResolver imageRef runtimeDigest s =
     (let pinned = pinnedReference parse_ref imageRef runtimeDigest;
          (res, s') = digestResolver pinned s
      in case res of
           Inl e \<Rightarrow> (Inl e, s')
         | Inr (digest, indexDigest) \<Rightarrow>
             if digest = [] then
               (Inl (errors_New (''registry returned no digest for '' @ pinned) [ErrEmptyDigest]), s')
             else (Inr (digest, indexDigest), s'))"

record digest_resolution =
  dr_digest :: string
  dr_indexDigest :: string
  dr_fromTag :: bool
  dr_unresolved :: bool

definition resolveImageDigests ::
  "(string \<Rightarrow> string option) \<Rightarrow> 's resolver \<Rightarrow> string \<Rightarrow> string \<Rightarrow> 's \<Rightarrow> (goerr + digest_resolution) \<times> 's" where
  "resolveImageDigests parse_ref digestResolver imageRef runtimeDigest s =
     (if runtimeDigest = [] then
        (let (res, s') = digestResolver imageRef s in
         (case res of
            Inl e \<Rightarrow> Inl e
          | Inr (digest, indexDigest) \<Rightarrow>
              Inr \<lparr>dr_digest = digest, dr_indexDigest = indexDigest, dr_fromTag = True, dr_unresolved = False\<rparr>, s'))
      else
        (let (res, s') = resolveRuntimeDigest parse_ref digestResolver imageRef runtimeDigest s in
         (case res of
            Inl e \<Rightarrow>
              if errors_Is e ErrAmbiguousPlatform \<or> errors_Is e ErrNoPlatformMatch then Inl e
              else Inr \<lparr>dr_digest = runtimeDigest, dr_indexDigest = [], dr_fromTag = False, dr_unresolved = True\<rparr>
          | Inr (digest, indexDigest) \<Rightarrow>
              Inr \<lparr>dr_digest = digest, dr_indexDigest = indexDigest, dr_fromTag = False, dr_unresolved = False\<rparr>, s')))"

definition resolveDigestIfMissing ::
  "(string \<Rightarrow> string option) \<Rightarrow> 's resolver \<Rightarrow> VerifyRequest \<Rightarrow> string \<Rightarrow> 's \<Rightarrow>
     (goerr + string \<times> string \<times> bool) \<times> 's" where
  "resolveDigestIfMissing parse_ref digestResolver req runtimeDigest s =
     (if rq_ImageRef req = [] \<or> rq_Digest req \<noteq> [] then (Inr (rq_Digest req, rq_IndexDigest req, False), s)
      else
        (let (res, s') = resolveImageDigests parse_ref digestResolver (rq_ImageRef req) runtimeDigest s in
         (case res of
            Inl e \<Rightarrow> Inl (Errorf_w (''resolving digest for '' @ rq_ImageRef req) e)
          | Inr d \<Rightarrow> Inr (dr_digest d, dr_indexDigest d, dr_unresolved d), s')))"

section \<open>Properties\<close>

definition empty_or_digest :: "string \<Rightarrow> bool" where
  "empty_or_digest d \<longleftrightarrow> d = [] \<or> valid_digest d"

lemma validDigestOrEmpty_typed [simp]: "empty_or_digest (validDigestOrEmpty ref)"
  by (auto simp: empty_or_digest_def validDigestOrEmpty_def valid_digest_def split: prod.splits)

lemma pinned_digest_typed [simp]: "empty_or_digest (pinned_digest ref)"
  by (auto simp: pinned_digest_def empty_or_digest_def [of "[]"] split: option.splits)

lemma resolveImage_typed:
  assumes "resolveImage annotations = (imageRef, digest)"
  shows "empty_or_digest digest"
proof -
  have crio: "empty_or_digest (snd (resolveCRIOImage annotations))"
    by (auto simp: resolveCRIOImage_def Let_def)
  show ?thesis
    using assms crio by (auto simp: resolveImage_def Let_def split: prod.splits if_splits)
qed

text \<open>Whatever annotations and image fields the runtime sends, the repository digest and the runtime digest the
  plugin takes from a container are each empty or a well-formed digest, and a digest-pinned image name is
  enough to get one.\<close>

lemma container_digests_typed:
  "case resolveContainerImage ctr of
     (imageRef, digest, runtimeDigest) \<Rightarrow>
       empty_or_digest digest \<and> empty_or_digest runtimeDigest \<and>
       (if pinned_digest (ct_ImageName ctr) = [] then True else digest \<noteq> [])"
  using resolveImage_typed [of "ct_Annotations ctr"]
  by (auto simp: resolveContainerImage_def Let_def split: prod.splits)



end
