(* ===== verification/Remediation.thy ===== *)
theory Remediation
  imports Image_Digest "HOL-Library.Char_ord" "HOL-Library.List_Lexorder"
begin

text \<open>
  Continuous re-verification and remediation of running containers (src/internal/plugin/continuous_verifier.go).

  The state is the part of the plugin the continuous verifier reads and writes; metric counters are a log of
  increments, histograms, gauges and log lines are left out.  Everything outside the package is an
  environment: the image verifier, the digest resolver, the NRI stub, the clock, the cancellation of the context and the
  pause between batches.  Its operations take and return the whole state, because other goroutines (admissions, stops)
  may change the registry while they run.  The order in which Go ranges over the registry is an argument.
\<close>

section \<open>State and environment\<close>

datatype metric =
    ReverificationTotal string string
  | RemediationActionsTotal string string
  | RemediationErrorsTotal string
  | VerificationSkippedTotal string string
  | ContainerLifetime string

record 'v Plugin =
  p_containers :: containerRegistry
  p_metrics :: "metric list"
  p_mode :: "RemediationMode option"
  p_cfg :: "RemediationConfig option"
  p_stub :: bool
  p_outside :: 'v

definition count :: "metric \<Rightarrow> 'v Plugin \<Rightarrow> 'v Plugin" where
  "count m p = p\<lparr>p_metrics := p_metrics p @ [m]\<rparr>"

definition on_container ::
  "string \<Rightarrow> (containerState \<Rightarrow> containerState \<times> 'a) \<Rightarrow> 'v Plugin \<Rightarrow> 'v Plugin \<times> 'a option" where
  "on_container cid f p = (let (m, x) = UpdateState cid f (p_containers p) in (p\<lparr>p_containers := m\<rparr>, x))"

record 'v env =
  ev_verify :: "VerifyRequest \<Rightarrow> 'v Plugin \<Rightarrow> (Result option \<times> goerr option) \<times> 'v Plugin"
  ev_invalidate :: "string \<Rightarrow> string \<Rightarrow> 'v Plugin \<Rightarrow> 'v Plugin"
  ev_resolver :: "'v Plugin resolver"
  ev_updateContainers :: "ContainerUpdate list \<Rightarrow> 'v Plugin \<Rightarrow> (goerr + ContainerUpdate list) \<times> 'v Plugin"
  ev_done :: "'v Plugin \<Rightarrow> bool"
  ev_yield :: "'v Plugin \<Rightarrow> 'v Plugin"
  ev_now :: "'v Plugin \<Rightarrow> time"
  ev_parse_ref :: "string \<Rightarrow> string option"
  ev_hash :: "string \<Rightarrow> string"

abbreviation triggerTimer :: string where "triggerTimer \<equiv> ''timer''"
abbreviation triggerFeed :: string where "triggerFeed \<equiv> ''feed''"
abbreviation triggerPolicyChange :: string where "triggerPolicyChange \<equiv> ''policy_change''"
abbreviation triggerPrewarm :: string where "triggerPrewarm \<equiv> ''prewarm''"

definition consecutiveErrorThreshold :: nat where
  "consecutiveErrorThreshold = 3"

record containerForReverify =
  tg_id :: string
  tg_imageRef :: string
  tg_digest :: string
  tg_indexDigest :: string
  tg_namespace :: string
  tg_serviceAccount :: string
  tg_state :: VerificationState

text \<open>A container update and the state transition to record once the runtime has applied it, with the action it counts
  as and the namespace it is counted for.\<close>

record pendingUpdate =
  pu_update :: ContainerUpdate
  pu_commit :: "time \<Rightarrow> containerState \<Rightarrow> containerState"
  pu_action :: string
  pu_namespace :: string

section \<open>Decisions on one container\<close>

definition computeTriggerHash :: "(string \<Rightarrow> string) \<Rightarrow> string \<Rightarrow> string \<Rightarrow> string list \<Rightarrow> string" where
  "computeTriggerHash hash trigger digest feedPURLs =
     (let input = trigger @ [CHR 0x00] @ digest;
          input = (if feedPURLs \<noteq> [] then
                     (if sorted feedPURLs then input @ [CHR 0x00] @ Join feedPURLs [CHR 0x00]
                      else input @ [CHR 0x00] @ Join (sort feedPURLs) [CHR 0x00])
                   else input)
      in hash input)"

fun purls_of_checks :: "CheckResult list \<Rightarrow> string list" where
  "purls_of_checks [] = []"
| "purls_of_checks (c # cs) =
     (if cr_Type c \<noteq> CheckTypeSBOM then purls_of_checks cs
      else (case Option.bind (cr_Metadata c) (\<lambda>m. m ''purls'') of
              Some (MStrs purls) \<Rightarrow> if purls \<noteq> [] then purls else purls_of_checks cs
            | _ \<Rightarrow> purls_of_checks cs))"

definition extractPURLsFromResult :: "Result option \<Rightarrow> string list" where
  "extractPURLsFromResult result = (case result of None \<Rightarrow> [] | Some r \<Rightarrow> purls_of_checks (r_CheckResults r))"

definition hasTrustedOriginals :: "containerState \<Rightarrow> bool" where
  "hasTrustedOriginals cs = (cs_originalResources cs \<noteq> None \<and> \<not> cs_recoveredOnRestart cs)"

definition cooldownElapsed :: "RemediationConfig option \<Rightarrow> time \<Rightarrow> containerState \<Rightarrow> bool" where
  "cooldownElapsed cfg now cs =
     (case cs_lastRemediation cs of
        None \<Rightarrow> True
      | Some prev \<Rightarrow>
          (let cooldown = (case cfg of
                 Some c \<Rightarrow> if rm_Cooldown c > 0 then rm_Cooldown c else DefaultRemediationCooldown
               | None \<Rightarrow> DefaultRemediationCooldown)
           in time_Sub now prev > cooldown))"

definition shouldThrottle ::
  "RemediationConfig option \<Rightarrow> time \<Rightarrow> containerState \<Rightarrow> RemediationMode \<Rightarrow> string \<Rightarrow> string \<Rightarrow> bool" where
  "shouldThrottle cfg now cs mode trigger triggerHash =
     (if Severity mode < Severity RemediationModeThrottle then False
      else if \<not> hasTrustedOriginals cs then False
      else cooldownElapsed cfg now cs \<and> (trigger = triggerTimer \<or> cs_lastTriggerHash cs \<noteq> triggerHash))"

definition throttleUpdate ::
  "RemediationConfig option \<Rightarrow> containerForReverify \<Rightarrow> LinuxResources option \<Rightarrow> string \<Rightarrow> pendingUpdate option" where
  "throttleUpdate cfg target original triggerHash =
     map_option (\<lambda>update. \<lparr>pu_update = update,
         pu_commit = (\<lambda>now cs. cs\<lparr>cs_state := StateThrottled, cs_lastRemediation := Some now,
                                 cs_lastTriggerHash := triggerHash\<rparr>),
         pu_action = ''throttle'', pu_namespace = tg_namespace target\<rparr>)
       (buildThrottleUpdate cfg (tg_id target) original)"

definition rollbackUpdate :: "containerForReverify \<Rightarrow> LinuxResources \<Rightarrow> pendingUpdate" where
  "rollbackUpdate target original =
     \<lparr>pu_update = buildRollbackUpdate (tg_id target) original,
      pu_commit = (\<lambda>_ cs. cs\<lparr>cs_state := StateVerified\<rparr>),
      pu_action = ''rollback'', pu_namespace = tg_namespace target\<rparr>"

text \<open>The callback of \<open>applyStateTransition\<close>: the new state, the pending update and the counted action.\<close>

definition transition ::
  "RemediationConfig option \<Rightarrow> time \<Rightarrow> containerForReverify \<Rightarrow> Result \<Rightarrow> bool \<Rightarrow> string \<Rightarrow> RemediationMode \<Rightarrow> string \<Rightarrow>
     containerState \<Rightarrow> containerState \<times> pendingUpdate option \<times> string option" where
  "transition cfg now target result degraded trigger mode triggerHash cs0 =
     (let cs = cs0\<lparr>cs_purls := extractPURLsFromResult (Some result), cs_awaitingFirstResult := False\<rparr>;
          prevState = cs_state cs
      in if \<not> degraded \<and> prevState = StateSkipped then
           (cs\<lparr>cs_state := StateVerified\<rparr>, None, None)
         else if \<not> degraded \<and> prevState = StateThrottled \<and> hasTrustedOriginals cs then
           (cs, map_option (rollbackUpdate target) (cs_originalResources cs), None)
         else if \<not> degraded \<and> prevState \<noteq> StateVerified then
           (cs\<lparr>cs_state := StateVerified\<rparr>, None, Some ''recover'')
         else if degraded \<and> (prevState = StateVerified \<or> prevState = StateSkipped) then
           (cs\<lparr>cs_state := StateDegraded, cs_lastTriggerHash := triggerHash\<rparr>, None, Some ''warn'')
         else if degraded \<and> prevState = StateDegraded then
           (if shouldThrottle cfg now cs mode trigger triggerHash
            then (cs, throttleUpdate cfg target (cs_originalResources cs) triggerHash, None)
            else (cs, None, None))
         else (cs, None, None))"

definition applyStateTransition ::
  "'v env \<Rightarrow> containerForReverify \<Rightarrow> Result \<Rightarrow> bool \<Rightarrow> string \<Rightarrow> RemediationMode \<Rightarrow> string list \<Rightarrow> 'v Plugin \<Rightarrow>
     pendingUpdate option \<times> 'v Plugin" where
  "applyStateTransition ev target result degraded trigger mode feedPURLs p =
     (let triggerHash = computeTriggerHash (ev_hash ev) trigger (tg_digest target) feedPURLs;
          (p', out) = on_container (tg_id target)
             (transition (p_cfg p) (ev_now ev p) target result degraded trigger mode triggerHash) p
      in case out of
           None \<Rightarrow> (None, p')
         | Some (pending, action) \<Rightarrow>
             (pending, case action of None \<Rightarrow> p' | Some a \<Rightarrow> count (RemediationActionsTotal a (tg_namespace target)) p'))"

section \<open>Re-verification\<close>

definition recordIncompleteReverification :: "containerForReverify \<Rightarrow> 'v Plugin \<Rightarrow> 'v Plugin" where
  "recordIncompleteReverification target p =
     fst (on_container (tg_id target)
       (update_only (\<lambda>cs. cs\<lparr>cs_consecutiveIncomplete := Suc (cs_consecutiveIncomplete cs)\<rparr>)) p)"

definition handleReverifyError :: "containerForReverify \<Rightarrow> 'v Plugin \<Rightarrow> 'v Plugin" where
  "handleReverifyError target p =
     (let p = count (ReverificationTotal (tg_namespace target) ''error'') p;
          (p', out) = on_container (tg_id target) (\<lambda>cs0.
             let cs = cs0\<lparr>cs_consecutiveErrors := Suc (cs_consecutiveErrors cs0)\<rparr> in
             if cs_consecutiveErrors cs \<ge> consecutiveErrorThreshold \<and>
                (cs_state cs = StateVerified \<or> cs_state cs = StateSkipped)
             then (cs\<lparr>cs_state := StateDegraded\<rparr>, True) else (cs, False)) p
      in if out = Some True then count (RemediationActionsTotal ''warn'' (tg_namespace target)) p' else p')"

definition invalidateOnce ::
  "'v env \<Rightarrow> containerForReverify \<Rightarrow> string set \<Rightarrow> 'v Plugin \<Rightarrow> string set \<times> 'v Plugin" where
  "invalidateOnce ev target invalidated p =
     (let key = tg_digest target @ [CHR 0x00] @ tg_namespace target in
      if key \<in> invalidated then (invalidated, p)
      else (insert key invalidated, ev_invalidate ev (tg_digest target) (tg_namespace target) p))"

definition verifyTarget ::
  "'v env \<Rightarrow> containerForReverify \<Rightarrow> 'v Plugin \<Rightarrow> (Result option \<times> goerr option) \<times> 'v Plugin" where
  "verifyTarget ev target p =
     ev_verify ev \<lparr>rq_ImageRef = tg_imageRef target, rq_Digest = tg_digest target, rq_IndexDigest = tg_indexDigest target,
       rq_Namespace = tg_namespace target, rq_ServiceAccount = tg_serviceAccount target\<rparr> p"

definition reverifyContainer ::
  "'v env \<Rightarrow> containerForReverify \<Rightarrow> string \<Rightarrow> RemediationMode \<Rightarrow> string list \<Rightarrow> string set \<Rightarrow> 'v Plugin \<Rightarrow>
     pendingUpdate option \<times> string set \<times> 'v Plugin" where
  "reverifyContainer ev target trigger mode feedPURLs invalidated p =
     (let (invalidated, p) =
            (if trigger = triggerFeed then invalidateOnce ev target invalidated p else (invalidated, p));
          ((result, err), p) = verifyTarget ev target p
      in if ev_done ev p then (None, invalidated, p)
         else
           (case (result, err) of
              (None, _) \<Rightarrow> (None, invalidated, handleReverifyError target p)
            | (Some r, _) \<Rightarrow>
                if (case err of None \<Rightarrow> False | Some e \<Rightarrow> \<not> errors_Is e ErrVerificationFailed)
                then (None, invalidated, handleReverifyError target p)
                else if Incomplete r then
                  (None, invalidated, recordIncompleteReverification target
                     (count (ReverificationTotal (tg_namespace target) ''incomplete'') p))
                else
                  (let p = fst (on_container (tg_id target)
                             (update_only (\<lambda>cs. cs\<lparr>cs_consecutiveErrors := 0, cs_consecutiveIncomplete := 0\<rparr>)) p);
                       degraded = (\<not> r_Verified r);
                       p = count (ReverificationTotal (tg_namespace target) (if degraded then ''degraded'' else ''pass'')) p;
                       (pending, p) = applyStateTransition ev target r degraded trigger mode feedPURLs p
                   in (pending, invalidated, p))))"

section \<open>The cycle\<close>

definition resolveTargetDigest ::
  "'v env \<Rightarrow> containerForReverify \<Rightarrow> string \<Rightarrow> (string \<rightharpoonup> goerr + string \<times> string) \<Rightarrow> 'v Plugin \<Rightarrow>
     containerForReverify option \<times> (string \<rightharpoonup> goerr + string \<times> string) \<times> 'v Plugin" where
  "resolveTargetDigest ev target runtimeDigest resolved p =
     (let key = tg_imageRef target @ [CHR 0x00] @ runtimeDigest;
          (res, resolved, p) =
            (case resolved key of
               Some res \<Rightarrow> (res, resolved, p)
             | None \<Rightarrow>
                 (let (res, p) = resolveRuntimeDigest (ev_parse_ref ev) (ev_resolver ev) (tg_imageRef target) runtimeDigest p
                  in (res, resolved(key \<mapsto> res), p)))
      in case res of
           Inl e \<Rightarrow>
             (None, resolved, recordIncompleteReverification target
                (count (ReverificationTotal (tg_namespace target) ''incomplete'') p))
         | Inr (digest, indexDigest) \<Rightarrow>
             (let p = fst (on_container (tg_id target) (update_only (\<lambda>cs.
                        if cs_unresolvedDigest cs = runtimeDigest then
                          cs\<lparr>cs_digest := digest, cs_indexDigest := indexDigest, cs_unresolvedDigest := []\<rparr>
                        else cs)) p)
              in (Some (target\<lparr>tg_digest := digest, tg_indexDigest := indexDigest\<rparr>), resolved, p)))"

definition snapshot_target :: "string \<Rightarrow> containerState \<Rightarrow> containerForReverify" where
  "snapshot_target cid cs =
     \<lparr>tg_id = cid, tg_imageRef = cs_imageRef cs, tg_digest = cs_digest cs, tg_indexDigest = cs_indexDigest cs,
      tg_namespace = cs_namespace cs, tg_serviceAccount = cs_serviceAccount cs, tg_state = cs_state cs\<rparr>"

fun collect_targets ::
  "'v env \<Rightarrow> string set option \<Rightarrow> containerRegistry \<Rightarrow> string list \<Rightarrow> (string \<rightharpoonup> goerr + string \<times> string) \<Rightarrow> 'v Plugin \<Rightarrow>
     containerForReverify list \<times> 'v Plugin" where
  "collect_targets ev filterIDs snapshot [] resolved p = ([], p)"
| "collect_targets ev filterIDs snapshot (cid # ids) resolved p =
     (case snapshot cid of
        None \<Rightarrow> collect_targets ev filterIDs snapshot ids resolved p
      | Some csnap \<Rightarrow>
          if (case filterIDs of None \<Rightarrow> False | Some keep \<Rightarrow> cid \<notin> keep)
          then collect_targets ev filterIDs snapshot ids resolved p
          else
            (let (target, resolved, p) =
                   (if cs_unresolvedDigest csnap \<noteq> []
                    then resolveTargetDigest ev (snapshot_target cid csnap) (cs_unresolvedDigest csnap) resolved p
                    else (Some (snapshot_target cid csnap), resolved, p));
                 (targets, p) = collect_targets ev filterIDs snapshot ids resolved p
             in case target of
                  None \<Rightarrow> (targets, p)
                | Some t \<Rightarrow> (if tg_digest t = [] then targets else t # targets, p)))"

fun reverify_batch ::
  "'v env \<Rightarrow> containerForReverify list \<Rightarrow> string \<Rightarrow> RemediationMode \<Rightarrow> string list \<Rightarrow> string set \<Rightarrow> 'v Plugin \<Rightarrow>
     pendingUpdate list \<times> string set \<times> 'v Plugin" where
  "reverify_batch ev [] trigger mode feedPURLs invalidated p = ([], invalidated, p)"
| "reverify_batch ev (t # ts) trigger mode feedPURLs invalidated p =
     (let (update, invalidated, p) = reverifyContainer ev t trigger mode feedPURLs invalidated p;
          (updates, invalidated, p) = reverify_batch ev ts trigger mode feedPURLs invalidated p
      in ((case update of None \<Rightarrow> updates | Some u \<Rightarrow> u # updates), invalidated, p))"

text \<open>The loop over batches.  The Boolean tells whether the context was cancelled, which abandons the updates.\<close>

partial_function (option) batch_loop ::
  "'v env \<Rightarrow> nat \<Rightarrow> containerForReverify list \<Rightarrow> string \<Rightarrow> RemediationMode \<Rightarrow> string list \<Rightarrow> nat \<Rightarrow>
     pendingUpdate list \<Rightarrow> string set \<Rightarrow> 'v Plugin \<Rightarrow> (bool \<times> pendingUpdate list \<times> 'v Plugin) option" where
  "batch_loop ev batchSize targets trigger mode feedPURLs batchStart updates invalidated p =
     (if batchStart < length targets then
        (if ev_done ev p then Some (True, updates, p)
         else
           (let batch = take batchSize (drop batchStart targets);
                (new, invalidated', p') = reverify_batch ev batch trigger mode feedPURLs invalidated p
            in if batchStart + batchSize < length targets then
                 (let p'' = ev_yield ev p' in
                  if ev_done ev p'' then Some (True, updates @ new, p'')
                  else batch_loop ev batchSize targets trigger mode feedPURLs (batchStart + batchSize)
                         (updates @ new) invalidated' p'')
               else batch_loop ev batchSize targets trigger mode feedPURLs (batchStart + batchSize)
                      (updates @ new) invalidated' p'))
      else Some (False, updates, p))"

definition batchSize :: "RemediationConfig option \<Rightarrow> nat" where
  "batchSize cfg =
     (case cfg of
        Some c \<Rightarrow> if rm_BatchSize c > 0 then nat (rm_BatchSize c) else nat DefaultRemediationBatchSize
      | None \<Rightarrow> nat DefaultRemediationBatchSize)"

fun commit_updates :: "'v env \<Rightarrow> string set \<Rightarrow> pendingUpdate list \<Rightarrow> 'v Plugin \<Rightarrow> 'v Plugin" where
  "commit_updates ev failedIDs [] p = p"
| "commit_updates ev failedIDs (pu # pus) p =
     (if cu_ContainerId (pu_update pu) \<in> failedIDs then commit_updates ev failedIDs pus p
      else
        (let (p', out) = on_container (cu_ContainerId (pu_update pu)) (update_only (pu_commit pu (ev_now ev p))) p
         in commit_updates ev failedIDs pus
              (if out = None then p' else count (RemediationActionsTotal (pu_action pu) (pu_namespace pu)) p')))"

definition applyUpdates :: "'v env \<Rightarrow> pendingUpdate list \<Rightarrow> 'v Plugin \<Rightarrow> 'v Plugin" where
  "applyUpdates ev pending p =
     (if \<not> p_stub p then count (RemediationErrorsTotal ''update'') p
      else
        (let (out, p) = ev_updateContainers ev (map pu_update pending) p in
         case out of
           Inl _ \<Rightarrow> count (RemediationErrorsTotal ''update'') p
         | Inr failed \<Rightarrow>
             commit_updates ev (cu_ContainerId ` set failed) pending
               (fold (\<lambda>_. count (RemediationErrorsTotal ''partial'')) failed p)))"

definition runVerificationCycle ::
  "'v env \<Rightarrow> string list \<Rightarrow> string \<Rightarrow> string set option \<Rightarrow> string list \<Rightarrow> 'v Plugin \<Rightarrow> 'v Plugin option" where
  "runVerificationCycle ev ids trigger filterIDs feedPURLs p =
     (let mode = (case p_mode p of None \<Rightarrow> RemediationModeDisabled | Some m \<Rightarrow> m);
          (targets, p') = collect_targets ev filterIDs (p_containers p) ids Map.empty p
      in if targets = [] then Some p'
         else
           map_option (\<lambda>(cancelled, updates, p).
               if cancelled \<or> updates = [] then p else applyUpdates ev updates p)
             (batch_loop ev (batchSize (p_cfg p')) targets trigger mode feedPURLs 0 [] {} p'))"

text \<open>Stopping the verifier: the throttled containers with known limits get them back.\<close>

definition release_update :: "string \<Rightarrow> containerState \<Rightarrow> LinuxResources \<Rightarrow> pendingUpdate" where
  "release_update cid cs original =
     \<lparr>pu_update = buildRollbackUpdate cid original, pu_commit = (\<lambda>_ cs. cs\<lparr>cs_state := StateDegraded\<rparr>),
      pu_action = ''rollback'', pu_namespace = cs_namespace cs\<rparr>"

definition releases :: "string list \<Rightarrow> containerRegistry \<Rightarrow> pendingUpdate list" where
  "releases ids snapshot = concat (map (\<lambda>cid.
     case snapshot cid of
       None \<Rightarrow> []
     | Some cs \<Rightarrow>
         if cs_state cs \<noteq> StateThrottled \<or> \<not> hasTrustedOriginals cs then []
         else (case cs_originalResources cs of None \<Rightarrow> [] | Some r \<Rightarrow> [release_update cid cs r])) ids)"

definition releaseThrottledContainers :: "'v env \<Rightarrow> string list \<Rightarrow> 'v Plugin \<Rightarrow> 'v Plugin" where
  "releaseThrottledContainers ev ids p =
     (let updates = releases ids (p_containers p) in if updates = [] then p else applyUpdates ev updates p)"

definition recordResourceUpdate :: "string \<Rightarrow> LinuxResources option \<Rightarrow> 'v Plugin \<Rightarrow> 'v Plugin" where
  "recordResourceUpdate containerID current p =
     (case current of
        None \<Rightarrow> p
      | Some cur \<Rightarrow>
          fst (on_container containerID (update_only (\<lambda>cs.
            if cs_originalResources cs = Some cur \<or> looksThrottled (p_cfg p) (Some cur) (cs_originalResources cs) then cs
            else
              (let cs = cs\<lparr>cs_originalResources := Some cur, cs_recoveredOnRestart := False\<rparr> in
               if cs_state cs = StateThrottled then cs\<lparr>cs_state := StateDegraded\<rparr> else cs))) p))"

section \<open>Batching\<close>

declare batch_loop.simps [code]

lemma batch_loop_returns:
  assumes "0 < n"
  shows "\<exists>y. batch_loop ev n targets trigger mode feed start updates seen p = Some y"
proof (induction "length targets - start" arbitrary: start updates seen p rule: less_induct)
  case less
  show ?case
  proof (cases "start < length targets")
    case False
    then have "batch_loop ev n targets trigger mode feed start updates seen p = Some (False, updates, p)"
      by (simp add: batch_loop.simps)
    then show ?thesis by blast
  next
    case True
    then have "length targets - (start + n) < length targets - start" using assms by simp
    from less [OF this] show ?thesis
      by (subst batch_loop.simps) (auto simp: Let_def split: prod.splits)
  qed
qed

lemma batchSize_pos: "0 < batchSize cfg"
  by (simp add: batchSize_def DefaultRemediationBatchSize_def split: option.splits)

text \<open>C28: a verification cycle always returns, whatever the configuration, the containers, the batch size in effect and
  the answers of the verifier, the registry and the runtime.\<close>

theorem cycle_returns: "\<exists>p'. runVerificationCycle ev ids trigger filterIDs feedPURLs p = Some p'"
proof -
  obtain targets p1 where t: "collect_targets ev filterIDs (p_containers p) ids Map.empty p = (targets, p1)"
    by (rule prod.exhaust)
  show ?thesis
    using batch_loop_returns [OF batchSize_pos, of ev "p_cfg p1" targets trigger _ feedPURLs 0 "[]" "{}" p1]
    by (auto simp: runVerificationCycle_def t Let_def)
qed

lemma reverify_batch_append:
  "reverify_batch ev (ts @ us) trigger mode feed seen p =
     (let (u1, seen1, p1) = reverify_batch ev ts trigger mode feed seen p;
          (u2, seen2, p2) = reverify_batch ev us trigger mode feed seen1 p1
      in (u1 @ u2, seen2, p2))"
  by (induction ts arbitrary: seen p) (auto simp: Let_def split: prod.splits option.splits)

lemma batch_loop_all:
  assumes "0 < n" and "\<And>q. \<not> ev_done ev q" and "\<And>q. ev_yield ev q = q"
  shows "batch_loop ev n targets trigger mode feed start updates seen p =
    (case reverify_batch ev (drop start targets) trigger mode feed seen p of
       (new, _, p') \<Rightarrow> Some (False, updates @ new, p'))"
proof (induction "length targets - start" arbitrary: start updates seen p rule: less_induct)
  case less
  show ?case
  proof (cases "start < length targets")
    case False
    then show ?thesis by (simp add: batch_loop.simps)
  next
    case True
    then have dec: "length targets - (start + n) < length targets - start" using assms(1) by simp
    have split: "drop start targets = take n (drop start targets) @ drop (start + n) targets"
      by (simp add: add.commute flip: drop_drop)
    show ?thesis
      using True less [OF dec]
      by (subst split, subst batch_loop.simps)
         (auto simp: assms(2,3) reverify_batch_append Let_def split: prod.splits)
  qed
qed


section \<open>What one cycle does to a container\<close>

lemmas cycle_simps = on_container_def count_def Let_def

text \<open>The environment leaves the registry alone: no container is created, stopped or resized during the cycle.\<close>

definition quiet :: "'v env \<Rightarrow> bool" where
  "quiet ev \<longleftrightarrow>
     (\<forall>r p. p_containers (snd (ev_verify ev r p)) = p_containers p) \<and>
     (\<forall>d n p. p_containers (ev_invalidate ev d n p) = p_containers p) \<and>
     (\<forall>r p. p_containers (snd (ev_resolver ev r p)) = p_containers p) \<and>
     (\<forall>us p. p_containers (snd (ev_updateContainers ev us p)) = p_containers p) \<and>
     (\<forall>p. p_containers (ev_yield ev p) = p_containers p)"

lemma quietD:
  assumes "quiet ev"
  shows "ev_verify ev r p = (x, p') \<Longrightarrow> p_containers p' = p_containers p"
    and "p_containers (ev_invalidate ev d n p) = p_containers p"
    and "ev_resolver ev ref p = (y, p') \<Longrightarrow> p_containers p' = p_containers p"
    and "ev_updateContainers ev us p = (z, p') \<Longrightarrow> p_containers p' = p_containers p"
    and "p_containers (ev_yield ev p) = p_containers p"
  using assms by (metis quiet_def snd_conv)+

text \<open>The state of a container and whether its original limits are known.\<close>

definition cview :: "'v Plugin \<Rightarrow> string \<Rightarrow> (VerificationState \<times> bool) option" where
  "cview p c = map_option (\<lambda>cs. (cs_state cs, hasTrustedOriginals cs)) (p_containers p c)"

lemma cview_count [simp]: "cview (count m p) = cview p" "p_containers (count m p) = p_containers p"
  by (simp_all add: cview_def count_def fun_eq_iff)

lemma cview_cong: "p_containers p = p_containers q \<Longrightarrow> cview p = cview q"
  by (simp add: cview_def fun_eq_iff)

lemma on_container_view:
  assumes "on_container cid f p = (p', x)"
  shows "cview p' c =
    (if c = cid then map_option (\<lambda>cs. (cs_state (fst (f cs)), hasTrustedOriginals (fst (f cs)))) (p_containers p c)
     else cview p c)"
    and "x = map_option (snd \<circ> f) (p_containers p cid)"
  using assms
  by (auto simp: on_container_def cview_def UpdateState_def Let_def split: option.splits prod.splits)

lemma on_container_same_view:
  assumes "\<And>cs. cs_state (fst (f cs)) = cs_state cs" "\<And>cs. hasTrustedOriginals (fst (f cs)) = hasTrustedOriginals cs"
  shows "cview (fst (on_container cid f p)) = cview p"
proof
  fix c
  obtain p' x where "on_container cid f p = (p', x)" by (rule prod.exhaust)
  from on_container_view(1) [OF this, of c] this show "cview (fst (on_container cid f p)) c = cview p c"
    by (simp add: assms cview_def)
qed

lemma recordIncomplete_view [simp]: "cview (recordIncompleteReverification t p) = cview p"
  unfolding recordIncompleteReverification_def
  by (rule on_container_same_view) (simp_all add: hasTrustedOriginals_def)

lemma invalidateOnce_view:
  assumes "quiet ev" "invalidateOnce ev t seen p = (seen', p')"
  shows "p_containers p' = p_containers p"
  using assms by (auto simp: invalidateOnce_def Let_def quietD split: if_splits)

lemma resolveRuntimeDigest_view:
  assumes "quiet ev" "resolveRuntimeDigest parse (ev_resolver ev) ref d p = (res, p')"
  shows "p_containers p' = p_containers p"
  using assms by (auto simp: resolveRuntimeDigest_def Let_def dest: quietD split: sum.splits prod.splits if_splits)

lemma resolveTargetDigest_view:
  assumes "quiet ev" "resolveTargetDigest ev t d resolved p = (t', resolved', p')"
  shows "cview p' = cview p" "\<And>x. t' = Some x \<Longrightarrow> tg_id x = tg_id t"
proof -
  have keep: "cview (fst (on_container (tg_id t) (update_only (\<lambda>cs. if cs_unresolvedDigest cs = d
      then cs\<lparr>cs_digest := g, cs_indexDigest := i, cs_unresolvedDigest := []\<rparr> else cs)) q)) = cview q" for q g i
    by (rule on_container_same_view) (simp_all add: hasTrustedOriginals_def)
  show "cview p' = cview p"
    using assms cview_cong [OF resolveRuntimeDigest_view [OF assms(1)]]
    by (auto simp: resolveTargetDigest_def keep Let_def split: option.splits prod.splits sum.splits)
  show "tg_id x = tg_id t" if "t' = Some x" for x
    using assms(2) that
    by (auto simp: resolveTargetDigest_def Let_def split: option.splits prod.splits sum.splits)
qed

lemma collect_targets_view:
  assumes "quiet ev" "collect_targets ev filterIDs snapshot ids resolved p = (ts, p')"
  shows "cview p' = cview p \<and> set (map tg_id ts) \<subseteq> set ids \<and> (distinct ids \<longrightarrow> distinct (map tg_id ts))"
  using assms(2)
proof (induction ids arbitrary: resolved p ts p')
  case (Cons c ids)
  show ?case
  proof (cases "snapshot c = None \<or> (case filterIDs of None \<Rightarrow> False | Some keep \<Rightarrow> c \<notin> keep)")
    case True
    then have "collect_targets ev filterIDs snapshot ids resolved p = (ts, p')"
      using Cons.prems by (auto split: option.splits)
    from Cons.IH [OF this] show ?thesis by auto
  next
    case False
    then obtain cs where snap: "snapshot c = Some cs" by auto
    obtain t r1 p1 where first: "(if cs_unresolvedDigest cs \<noteq> []
        then resolveTargetDigest ev (snapshot_target c cs) (cs_unresolvedDigest cs) resolved p
        else (Some (snapshot_target c cs), resolved, p)) = (t, r1, p1)"
      using prod_cases3 by blast
    have v1: "cview p1 = cview p" and tid: "\<And>x. t = Some x \<Longrightarrow> tg_id x = c"
      using first resolveTargetDigest_view [OF assms(1)]
      by (auto simp: snapshot_target_def split: if_splits)
    obtain us p2 where rest: "collect_targets ev filterIDs snapshot ids r1 p1 = (us, p2)" by (rule prod.exhaust)
    have "(ts, p') = (case t of None \<Rightarrow> (us, p2) | Some t \<Rightarrow> (if tg_digest t = [] then us else t # us, p2))"
      using Cons.prems False first rest by (simp add: snap split: if_splits)
    then have "p' = p2" "ts = us \<or> (\<exists>x. t = Some x \<and> ts = x # us)"
      by (auto split: option.splits if_splits)
    then show ?thesis using Cons.IH [OF rest] v1 tid by (auto simp: image_subset_iff)
  qed
qed simp

text \<open>One step of the remediation state machine, as the documentation describes it: a warning always comes before
  throttling, and only the throttle and evict modes throttle.\<close>

inductive remediation_step :: "RemediationMode \<Rightarrow> VerificationState \<Rightarrow> VerificationState \<Rightarrow> bool" for mode where
  first_pass: "remediation_step mode StateSkipped StateVerified"
| warn_verified: "remediation_step mode StateVerified StateDegraded"
| warn_skipped: "remediation_step mode StateSkipped StateDegraded"
| recover: "remediation_step mode StateDegraded StateVerified"
| rollback: "remediation_step mode StateThrottled StateVerified"
| throttle: "Severity mode \<ge> Severity RemediationModeThrottle \<Longrightarrow> remediation_step mode StateDegraded StateThrottled"

inductive_simps remediation_step_simps [simp]:
  "remediation_step mode StateVerified s" "remediation_step mode StateSkipped s"
  "remediation_step mode StateDegraded s" "remediation_step mode StateThrottled s"

text \<open>A pending update that suits the state the container has: it throttles a degraded container with known
  limits, or rolls back a throttled one.\<close>

definition suits :: "RemediationMode \<Rightarrow> 'v Plugin \<Rightarrow> pendingUpdate \<Rightarrow> bool" where
  "suits mode p u \<longleftrightarrow>
     (\<exists>s s'. cview p (cu_ContainerId (pu_update u)) = Some (s, True) \<and> remediation_step mode s s' \<and>
        (\<forall>now cs. cs_state (pu_commit u now cs) = s' \<and> hasTrustedOriginals (pu_commit u now cs) = hasTrustedOriginals cs))"

definition moved :: "RemediationMode \<Rightarrow> 'v Plugin \<Rightarrow> 'v Plugin \<Rightarrow> string \<Rightarrow> bool" where
  "moved mode p p' c \<longleftrightarrow>
     cview p' c = cview p c \<or>
     (\<exists>s s' t. cview p c = Some (s, t) \<and> cview p' c = Some (s', t) \<and> remediation_step mode s s' \<and>
        (s' = StateThrottled \<longrightarrow> t))"

lemma moved_refl [simp]: "moved mode p p c"
  by (simp add: moved_def)

lemma moved_cong: "cview p = cview q \<Longrightarrow> cview p' = cview q' \<Longrightarrow> moved mode p p' = moved mode q q'"
  by (simp add: moved_def fun_eq_iff)

lemma suits_cong:
  "cview p (cu_ContainerId (pu_update u)) = cview q (cu_ContainerId (pu_update u)) \<Longrightarrow> suits mode p u = suits mode q u"
  by (simp add: suits_def)

lemma transition_view:
  assumes "transition cfg now t r degraded trigger mode h cs = (cs', pending, action)"
  shows "hasTrustedOriginals cs' = hasTrustedOriginals cs"
    and "cs_state cs' = cs_state cs \<or> pending = None \<and> remediation_step mode (cs_state cs) (cs_state cs') \<and> cs_state cs' \<noteq> StateThrottled"
    and "\<And>u. pending = Some u \<Longrightarrow> cs_state cs' = cs_state cs \<and> hasTrustedOriginals cs \<and>
      cu_ContainerId (pu_update u) = tg_id t \<and>
      (\<exists>s'. remediation_step mode (cs_state cs) s' \<and>
        (\<forall>now cs. cs_state (pu_commit u now cs) = s' \<and> hasTrustedOriginals (pu_commit u now cs) = hasTrustedOriginals cs))"
proof -
  show "hasTrustedOriginals cs' = hasTrustedOriginals cs"
    using assms by (auto simp: transition_def hasTrustedOriginals_def Let_def split: if_splits)
  show "cs_state cs' = cs_state cs \<or> pending = None \<and> remediation_step mode (cs_state cs) (cs_state cs') \<and> cs_state cs' \<noteq> StateThrottled"
    using assms by (cases "cs_state cs") (auto simp: transition_def Let_def split: if_splits)
  show "cs_state cs' = cs_state cs \<and> hasTrustedOriginals cs \<and> cu_ContainerId (pu_update u) = tg_id t \<and>
      (\<exists>s'. remediation_step mode (cs_state cs) s' \<and>
        (\<forall>now cs. cs_state (pu_commit u now cs) = s' \<and> hasTrustedOriginals (pu_commit u now cs) = hasTrustedOriginals cs))"
    if "pending = Some u" for u
  proof (cases "cs_state cs")
    case StateThrottled
    then show ?thesis
      using assms that
      by (auto simp: transition_def Let_def rollbackUpdate_def buildRollbackUpdate_def hasTrustedOriginals_def
          split: if_splits)
  next
    case StateDegraded
    then show ?thesis
      using assms that
      by (auto simp: transition_def Let_def throttleUpdate_def buildThrottleUpdate_def shouldThrottle_def
          hasTrustedOriginals_def split: if_splits option.splits prod.splits)
  qed (use assms that in \<open>auto simp: transition_def Let_def split: if_splits\<close>)
qed

text \<open>What handling one target guarantees: other containers are untouched, its own moves by at most one step, and a
  pending update suits it.\<close>

definition handled :: "RemediationMode \<Rightarrow> string \<Rightarrow> pendingUpdate option \<Rightarrow> 'v Plugin \<Rightarrow> 'v Plugin \<Rightarrow> bool" where
  "handled mode cid u p p' \<longleftrightarrow>
     (\<forall>c. c \<noteq> cid \<longrightarrow> cview p' c = cview p c) \<and> moved mode p p' cid \<and>
     (\<forall>x. u = Some x \<longrightarrow> cu_ContainerId (pu_update x) = cid \<and> cview p' cid = cview p cid \<and> suits mode p x)"

lemma handled_same: "cview p' = cview p \<Longrightarrow> handled mode cid None p p'"
  by (simp add: handled_def moved_def)

lemma handled_cong:
  "cview p = cview q \<Longrightarrow> cview p' = cview q' \<Longrightarrow> handled mode cid u p p' = handled mode cid u q q'"
  by (simp add: handled_def moved_def suits_def)

lemma applyStateTransition_handled:
  assumes "applyStateTransition ev t r degraded trigger mode feed p = (u, p')"
  shows "handled mode (tg_id t) u p p'"
proof -
  let ?f = "transition (p_cfg p) (ev_now ev p) t r degraded trigger mode
      (computeTriggerHash (ev_hash ev) trigger (tg_digest t) feed)"
  obtain q x where q: "on_container (tg_id t) ?f p = (q, x)" by (rule prod.exhaust)
  note view = on_container_view [OF q]
  have p': "cview p' = cview q"
    using assms q by (auto simp: applyStateTransition_def Let_def split: option.splits)
  have u: "u = Option.bind x fst"
    using assms q by (auto simp: applyStateTransition_def Let_def split: option.splits)
  show ?thesis
  proof (cases "p_containers p (tg_id t)")
    case None
    then have "cview q = cview p" "u = None"
      using view u by (auto simp: cview_def fun_eq_iff)
    then show ?thesis using p' handled_same by metis
  next
    case (Some cs)
    obtain cs' pending action where tr: "?f cs = (cs', pending, action)" using prod_cases3 by blast
    have own: "cview q (tg_id t) = Some (cs_state cs', hasTrustedOriginals cs')" "u = pending"
      using view u Some tr by auto
    have before: "cview p (tg_id t) = Some (cs_state cs, hasTrustedOriginals cs)"
      using Some by (simp add: cview_def)
    have "moved mode p p' (tg_id t)"
      using transition_view(1,2) [OF tr] own before unfolding moved_def p' by auto
    moreover have "cu_ContainerId (pu_update y) = tg_id t \<and> cview p' (tg_id t) = cview p (tg_id t) \<and> suits mode p y"
      if "u = Some y" for y
      using transition_view(3) [OF tr, of y] transition_view(1) [OF tr] own before that
      unfolding suits_def p' by auto
    ultimately show ?thesis using view(1) unfolding handled_def p' by auto
  qed
qed

lemma on_container_handled:
  assumes "on_container cid f p = (q, x)"
    and "\<And>cs. hasTrustedOriginals (fst (f cs)) = hasTrustedOriginals cs"
    and "\<And>cs. cs_state (fst (f cs)) = cs_state cs \<or>
      remediation_step mode (cs_state cs) (cs_state (fst (f cs))) \<and> cs_state (fst (f cs)) \<noteq> StateThrottled"
  shows "handled mode cid None p q"
proof (cases "p_containers p cid")
  case None
  then have "cview q = cview p" using on_container_view(1) [OF assms(1)] by (auto simp: cview_def fun_eq_iff)
  then show ?thesis by (rule handled_same)
next
  case (Some cs)
  then have "cview q cid = Some (cs_state (fst (f cs)), hasTrustedOriginals cs)"
    "cview p cid = Some (cs_state cs, hasTrustedOriginals cs)"
    using on_container_view(1) [OF assms(1)] by (simp_all add: assms(2) cview_def)
  then show ?thesis
    using assms(3) [of cs] on_container_view(1) [OF assms(1)] by (auto simp: handled_def moved_def)
qed

lemma handleReverifyError_handled: "handled mode (tg_id t) None p (handleReverifyError t p)"
proof -
  let ?q = "count (ReverificationTotal (tg_namespace t) ''error'') p"
  let ?f = "\<lambda>cs0. let cs = cs0\<lparr>cs_consecutiveErrors := Suc (cs_consecutiveErrors cs0)\<rparr> in
             if cs_consecutiveErrors cs \<ge> consecutiveErrorThreshold \<and>
                (cs_state cs = StateVerified \<or> cs_state cs = StateSkipped)
             then (cs\<lparr>cs_state := StateDegraded\<rparr>, True) else (cs, False)"
  obtain q x where q: "on_container (tg_id t) ?f ?q = (q, x)" by (rule prod.exhaust)
  have "cview (handleReverifyError t p) = cview q"
    using q by (simp add: handleReverifyError_def Let_def)
  moreover have "handled mode (tg_id t) None ?q q"
  proof (rule on_container_handled [OF q])
    show "hasTrustedOriginals (fst (?f cs)) = hasTrustedOriginals cs" for cs
      by (simp add: hasTrustedOriginals_def Let_def)
    show "cs_state (fst (?f cs)) = cs_state cs \<or>
        remediation_step mode (cs_state cs) (cs_state (fst (?f cs))) \<and> cs_state (fst (?f cs)) \<noteq> StateThrottled" for cs
      by (cases "cs_state cs") (auto simp: Let_def)
  qed
  ultimately show ?thesis using handled_cong [of p ?q "handleReverifyError t p" q] by simp
qed

lemma reverifyContainer_handled:
  assumes "quiet ev" "reverifyContainer ev t trigger mode feed seen p = (u, seen', p')"
  shows "handled mode (tg_id t) u p p'"
proof -
  obtain seen1 p1 where 1: "(if trigger = triggerFeed then invalidateOnce ev t seen p else (seen, p)) = (seen1, p1)"
    by (rule prod.exhaust)
  obtain result err p2 where 2: "verifyTarget ev t p1 = ((result, err), p2)" using prod_cases3 prod.exhaust by metis
  have "p_containers p1 = p_containers p"
    using 1 invalidateOnce_view [OF assms(1)] by (auto split: if_splits)
  moreover have "p_containers p2 = p_containers p1"
    using 2 quietD(1) [OF assms(1)] by (auto simp: verifyTarget_def)
  ultimately have v: "cview p2 = cview p" by (intro cview_cong) simp
  show ?thesis
  proof (cases "ev_done ev p2")
    case True
    then have "u = None" "p' = p2" using assms(2) 1 2 by (auto simp: reverifyContainer_def)
    then show ?thesis using handled_same [OF v] by simp
  next
    case False
    note run = assms(2) [unfolded reverifyContainer_def 1 2 Let_def prod.case, simplified False if_False]
    consider "u = None" "p' = handleReverifyError t p2"
      | "u = None" "p' = recordIncompleteReverification t (count (ReverificationTotal (tg_namespace t) ''incomplete'') p2)"
      | r degraded label where "applyStateTransition ev t r degraded trigger mode feed
            (count (ReverificationTotal (tg_namespace t) label)
              (fst (on_container (tg_id t)
                 (update_only (\<lambda>cs. cs\<lparr>cs_consecutiveErrors := 0, cs_consecutiveIncomplete := 0\<rparr>)) p2))) = (u, p')"
      using run by (auto split: option.splits if_splits prod.splits)
    then show ?thesis
    proof cases
      case 1
      then show ?thesis using handleReverifyError_handled [of mode t p2] handled_cong [OF v refl] by blast
    next
      case 2
      then show ?thesis using handled_same [of p' p] v by simp
    next
      case (3 r degraded label)
      have "cview (fst (on_container (tg_id t)
          (update_only (\<lambda>cs. cs\<lparr>cs_consecutiveErrors := 0, cs_consecutiveIncomplete := 0\<rparr>)) p2)) = cview p2"
        by (rule on_container_same_view) (simp_all add: hasTrustedOriginals_def)
      with v have "cview (count (ReverificationTotal (tg_namespace t) label) (fst (on_container (tg_id t)
          (update_only (\<lambda>cs. cs\<lparr>cs_consecutiveErrors := 0, cs_consecutiveIncomplete := 0\<rparr>)) p2))) = cview p"
        by simp
      from handled_cong [OF this refl] applyStateTransition_handled [OF 3] show ?thesis by blast
    qed
  qed
qed

abbreviation uid :: "pendingUpdate \<Rightarrow> string" where
  "uid u \<equiv> cu_ContainerId (pu_update u)"

text \<open>The state of the loop: every container has moved by at most one step, and every pending update is for a different
  container that has not moved and that it suits.\<close>

definition ready :: "RemediationMode \<Rightarrow> 'v Plugin \<Rightarrow> pendingUpdate list \<Rightarrow> 'v Plugin \<Rightarrow> bool" where
  "ready mode p0 us p \<longleftrightarrow>
     (\<forall>c. moved mode p0 p c) \<and> distinct (map uid us) \<and>
     (\<forall>u\<in>set us. cview p (uid u) = cview p0 (uid u) \<and> suits mode p0 u)"

definition progress :: "RemediationMode \<Rightarrow> 'v Plugin \<Rightarrow> string set \<Rightarrow> pendingUpdate list \<Rightarrow> 'v Plugin \<Rightarrow> bool" where
  "progress mode p0 D us p \<longleftrightarrow>
     ready mode p0 us p \<and> (\<forall>c. c \<notin> D \<longrightarrow> cview p c = cview p0 c) \<and> uid ` set us \<subseteq> D"

lemma progress_step:
  assumes "progress mode p0 D us p" and "handled mode cid u p p'" and "cid \<notin> D"
  shows "progress mode p0 (insert cid D) (us @ (case u of None \<Rightarrow> [] | Some x \<Rightarrow> [x])) p'"
proof -
  have same: "cview p cid = cview p0 cid" using assms(1,3) by (simp add: progress_def)
  have other: "cview p' c = cview p c" if "c \<noteq> cid" for c using assms(2) that by (simp add: handled_def)
  have "moved mode p0 p' c" for c
    using assms(1,2) same other [of c] by (cases "c = cid") (auto simp: progress_def ready_def handled_def moved_def)
  moreover have "uid x = cid \<and> cview p' cid = cview p0 cid \<and> suits mode p0 x" if "u = Some x" for x
    using assms(2) that same suits_cong [of p x p0] by (simp add: handled_def)
  moreover have old: "uid v \<in> D \<and> uid v \<noteq> cid \<and> suits mode p0 v \<and> cview p' (uid v) = cview p0 (uid v)" if "v \<in> set us" for v
  proof -
    have "uid v \<in> D" using assms(1) that by (auto simp: progress_def)
    then have "uid v \<noteq> cid" using assms(3) by blast
    then show ?thesis using \<open>uid v \<in> D\<close> other assms(1) that by (simp add: progress_def ready_def)
  qed
  moreover have "distinct (map uid us)" using assms(1) by (simp add: progress_def ready_def)
  moreover have "cview p' c = cview p0 c" if "c \<notin> insert cid D" for c
    using that other [of c] assms(1) by (simp add: progress_def)
  moreover have "cid \<notin> uid ` set us" using old by blast
  ultimately show ?thesis
    by (cases u) (auto simp: progress_def ready_def)
qed

lemma reverify_batch_progress:
  assumes "quiet ev" "reverify_batch ev ts trigger mode feed seen p = (new, seen', p')"
    and "progress mode p0 D us p" and "distinct (map tg_id ts)" and "tg_id ` set ts \<inter> D = {}"
  shows "progress mode p0 (D \<union> tg_id ` set ts) (us @ new) p'"
  using assms(2-)
proof (induction ts arbitrary: seen p us D new)
  case (Cons t ts)
  obtain u seen1 p1 where 1: "reverifyContainer ev t trigger mode feed seen p = (u, seen1, p1)" using prod_cases3 by blast
  obtain new1 seen2 p2 where 2: "reverify_batch ev ts trigger mode feed seen1 p1 = (new1, seen2, p2)"
    using prod_cases3 by blast
  have res: "new = (case u of None \<Rightarrow> [] | Some x \<Rightarrow> [x]) @ new1" "p' = p2" "seen' = seen2"
    using Cons.prems(1) 1 2 by (auto split: option.splits)
  have "progress mode p0 (insert (tg_id t) D) (us @ (case u of None \<Rightarrow> [] | Some x \<Rightarrow> [x])) p1"
    using Cons.prems reverifyContainer_handled [OF assms(1) 1] by (intro progress_step) auto
  from Cons.IH [OF 2 [folded res] this] Cons.prems(3,4) show ?case by (simp add: res)
qed simp

lemma batch_loop_progress:
  assumes "quiet ev" "0 < n" "distinct (map tg_id ts)"
    and "batch_loop ev n ts trigger mode feed start us seen p = Some (cancelled, us', p')"
    and "progress mode p0 (tg_id ` set (take start ts)) us p"
  shows "ready mode p0 us' p'"
  using assms(4,5)
proof (induction "length ts - start" arbitrary: start us seen p rule: less_induct)
  case less
  have yield: "ready mode p0 xs (ev_yield ev q) = ready mode p0 xs q"
    "progress mode p0 D xs (ev_yield ev q) = progress mode p0 D xs q" for xs q D
    using cview_cong [of "ev_yield ev q" q] quietD(5) [OF assms(1)]
    by (simp_all add: progress_def ready_def moved_def)
  show ?case
  proof (cases "start < length ts \<and> \<not> ev_done ev p")
    case False
    then have "p' = p" "us' = us" using less.prems(1) by (auto simp: batch_loop.simps split: if_splits)
    then show ?thesis using less.prems(2) by (simp add: progress_def)
  next
    case True
    let ?batch = "take n (drop start ts)"
    obtain new seen1 p1 where b: "reverify_batch ev ?batch trigger mode feed seen p = (new, seen1, p1)"
      using prod_cases3 by blast
    have split: "take (start + n) ts = take start ts @ ?batch" by (simp add: take_add)
    have dist: "distinct (map tg_id (take start ts @ ?batch))"
      using assms(3) by (metis distinct_take split take_map)
    then have disj: "tg_id ` set ?batch \<inter> tg_id ` set (take start ts) = {}" "distinct (map tg_id ?batch)"
      by auto
    have prog: "progress mode p0 (tg_id ` set (take (start + n) ts)) (us @ new) p1"
      using reverify_batch_progress [OF assms(1) b less.prems(2) disj(2,1)]
      unfolding split set_append image_Un .
    have dec: "length ts - (start + n) < length ts - start" using conjunct1 [OF True] assms(2) by linarith
    have run: "(if start + n < length ts then
         if ev_done ev (ev_yield ev p1) then Some (True, us @ new, ev_yield ev p1)
         else batch_loop ev n ts trigger mode feed (start + n) (us @ new) seen1 (ev_yield ev p1)
       else batch_loop ev n ts trigger mode feed (start + n) (us @ new) seen1 p1) = Some (cancelled, us', p')"
      using less.prems(1) [unfolded batch_loop.simps [of ev n ts trigger mode feed start us seen p]] True b
      by (simp add: Let_def split: if_splits)
    show ?thesis
    proof (cases "start + n < length ts \<and> ev_done ev (ev_yield ev p1)")
      case True
      then have "p' = ev_yield ev p1" "us' = us @ new" using run by auto
      then show ?thesis using prog yield by (simp add: progress_def)
    next
      case False
      then show ?thesis
        using run less.hyps [OF dec] prog yield by (auto split: if_splits)
    qed
  qed
qed

lemma commit_updates_moved:
  assumes "ready mode p0 us p"
  shows "moved mode p0 (commit_updates ev failed us p) c"
  using assms
proof (induction us arbitrary: p)
  case (Cons u us)
  show ?case
  proof (cases "uid u \<in> failed")
    case True
    then show ?thesis using Cons by (simp add: ready_def)
  next
    case False
    obtain q x where q: "on_container (uid u) (update_only (pu_commit u (ev_now ev p))) p = (q, x)" by (rule prod.exhaust)
    note view = on_container_view(1) [OF q]
    obtain s s' where s: "cview p0 (uid u) = Some (s, True)" "remediation_step mode s s'"
      and com: "\<And>now cs. cs_state (pu_commit u now cs) = s' \<and> hasTrustedOriginals (pu_commit u now cs) = hasTrustedOriginals cs"
      using Cons.prems by (auto simp: ready_def suits_def)
    have "cview p (uid u) = Some (s, True)" using Cons.prems s by (simp add: ready_def)
    then have own: "cview q (uid u) = Some (s', True)"
      using view [of "uid u"] com by (auto simp: cview_def)
    have "moved mode p0 q c" for c
    proof (cases "c = uid u")
      case True
      then show ?thesis unfolding moved_def using own s by blast
    next
      case False
      then have "cview q c = cview p c" using view [of c] by simp
      then show ?thesis using Cons.prems by (simp add: ready_def moved_def)
    qed
    moreover have "cview q (uid v) = cview p0 (uid v)" if "v \<in> set us" for v
    proof -
      have "uid u \<notin> uid ` set us" using Cons.prems by (simp add: ready_def)
      then have "uid v \<noteq> uid u" using that by (metis imageI)
      then show ?thesis using Cons.prems view [of "uid v"] that by (simp add: ready_def)
    qed
    ultimately have "ready mode p0 us q" using Cons.prems by (simp add: ready_def)
    then have "ready mode p0 us (if x = None then q else count m q)" for m
      by (simp add: ready_def moved_def)
    then show ?thesis using Cons.IH False q by (simp add: Let_def)
  qed
qed (simp add: ready_def)

lemma fold_count_view [simp]: "cview (fold (\<lambda>_. count m) xs p) = cview p"
  by (induction xs arbitrary: p) simp_all

lemma ready_cong: "cview p = cview q \<Longrightarrow> ready mode p0 us p = ready mode p0 us q"
  by (simp add: ready_def moved_def)

lemma applyUpdates_moved:
  assumes "quiet ev" "ready mode p0 us p"
  shows "moved mode p0 (applyUpdates ev us p) c"
proof -
  obtain out q where q: "ev_updateContainers ev (map pu_update us) p = (out, q)" by (rule prod.exhaust)
  have v: "cview q = cview p" using quietD(4) [OF assms(1) q] by (rule cview_cong)
  have "moved mode p0 p c" using assms(2) by (simp add: ready_def)
  moreover have "moved mode p0 (commit_updates ev F us (fold (\<lambda>_. count m) xs q)) c" for F m xs
    using assms(2) ready_cong [of "fold (\<lambda>_. count m) xs q" p] v by (intro commit_updates_moved) simp
  ultimately show ?thesis
    using q v by (auto simp: applyUpdates_def moved_def split: sum.splits)
qed

lemma cycle_moved:
  assumes "quiet ev" "distinct ids" "runVerificationCycle ev ids trigger filterIDs feedPURLs p = Some p'"
  shows "moved (case p_mode p of None \<Rightarrow> RemediationModeDisabled | Some m \<Rightarrow> m) p p' c"
proof -
  let ?mode = "case p_mode p of None \<Rightarrow> RemediationModeDisabled | Some m \<Rightarrow> m"
  obtain targets p1 where t: "collect_targets ev filterIDs (p_containers p) ids Map.empty p = (targets, p1)"
    by (rule prod.exhaust)
  note ct = collect_targets_view [OF assms(1) t]
  show ?thesis
  proof (cases "targets = []")
    case True
    then have "p' = p1" using assms(3) t by (simp add: runVerificationCycle_def)
    then show ?thesis using ct by (simp add: moved_def)
  next
    case False
    obtain cancelled us p2 where
      loop: "batch_loop ev (batchSize (p_cfg p1)) targets trigger ?mode feedPURLs 0 [] {} p1 = Some (cancelled, us, p2)"
      using batch_loop_returns [OF batchSize_pos] prod_cases3 by metis
    have "progress ?mode p (tg_id ` set (take 0 targets)) [] p1"
      using ct by (simp add: progress_def ready_def moved_def)
    from batch_loop_progress [OF assms(1) batchSize_pos _ loop this] ct assms(2)
    have ready: "ready ?mode p us p2" by blast
    have "p' = (if cancelled \<or> us = [] then p2 else applyUpdates ev us p2)"
      using assms(3) False t loop by (simp add: runVerificationCycle_def Let_def)
    then show ?thesis
      using ready applyUpdates_moved [OF assms(1) ready] by (auto simp: ready_def)
  qed
qed

text \<open>C6: remediation is graduated.  In one cycle the state of a container changes by at most one step of the documented
  state machine: a verified or skipped container is never throttled without having been degraded before, throttling
  needs a mode that allows it and recorded original limits, and no container becomes skipped.\<close>

theorem graduated_remediation:
  assumes "quiet ev" and "distinct ids"
    and "runVerificationCycle ev ids trigger filterIDs feedPURLs p = Some p'"
    and "p_containers p c = Some cs" and "p_containers p' c = Some cs'"
  shows "cs_state cs' = cs_state cs \<or>
    remediation_step (case p_mode p of None \<Rightarrow> RemediationModeDisabled | Some m \<Rightarrow> m) (cs_state cs) (cs_state cs') \<and>
    (cs_state cs' = StateThrottled \<longrightarrow> hasTrustedOriginals cs)"
  using cycle_moved [OF assms(1-3), of c] assms(4,5) by (auto simp: moved_def cview_def)

section \<open>Outages\<close>

lemma reverify_incomplete:
  assumes "quiet ev"
    and "\<And>r q. \<exists>res err. fst (ev_verify ev r q) = (Some res, err) \<and> Incomplete res \<and>
      (case err of None \<Rightarrow> True | Some e \<Rightarrow> errors_Is e ErrVerificationFailed)"
    and "reverifyContainer ev t trigger mode feed seen p = (u, seen', p')"
  shows "u = None \<and> cview p' = cview p"
proof -
  obtain seen1 p1 where 1: "(if trigger = triggerFeed then invalidateOnce ev t seen p else (seen, p)) = (seen1, p1)"
    by (rule prod.exhaust)
  obtain result err p2 where 2: "verifyTarget ev t p1 = ((result, err), p2)" using prod_cases3 prod.exhaust by metis
  have c1: "p_containers p1 = p_containers p"
    using 1 invalidateOnce_view [OF assms(1)] by (auto split: if_splits)
  have "p_containers p2 = p_containers p1"
    using 2 quietD(1) [OF assms(1)] by (auto simp: verifyTarget_def)
  with c1 have v: "cview p2 = cview p" by (intro cview_cong) simp
  obtain res where res: "result = Some res" "Incomplete res"
    "case err of None \<Rightarrow> True | Some e \<Rightarrow> errors_Is e ErrVerificationFailed"
    using assms(2) 2 by (metis fst_conv prod.inject verifyTarget_def)
  show ?thesis
    using assms(3) 1 2 res v by (auto simp: reverifyContainer_def split: if_splits option.splits)
qed

lemma batch_incomplete:
  assumes "\<And>t seen q u seen' q'. reverifyContainer ev t trigger mode feed seen q = (u, seen', q') \<Longrightarrow> u = None \<and> cview q' = cview q"
    and "reverify_batch ev ts trigger mode feed seen p = (new, seen', p')"
  shows "new = [] \<and> cview p' = cview p"
  using assms(2)
proof (induction ts arbitrary: seen p new)
  case (Cons t ts)
  obtain u seen1 p1 where 1: "reverifyContainer ev t trigger mode feed seen p = (u, seen1, p1)" using prod_cases3 by blast
  obtain new1 seen2 p2 where 2: "reverify_batch ev ts trigger mode feed seen1 p1 = (new1, seen2, p2)"
    using prod_cases3 by blast
  show ?case using Cons.prems Cons.IH [of seen1 p1 new1] 1 2 assms(1) [OF 1] by auto
qed simp

lemma loop_incomplete:
  assumes "quiet ev" "0 < n"
    and "\<And>t seen q u seen' q'. reverifyContainer ev t trigger mode feed seen q = (u, seen', q') \<Longrightarrow> u = None \<and> cview q' = cview q"
    and "batch_loop ev n ts trigger mode feed start [] seen p = Some (cancelled, us, p')"
  shows "us = [] \<and> cview p' = cview p"
  using assms(4)
proof (induction "length ts - start" arbitrary: start seen p rule: less_induct)
  case less
  have yield: "cview (ev_yield ev q) = cview q" for q
    using quietD(5) [OF assms(1)] by (rule cview_cong)
  show ?case
  proof (cases "start < length ts \<and> \<not> ev_done ev p")
    case False
    then show ?thesis using less.prems by (auto simp: batch_loop.simps split: if_splits)
  next
    case True
    obtain new seen1 p1 where b: "reverify_batch ev (take n (drop start ts)) trigger mode feed seen p = (new, seen1, p1)"
      using prod_cases3 by blast
    note inc = batch_incomplete [OF assms(3) b]
    have dec: "length ts - (start + n) < length ts - start" using conjunct1 [OF True] assms(2) by linarith
    have "(if start + n < length ts then
         if ev_done ev (ev_yield ev p1) then Some (True, [], ev_yield ev p1)
         else batch_loop ev n ts trigger mode feed (start + n) [] seen1 (ev_yield ev p1)
       else batch_loop ev n ts trigger mode feed (start + n) [] seen1 p1) = Some (cancelled, us, p')"
      using less.prems [unfolded batch_loop.simps [of ev n ts trigger mode feed start "[]" seen p]] True b inc
      by (simp add: Let_def split: if_splits)
    then show ?thesis
      using less.hyps [OF dec] inc yield [of p1] by (auto split: if_splits)
  qed
qed

text \<open>C27: an outage never changes what is known about an image.  When no verification can complete, a cycle leaves the
  state of every container as it was, and its original limits stay as trusted as they were.\<close>

theorem outage_keeps_states:
  assumes "quiet ev"
    and "\<And>r q. \<exists>res err. fst (ev_verify ev r q) = (Some res, err) \<and> Incomplete res \<and>
      (case err of None \<Rightarrow> True | Some e \<Rightarrow> errors_Is e ErrVerificationFailed)"
    and "runVerificationCycle ev ids trigger filterIDs feedPURLs p = Some p'"
  shows "cview p' c = cview p c"
proof -
  let ?mode = "case p_mode p of None \<Rightarrow> RemediationModeDisabled | Some m \<Rightarrow> m"
  obtain targets p1 where t: "collect_targets ev filterIDs (p_containers p) ids Map.empty p = (targets, p1)"
    by (rule prod.exhaust)
  have v1: "cview p1 = cview p" using collect_targets_view [OF assms(1) t] by simp
  obtain cancelled us p2 where
    loop: "batch_loop ev (batchSize (p_cfg p1)) targets trigger ?mode feedPURLs 0 [] {} p1 = Some (cancelled, us, p2)"
    using batch_loop_returns [OF batchSize_pos] prod_cases3 by metis
  note inc = loop_incomplete [OF assms(1) batchSize_pos reverify_incomplete [OF assms(1,2)] loop]
  have "p' = (if targets = [] then p1 else p2)"
    using assms(3) t loop inc by (auto simp: runVerificationCycle_def Let_def)
  then show ?thesis using inc v1 by simp
qed

section \<open>Updates the runtime refuses, and stopping the verifier\<close>

lemma commit_updates_keeps:
  "c \<notin> uid ` {u \<in> set us. uid u \<notin> failed} \<Longrightarrow> cview (commit_updates ev failed us p) c = cview p c"
proof (induction us arbitrary: p)
  case (Cons u us)
  obtain q x where q: "on_container (uid u) (update_only (pu_commit u (ev_now ev p))) p = (q, x)" by (rule prod.exhaust)
  show ?case
    using Cons.IH [of p] Cons.IH [of q] Cons.IH [of "count m q" for m] Cons.prems on_container_view(1) [OF q, of c] q
    by (auto simp: Let_def split: if_splits)
qed simp

text \<open>A transition is only recorded once the runtime has applied it.  When the runtime refuses the updates, or the
  update of one container, the containers concerned keep their state, so the next cycle tries again.\<close>

lemma refused_update_keeps_state:
  assumes "quiet ev" and "ev_updateContainers ev (map pu_update pending) p = (out, q)"
    and "case out of Inl _ \<Rightarrow> True | Inr failed \<Rightarrow> c \<in> cu_ContainerId ` set failed"
  shows "cview (applyUpdates ev pending p) c = cview p c"
proof -
  have v: "cview q = cview p" using quietD(4) [OF assms(1,2)] by (rule cview_cong)
  show ?thesis
  proof (cases out)
    case (Inr failed)
    have "c \<in> cu_ContainerId ` set failed" using assms(3) Inr by simp
    then have "c \<notin> uid ` {u \<in> set pending. uid u \<notin> cu_ContainerId ` set failed}" by blast
    from commit_updates_keeps [OF this, of ev] show ?thesis using assms(2) Inr v by (simp add: applyUpdates_def)
  qed (use assms(2) v in \<open>simp add: applyUpdates_def\<close>)
qed

lemma commit_releases:
  assumes "\<And>u now cs. u \<in> set us \<Longrightarrow> pu_commit u now cs = cs\<lparr>cs_state := StateDegraded\<rparr>"
  shows "cview (commit_updates ev {} us p) c =
    (if c \<in> uid ` set us then map_option (\<lambda>v. (StateDegraded, snd v)) (cview p c) else cview p c)"
  using assms
proof (induction us arbitrary: p)
  case (Cons u us)
  obtain q x where q: "on_container (uid u) (update_only (pu_commit u (ev_now ev p))) p = (q, x)" by (rule prod.exhaust)
  have view: "cview q c = (if c = uid u then map_option (\<lambda>v. (StateDegraded, snd v)) (cview p c) else cview p c)"
    using on_container_view(1) [OF q, of c] Cons.prems
    by (cases "p_containers p c") (auto simp: cview_def hasTrustedOriginals_def)
  have IH: "cview (commit_updates ev {} us r) c =
    (if c \<in> uid ` set us then map_option (\<lambda>v. (StateDegraded, snd v)) (cview r c) else cview r c)" for r
    using Cons by simp
  show ?case
    using q view by (auto simp: IH Let_def option.map_comp o_def split: prod.splits option.splits)
qed simp

lemma releases_ids:
  "c \<in> uid ` set (releases ids m) \<longleftrightarrow>
     c \<in> set ids \<and> (\<exists>cs. m c = Some cs \<and> cs_state cs = StateThrottled \<and> hasTrustedOriginals cs)"
  unfolding releases_def
  by (force simp: release_update_def buildRollbackUpdate_def hasTrustedOriginals_def split: option.splits if_splits)

text \<open>Stopping the continuous verifier leaves no container throttled behind: once the runtime accepts the updates,
  every throttled container with known original limits is degraded, and no other container changes.\<close>

lemma release_leaves_none_throttled:
  assumes "quiet ev" and "p_stub p" and "set ids = dom (p_containers p)"
    and "\<And>us q. fst (ev_updateContainers ev us q) = Inr []"
  shows "cview (releaseThrottledContainers ev ids p) c =
    (if cview p c = Some (StateThrottled, True) then Some (StateDegraded, True) else cview p c)"
proof -
  let ?us = "releases ids (p_containers p)"
  obtain q where q: "ev_updateContainers ev (map pu_update ?us) p = (Inr [], q)"
    using assms(4) by (metis prod.collapse)
  have v: "cview q = cview p" using quietD(4) [OF assms(1) q] by (rule cview_cong)
  have com: "pu_commit u now cs = cs\<lparr>cs_state := StateDegraded\<rparr>" if "u \<in> set ?us" for u now cs
    using that by (auto simp: releases_def release_update_def split: option.splits if_splits)
  have ids: "c \<in> uid ` set ?us \<longleftrightarrow> cview p c = Some (StateThrottled, True)"
    unfolding releases_ids assms(3) by (auto simp: cview_def)
  have committed: "cview (commit_updates ev {} ?us q) c =
      (if cview p c = Some (StateThrottled, True) then Some (StateDegraded, True) else cview p c)"
    using commit_releases [of ?us ev q c] com ids v by simp
  show ?thesis
  proof (cases "?us = []")
    case True
    then have "cview p c \<noteq> Some (StateThrottled, True)" using ids by simp
    then show ?thesis using True by (simp add: releaseThrottledContainers_def)
  next
    case False
    then have "releaseThrottledContainers ev ids p = commit_updates ev {} ?us q"
      using q assms(2) by (simp add: releaseThrottledContainers_def applyUpdates_def Let_def)
    then show ?thesis using committed by simp
  qed
qed

section \<open>A concrete environment\<close>

text \<open>A failing image in throttle mode, on a runtime that accepts every update.\<close>

definition failing :: Result where
  "failing = \<lparr>r_Allowed = True, r_Verified = False, r_Mode = ModeWarn, r_Reason = [], r_CheckResults = []\<rparr>"

definition outage :: Result where
  "outage = failing\<lparr>r_CheckResults := [FailResult CheckTypeFetch [] (Some (errors_New ''fetch'' []))]\<rparr>"

definition sample_env :: "Result \<Rightarrow> unit env" where
  "sample_env r = \<lparr>ev_verify = (\<lambda>_ p. ((Some r, None), p)), ev_invalidate = (\<lambda>_ _ p. p),
     ev_resolver = (\<lambda>_ p. (Inl (errors_New ''unreachable'' []), p)),
     ev_updateContainers = (\<lambda>_ p. (Inr [], p)), ev_done = (\<lambda>_. False), ev_yield = (\<lambda>p. p), ev_now = (\<lambda>_. 0),
     ev_parse_ref = (\<lambda>_. None), ev_hash = (\<lambda>s. s)\<rparr>"

definition sample_container :: containerState where
  "sample_container = \<lparr>cs_imageRef = ''nginx'', cs_digest = ''sha256:aa'', cs_indexDigest = [], cs_namespace = ''default'',
     cs_serviceAccount = [], cs_createdAt = 0, cs_state = StateDegraded, cs_lastRemediation = None,
     cs_lastTriggerHash = [], cs_originalResources = Some sample_resources, cs_purls = [], cs_recoveredOnRestart = False,
     cs_awaitingFirstResult = False, cs_consecutiveErrors = 0, cs_consecutiveIncomplete = 0, cs_unresolvedDigest = []\<rparr>"

definition sample_plugin :: "unit Plugin" where
  "sample_plugin = \<lparr>p_containers = [''c1'' \<mapsto> sample_container], p_metrics = [], p_mode = Some RemediationModeThrottle,
     p_cfg = None, p_stub = True, p_outside = ()\<rparr>"

lemma sample_quiet: "quiet (sample_env r)"
  by (simp add: quiet_def sample_env_def)

lemma sample_cycle:
  "runVerificationCycle (sample_env failing) [''c1''] triggerTimer None [] sample_plugin = Some p' \<Longrightarrow>
     map_option cs_state (p_containers p' ''c1'') = Some StateThrottled"
  by (auto simp: runVerificationCycle_def sample_plugin_def sample_container_def sample_env_def snapshot_target_def
      batchSize_def DefaultRemediationBatchSize_def batch_loop.simps reverifyContainer_def verifyTarget_def failing_def
      Incomplete_def on_container_def UpdateState_def count_def applyStateTransition_def transition_def shouldThrottle_def
      Severity_def hasTrustedOriginals_def cooldownElapsed_def throttleUpdate_def buildThrottleUpdate_def
      throttlePercents_def applyUpdates_def Let_def)

theorem graduated_remediation_witness:
  "\<exists>p' cs'. runVerificationCycle (sample_env failing) [''c1''] triggerTimer None [] sample_plugin = Some p' \<and>
     p_containers p' ''c1'' = Some cs' \<and> cs_state cs' = StateThrottled \<and>
     (cs_state cs' = cs_state sample_container \<or>
      remediation_step RemediationModeThrottle (cs_state sample_container) (cs_state cs'))"
proof -
  obtain p' where p': "runVerificationCycle (sample_env failing) [''c1''] triggerTimer None [] sample_plugin = Some p'"
    using cycle_returns by blast
  obtain cs' where cs': "p_containers p' ''c1'' = Some cs'" "cs_state cs' = StateThrottled"
    using sample_cycle [OF p'] by auto
  have "p_containers sample_plugin ''c1'' = Some sample_container" by (simp add: sample_plugin_def)
  from graduated_remediation [OF sample_quiet _ p' this cs'(1)] p' cs' show ?thesis
    by (auto simp: sample_plugin_def)
qed

theorem outage_keeps_states_witness:
  "\<exists>p'. runVerificationCycle (sample_env outage) [''c1''] triggerTimer None [] sample_plugin = Some p' \<and>
     cview p' ''c1'' = cview sample_plugin ''c1''"
proof -
  obtain p' where p': "runVerificationCycle (sample_env outage) [''c1''] triggerTimer None [] sample_plugin = Some p'"
    using cycle_returns by blast
  have "\<exists>res err. fst (ev_verify (sample_env outage) r q) = (Some res, err) \<and> Incomplete res \<and>
      (case err of None \<Rightarrow> True | Some e \<Rightarrow> errors_Is e ErrVerificationFailed)" for r q
    by (simp add: sample_env_def outage_def Incomplete_def FailResult_def)
  from outage_keeps_states [OF sample_quiet this p'] p' show ?thesis by blast
qed


lemma release_leaves_none_throttled_witness:
  "cview (releaseThrottledContainers (sample_env failing) [''c1'']
      (sample_plugin\<lparr>p_containers := [''c1'' \<mapsto> sample_container\<lparr>cs_state := StateThrottled\<rparr>]\<rparr>)) ''c1'' =
    Some (StateDegraded, True)"
  by (subst release_leaves_none_throttled [OF sample_quiet])
     (simp_all add: sample_plugin_def sample_env_def cview_def sample_container_def hasTrustedOriginals_def)

lemma refused_update_keeps_state_witness:
  "cview (applyUpdates ((sample_env failing)\<lparr>ev_updateContainers := (\<lambda>_ p. (Inl (errors_New ''gone'' []), p))\<rparr>)
      [release_update ''c1'' sample_container sample_resources] sample_plugin) ''c1'' = cview sample_plugin ''c1''"
  by (rule refused_update_keeps_state [where q = sample_plugin and out = "Inl (errors_New ''gone'' [])"])
     (simp_all add: quiet_def sample_env_def)

end
