(* ===== verification/Policy.thy ===== *)
theory Policy
  imports Config
begin

text \<open>
  Verification policies (src/internal/policy): the policy documents, how a namespace policy is laid over the default one
  and an image rule over a policy, which signers a trusted verifier or builder accepts, and the rules that keep a
  namespace from weakening verification.

  The source merges sections by reflection over the struct fields; here the merge of every section is written out field by
  field.  A nil slice, map or pointer is None.  \<open>s_explicit\<close> is the set of JSON paths present in the document
  (None for a policy built in code).  \<open>time.ParseDuration\<close> is an argument.
\<close>

section \<open>Documents\<close>

record TrustedIdentity =
  ti_Issuer :: string
  ti_SANPattern :: string

record TrustedBuilder =
  tb_ID :: string
  tb_MaxLevel :: int
  tb_Keys :: "string list"
  tb_Identities :: "TrustedIdentity list"

record TrustedVerifier =
  tv_ID :: string
  tv_Keys :: "string list"
  tv_NotBefore :: string
  tv_NotAfter :: string
  tv_Identities :: "TrustedIdentity list"
  tv_NotBeforeTime :: time
  tv_NotAfterTime :: time

record TrustPolicy =
  tp_Builders :: "TrustedBuilder list option"
  tp_Verifiers :: "TrustedVerifier list option"
  tp_Issuers :: "string list option"
  tp_SANPatterns :: "string list option"
  tp_Sources :: "string list option"
  tp_BuildTypes :: "string list option"

record SLSAPolicy =
  slsa_MissingPolicy :: Action
  slsa_RejectUnknownParameters :: bool
  slsa_KnownParameters :: "string list option"
  slsa_MaxAge :: string
  slsa_MaxAgeDuration :: duration

record VEXPolicy =
  vex_MissingPolicy :: Action
  vex_UnderInvestigationPolicy :: Action

record VSAPolicy =
  vsa_MissingPolicy :: Action
  vsa_MinimumLevel :: int
  vsa_MaxAge :: string
  vsa_MaxAgeDuration :: duration
  vsa_Policy :: string

record SignaturesPolicy =
  sig_RequireTransparencyLog :: bool

record NotationTrustStore =
  nts_Name :: string
  nts_Type :: string
  nts_Certificates :: "string list"

record NotationTrustPolicyRule =
  ntp_Name :: string
  ntp_RegistryScopes :: "string list"
  ntp_TrustStores :: "string list"
  ntp_TrustedIdentities :: "string list"

record NotationPolicy =
  not_MissingPolicy :: Action
  not_TrustStores :: "NotationTrustStore list option"
  not_TrustPolicy :: "NotationTrustPolicyRule list option"
  not_VerificationLevel :: string
  not_RevocationMode :: string

record CELRule =
  cel_Match :: string
  cel_Require :: string
  cel_Message :: string

type_synonym CELPolicy = "CELRule list"

record SBOMLicensePolicy =
  lic_Deny :: "string list option"
  lic_Allow :: "string list option"

record SBOMComponentPolicy =
  cmp_Deny :: "string list option"
  cmp_Allow :: "string list option"

record SBOMCVSSPolicy =
  cvss_MaxScore :: "float64 option"
  cvss_MinSeverity :: string
  cvss_IgnoreCVEs :: "string list option"

record SBOMDriftPolicy =
  dft_MaxAdded :: "int option"
  dft_MaxRemoved :: "int option"
  dft_MaxModified :: "int option"
  dft_MaxScore :: "float64 option"

record SBOMPolicy =
  sbom_MissingPolicy :: Action
  sbom_Formats :: "string list option"
  sbom_License :: "SBOMLicensePolicy option"
  sbom_Component :: "SBOMComponentPolicy option"
  sbom_CVSS :: "SBOMCVSSPolicy option"
  sbom_Drift :: "SBOMDriftPolicy option"

record SCAIPolicy =
  scai_MissingPolicy :: Action
  scai_RequiredAttributes :: "string list option"
  scai_ForbiddenAttributes :: "string list option"
  scai_RequireEvidence :: bool

record SourcePolicy =
  src_MissingPolicy :: Action
  src_MinimumLevel :: int
  src_MaxAge :: string
  src_MaxAgeDuration :: duration

record BuildEnvPolicy =
  be_MissingPolicy :: Action
  be_RequiredProperties :: "string list option"
  be_ForbiddenProperties :: "string list option"

record VulnScanPolicy =
  vs_MissingPolicy :: Action
  vs_MaxScore :: "float64 option"
  vs_MinSeverity :: string
  vs_IgnoreCVEs :: "string list option"
  vs_MaxAge :: string
  vs_MaxAgeDuration :: duration

record TestResultPolicy =
  trp_MissingPolicy :: Action
  trp_RequiredSuites :: "string list option"
  trp_MaxAge :: string
  trp_MaxAgeDuration :: duration

record ReleasePolicy =
  rel_MissingPolicy :: Action
  rel_TrustedRegistries :: "string list option"
  rel_RequirePackageID :: bool

record RuntimeTracePolicy =
  rt_MissingPolicy :: Action
  rt_TrustedMonitors :: "string list option"
  rt_ForbiddenFilePatterns :: "string list option"
  rt_MaxAge :: string
  rt_MaxAgeDuration :: duration

record ScorecardPolicy =
  sc_MissingPolicy :: Action
  sc_MinScore :: "float64 option"
  sc_Checks :: "(string \<rightharpoonup> int) option"

record Sections =
  s_Trust :: "TrustPolicy option"
  s_SLSA :: "SLSAPolicy option"
  s_VEX :: "VEXPolicy option"
  s_VSA :: "VSAPolicy option"
  s_Signatures :: "SignaturesPolicy option"
  s_Notation :: "NotationPolicy option"
  s_CEL :: "CELPolicy option"
  s_SBOM :: "SBOMPolicy option"
  s_SCAI :: "SCAIPolicy option"
  s_Source :: "SourcePolicy option"
  s_BuildEnv :: "BuildEnvPolicy option"
  s_VulnScan :: "VulnScanPolicy option"
  s_TestResult :: "TestResultPolicy option"
  s_Release :: "ReleasePolicy option"
  s_RuntimeTrace :: "RuntimeTracePolicy option"
  s_Scorecard :: "ScorecardPolicy option"
  s_explicit :: "string set option"

text \<open>\<open>CompiledCEL\<close> is represented by the CEL section it was compiled from.\<close>

record ImageRule =
  ir_Sections :: Sections
  ir_Images :: "string list"
  ir_CompiledCEL :: "CELPolicy option"

record Policy =
  pl_Sections :: Sections
  pl_Version :: int
  pl_Mode :: VerificationMode
  pl_Inherits :: "bool option"
  pl_Include :: "string list option"
  pl_Exclude :: "string list option"
  pl_Rules :: "ImageRule list option"
  pl_CompiledCEL :: "CELPolicy option"

text \<open>Ranging over a nil slice is ranging over an empty one.\<close>

definition items :: "'a list option \<Rightarrow> 'a list" where
  "items xs = (case xs of None \<Rightarrow> [] | Some ys \<Rightarrow> ys)"

section \<open>Reading a policy\<close>

definition EffectiveMode :: "Policy \<Rightarrow> VerificationMode \<Rightarrow> VerificationMode" where
  "EffectiveMode p global = (if pl_Mode p \<noteq> [] then pl_Mode p else global)"

definition Builders :: "Policy \<Rightarrow> TrustedBuilder list" where
  "Builders p = (case s_Trust (pl_Sections p) of None \<Rightarrow> [] | Some t \<Rightarrow> items (tp_Builders t))"

text \<open>The section registry: the sections with the attestation type each one controls.\<close>

definition sectionRegistry :: "(string \<times> CheckType) list" where
  "sectionRegistry =
     [(''trust'', []), (''slsa'', CheckTypeSLSA), (''vex'', CheckTypeVEX), (''vsa'', CheckTypeVSA), (''signatures'', []),
      (''notation'', CheckTypeNotation), (''cel'', []), (''sbom'', CheckTypeSBOM), (''scai'', CheckTypeSCAI),
      (''source'', CheckTypeSource), (''buildEnv'', CheckTypeBuildEnv), (''vulnScan'', CheckTypeVulnScan),
      (''testResult'', CheckTypeTestResult), (''release'', CheckTypeRelease),
      (''runtimeTrace'', CheckTypeRuntimeTrace), (''scorecard'', CheckTypeScorecard)]"

definition sectionForCheckType :: "CheckType \<Rightarrow> string option" where
  "sectionForCheckType ct = map_option fst (find (\<lambda>spec. snd spec = ct) sectionRegistry)"

definition AttestationSections :: "(string \<times> CheckType) list" where
  "AttestationSections = filter (\<lambda>spec. snd spec \<noteq> []) sectionRegistry"

text \<open>The \<open>missingPolicy\<close> field of a named section: empty when the section is not set, and when the section has no such
  field.\<close>

definition missingPolicy :: "Sections \<Rightarrow> string \<Rightarrow> Action" where
  "missingPolicy s name =
     (if name = ''slsa'' then (case s_SLSA s of None \<Rightarrow> [] | Some x \<Rightarrow> slsa_MissingPolicy x)
      else if name = ''vex'' then (case s_VEX s of None \<Rightarrow> [] | Some x \<Rightarrow> vex_MissingPolicy x)
      else if name = ''vsa'' then (case s_VSA s of None \<Rightarrow> [] | Some x \<Rightarrow> vsa_MissingPolicy x)
      else if name = ''notation'' then (case s_Notation s of None \<Rightarrow> [] | Some x \<Rightarrow> not_MissingPolicy x)
      else if name = ''sbom'' then (case s_SBOM s of None \<Rightarrow> [] | Some x \<Rightarrow> sbom_MissingPolicy x)
      else if name = ''scai'' then (case s_SCAI s of None \<Rightarrow> [] | Some x \<Rightarrow> scai_MissingPolicy x)
      else if name = ''source'' then (case s_Source s of None \<Rightarrow> [] | Some x \<Rightarrow> src_MissingPolicy x)
      else if name = ''buildEnv'' then (case s_BuildEnv s of None \<Rightarrow> [] | Some x \<Rightarrow> be_MissingPolicy x)
      else if name = ''vulnScan'' then (case s_VulnScan s of None \<Rightarrow> [] | Some x \<Rightarrow> vs_MissingPolicy x)
      else if name = ''testResult'' then (case s_TestResult s of None \<Rightarrow> [] | Some x \<Rightarrow> trp_MissingPolicy x)
      else if name = ''release'' then (case s_Release s of None \<Rightarrow> [] | Some x \<Rightarrow> rel_MissingPolicy x)
      else if name = ''runtimeTrace'' then (case s_RuntimeTrace s of None \<Rightarrow> [] | Some x \<Rightarrow> rt_MissingPolicy x)
      else if name = ''scorecard'' then (case s_Scorecard s of None \<Rightarrow> [] | Some x \<Rightarrow> sc_MissingPolicy x)
      else [])"

text \<open>Whether a section is set.\<close>

definition section_set :: "Sections \<Rightarrow> string \<Rightarrow> bool" where
  "section_set s name =
     (if name = ''trust'' then s_Trust s \<noteq> None
      else if name = ''slsa'' then s_SLSA s \<noteq> None
      else if name = ''vex'' then s_VEX s \<noteq> None
      else if name = ''vsa'' then s_VSA s \<noteq> None
      else if name = ''signatures'' then s_Signatures s \<noteq> None
      else if name = ''notation'' then s_Notation s \<noteq> None
      else if name = ''cel'' then s_CEL s \<noteq> None
      else if name = ''sbom'' then s_SBOM s \<noteq> None
      else if name = ''scai'' then s_SCAI s \<noteq> None
      else if name = ''source'' then s_Source s \<noteq> None
      else if name = ''buildEnv'' then s_BuildEnv s \<noteq> None
      else if name = ''vulnScan'' then s_VulnScan s \<noteq> None
      else if name = ''testResult'' then s_TestResult s \<noteq> None
      else if name = ''release'' then s_Release s \<noteq> None
      else if name = ''runtimeTrace'' then s_RuntimeTrace s \<noteq> None
      else name = ''scorecard'' \<and> s_Scorecard s \<noteq> None)"

definition HasSection :: "Policy \<Rightarrow> CheckType \<Rightarrow> bool" where
  "HasSection p ct = (case sectionForCheckType ct of None \<Rightarrow> False | Some name \<Rightarrow> section_set (pl_Sections p) name)"

definition MissingPolicyFor :: "Policy \<Rightarrow> CheckType \<Rightarrow> Action" where
  "MissingPolicyFor p ct =
     (case sectionForCheckType ct of
        None \<Rightarrow> ActionAllow
      | Some name \<Rightarrow>
          (let action = missingPolicy (pl_Sections p) name in if action \<noteq> [] then action else ActionAllow))"

section \<open>Merging\<close>

text \<open>\<open>isFieldSet\<close> for a scalar field: present in the document, or non-zero when no document was recorded.\<close>

definition merge_scalar :: "string set option \<Rightarrow> string \<Rightarrow> 'a \<Rightarrow> 'a \<Rightarrow> 'a \<Rightarrow> 'a" where
  "merge_scalar explicit path zero dst src =
     (if (case explicit of Some paths \<Rightarrow> path \<in> paths | None \<Rightarrow> src \<noteq> zero) then src else dst)"

definition merge_ref :: "'a option \<Rightarrow> 'a option \<Rightarrow> 'a option" where
  "merge_ref dst src = (case src of None \<Rightarrow> dst | Some x \<Rightarrow> Some x)"

text \<open>Fields without a JSON name carry over non-zero values.\<close>

definition merge_derived :: "'a \<Rightarrow> 'a \<Rightarrow> 'a \<Rightarrow> 'a" where
  "merge_derived zero dst src = (if src \<noteq> zero then src else dst)"

text \<open>A pointer to a struct is merged into an existing one, otherwise copied.\<close>

definition merge_struct :: "('a \<Rightarrow> 'a \<Rightarrow> 'a) \<Rightarrow> 'a option \<Rightarrow> 'a option \<Rightarrow> 'a option" where
  "merge_struct f dst src =
     (case src of
        None \<Rightarrow> dst
      | Some s \<Rightarrow> (case dst of None \<Rightarrow> Some s | Some d \<Rightarrow> Some (f d s)))"

definition merge_trust :: "TrustPolicy \<Rightarrow> TrustPolicy \<Rightarrow> TrustPolicy" where
  "merge_trust d s = \<lparr>
     tp_Builders = merge_ref (tp_Builders d) (tp_Builders s),
     tp_Verifiers = merge_ref (tp_Verifiers d) (tp_Verifiers s),
     tp_Issuers = merge_ref (tp_Issuers d) (tp_Issuers s),
     tp_SANPatterns = merge_ref (tp_SANPatterns d) (tp_SANPatterns s),
     tp_Sources = merge_ref (tp_Sources d) (tp_Sources s),
     tp_BuildTypes = merge_ref (tp_BuildTypes d) (tp_BuildTypes s)\<rparr>"

definition merge_slsa :: "string set option \<Rightarrow> SLSAPolicy \<Rightarrow> SLSAPolicy \<Rightarrow> SLSAPolicy" where
  "merge_slsa ex d s = \<lparr>
     slsa_MissingPolicy = merge_scalar ex ''slsa.missingPolicy'' [] (slsa_MissingPolicy d) (slsa_MissingPolicy s),
     slsa_RejectUnknownParameters = merge_scalar ex ''slsa.rejectUnknownParameters'' False
        (slsa_RejectUnknownParameters d) (slsa_RejectUnknownParameters s),
     slsa_KnownParameters = merge_ref (slsa_KnownParameters d) (slsa_KnownParameters s),
     slsa_MaxAge = merge_scalar ex ''slsa.maxAge'' [] (slsa_MaxAge d) (slsa_MaxAge s),
     slsa_MaxAgeDuration = merge_derived 0 (slsa_MaxAgeDuration d) (slsa_MaxAgeDuration s)\<rparr>"

definition merge_vex :: "string set option \<Rightarrow> VEXPolicy \<Rightarrow> VEXPolicy \<Rightarrow> VEXPolicy" where
  "merge_vex ex d s = \<lparr>
     vex_MissingPolicy = merge_scalar ex ''vex.missingPolicy'' [] (vex_MissingPolicy d) (vex_MissingPolicy s),
     vex_UnderInvestigationPolicy = merge_scalar ex ''vex.underInvestigationPolicy'' []
        (vex_UnderInvestigationPolicy d) (vex_UnderInvestigationPolicy s)\<rparr>"

definition merge_vsa :: "string set option \<Rightarrow> VSAPolicy \<Rightarrow> VSAPolicy \<Rightarrow> VSAPolicy" where
  "merge_vsa ex d s = \<lparr>
     vsa_MissingPolicy = merge_scalar ex ''vsa.missingPolicy'' [] (vsa_MissingPolicy d) (vsa_MissingPolicy s),
     vsa_MinimumLevel = merge_scalar ex ''vsa.minimumLevel'' 0 (vsa_MinimumLevel d) (vsa_MinimumLevel s),
     vsa_MaxAge = merge_scalar ex ''vsa.maxAge'' [] (vsa_MaxAge d) (vsa_MaxAge s),
     vsa_MaxAgeDuration = merge_derived 0 (vsa_MaxAgeDuration d) (vsa_MaxAgeDuration s),
     vsa_Policy = merge_scalar ex ''vsa.policy'' [] (vsa_Policy d) (vsa_Policy s)\<rparr>"

definition merge_signatures :: "string set option \<Rightarrow> SignaturesPolicy \<Rightarrow> SignaturesPolicy \<Rightarrow> SignaturesPolicy" where
  "merge_signatures ex d s = \<lparr>
     sig_RequireTransparencyLog = merge_scalar ex ''signatures.requireTransparencyLog'' False
        (sig_RequireTransparencyLog d) (sig_RequireTransparencyLog s)\<rparr>"

definition merge_notation :: "string set option \<Rightarrow> NotationPolicy \<Rightarrow> NotationPolicy \<Rightarrow> NotationPolicy" where
  "merge_notation ex d s = \<lparr>
     not_MissingPolicy = merge_scalar ex ''notation.missingPolicy'' [] (not_MissingPolicy d) (not_MissingPolicy s),
     not_TrustStores = merge_ref (not_TrustStores d) (not_TrustStores s),
     not_TrustPolicy = merge_ref (not_TrustPolicy d) (not_TrustPolicy s),
     not_VerificationLevel = merge_scalar ex ''notation.verificationLevel'' []
        (not_VerificationLevel d) (not_VerificationLevel s),
     not_RevocationMode = merge_scalar ex ''notation.revocationMode'' [] (not_RevocationMode d) (not_RevocationMode s)\<rparr>"

definition merge_license :: "SBOMLicensePolicy \<Rightarrow> SBOMLicensePolicy \<Rightarrow> SBOMLicensePolicy" where
  "merge_license d s = \<lparr>lic_Deny = merge_ref (lic_Deny d) (lic_Deny s), lic_Allow = merge_ref (lic_Allow d) (lic_Allow s)\<rparr>"

definition merge_component :: "SBOMComponentPolicy \<Rightarrow> SBOMComponentPolicy \<Rightarrow> SBOMComponentPolicy" where
  "merge_component d s = \<lparr>cmp_Deny = merge_ref (cmp_Deny d) (cmp_Deny s), cmp_Allow = merge_ref (cmp_Allow d) (cmp_Allow s)\<rparr>"

definition merge_cvss :: "string set option \<Rightarrow> SBOMCVSSPolicy \<Rightarrow> SBOMCVSSPolicy \<Rightarrow> SBOMCVSSPolicy" where
  "merge_cvss ex d s = \<lparr>
     cvss_MaxScore = merge_ref (cvss_MaxScore d) (cvss_MaxScore s),
     cvss_MinSeverity = merge_scalar ex ''sbom.cvss.minSeverity'' [] (cvss_MinSeverity d) (cvss_MinSeverity s),
     cvss_IgnoreCVEs = merge_ref (cvss_IgnoreCVEs d) (cvss_IgnoreCVEs s)\<rparr>"

definition merge_drift :: "SBOMDriftPolicy \<Rightarrow> SBOMDriftPolicy \<Rightarrow> SBOMDriftPolicy" where
  "merge_drift d s = \<lparr>
     dft_MaxAdded = merge_ref (dft_MaxAdded d) (dft_MaxAdded s),
     dft_MaxRemoved = merge_ref (dft_MaxRemoved d) (dft_MaxRemoved s),
     dft_MaxModified = merge_ref (dft_MaxModified d) (dft_MaxModified s),
     dft_MaxScore = merge_ref (dft_MaxScore d) (dft_MaxScore s)\<rparr>"

definition merge_sbom :: "string set option \<Rightarrow> SBOMPolicy \<Rightarrow> SBOMPolicy \<Rightarrow> SBOMPolicy" where
  "merge_sbom ex d s = \<lparr>
     sbom_MissingPolicy = merge_scalar ex ''sbom.missingPolicy'' [] (sbom_MissingPolicy d) (sbom_MissingPolicy s),
     sbom_Formats = merge_ref (sbom_Formats d) (sbom_Formats s),
     sbom_License = merge_struct merge_license (sbom_License d) (sbom_License s),
     sbom_Component = merge_struct merge_component (sbom_Component d) (sbom_Component s),
     sbom_CVSS = merge_struct (merge_cvss ex) (sbom_CVSS d) (sbom_CVSS s),
     sbom_Drift = merge_struct merge_drift (sbom_Drift d) (sbom_Drift s)\<rparr>"

definition merge_scai :: "string set option \<Rightarrow> SCAIPolicy \<Rightarrow> SCAIPolicy \<Rightarrow> SCAIPolicy" where
  "merge_scai ex d s = \<lparr>
     scai_MissingPolicy = merge_scalar ex ''scai.missingPolicy'' [] (scai_MissingPolicy d) (scai_MissingPolicy s),
     scai_RequiredAttributes = merge_ref (scai_RequiredAttributes d) (scai_RequiredAttributes s),
     scai_ForbiddenAttributes = merge_ref (scai_ForbiddenAttributes d) (scai_ForbiddenAttributes s),
     scai_RequireEvidence = merge_scalar ex ''scai.requireEvidence'' False (scai_RequireEvidence d) (scai_RequireEvidence s)\<rparr>"

definition merge_source :: "string set option \<Rightarrow> SourcePolicy \<Rightarrow> SourcePolicy \<Rightarrow> SourcePolicy" where
  "merge_source ex d s = \<lparr>
     src_MissingPolicy = merge_scalar ex ''source.missingPolicy'' [] (src_MissingPolicy d) (src_MissingPolicy s),
     src_MinimumLevel = merge_scalar ex ''source.minimumLevel'' 0 (src_MinimumLevel d) (src_MinimumLevel s),
     src_MaxAge = merge_scalar ex ''source.maxAge'' [] (src_MaxAge d) (src_MaxAge s),
     src_MaxAgeDuration = merge_derived 0 (src_MaxAgeDuration d) (src_MaxAgeDuration s)\<rparr>"

definition merge_buildEnv :: "string set option \<Rightarrow> BuildEnvPolicy \<Rightarrow> BuildEnvPolicy \<Rightarrow> BuildEnvPolicy" where
  "merge_buildEnv ex d s = \<lparr>
     be_MissingPolicy = merge_scalar ex ''buildEnv.missingPolicy'' [] (be_MissingPolicy d) (be_MissingPolicy s),
     be_RequiredProperties = merge_ref (be_RequiredProperties d) (be_RequiredProperties s),
     be_ForbiddenProperties = merge_ref (be_ForbiddenProperties d) (be_ForbiddenProperties s)\<rparr>"

definition merge_vulnScan :: "string set option \<Rightarrow> VulnScanPolicy \<Rightarrow> VulnScanPolicy \<Rightarrow> VulnScanPolicy" where
  "merge_vulnScan ex d s = \<lparr>
     vs_MissingPolicy = merge_scalar ex ''vulnScan.missingPolicy'' [] (vs_MissingPolicy d) (vs_MissingPolicy s),
     vs_MaxScore = merge_ref (vs_MaxScore d) (vs_MaxScore s),
     vs_MinSeverity = merge_scalar ex ''vulnScan.minSeverity'' [] (vs_MinSeverity d) (vs_MinSeverity s),
     vs_IgnoreCVEs = merge_ref (vs_IgnoreCVEs d) (vs_IgnoreCVEs s),
     vs_MaxAge = merge_scalar ex ''vulnScan.maxAge'' [] (vs_MaxAge d) (vs_MaxAge s),
     vs_MaxAgeDuration = merge_derived 0 (vs_MaxAgeDuration d) (vs_MaxAgeDuration s)\<rparr>"

definition merge_testResult :: "string set option \<Rightarrow> TestResultPolicy \<Rightarrow> TestResultPolicy \<Rightarrow> TestResultPolicy" where
  "merge_testResult ex d s = \<lparr>
     trp_MissingPolicy = merge_scalar ex ''testResult.missingPolicy'' [] (trp_MissingPolicy d) (trp_MissingPolicy s),
     trp_RequiredSuites = merge_ref (trp_RequiredSuites d) (trp_RequiredSuites s),
     trp_MaxAge = merge_scalar ex ''testResult.maxAge'' [] (trp_MaxAge d) (trp_MaxAge s),
     trp_MaxAgeDuration = merge_derived 0 (trp_MaxAgeDuration d) (trp_MaxAgeDuration s)\<rparr>"

definition merge_release :: "string set option \<Rightarrow> ReleasePolicy \<Rightarrow> ReleasePolicy \<Rightarrow> ReleasePolicy" where
  "merge_release ex d s = \<lparr>
     rel_MissingPolicy = merge_scalar ex ''release.missingPolicy'' [] (rel_MissingPolicy d) (rel_MissingPolicy s),
     rel_TrustedRegistries = merge_ref (rel_TrustedRegistries d) (rel_TrustedRegistries s),
     rel_RequirePackageID = merge_scalar ex ''release.requirePackageId'' False (rel_RequirePackageID d) (rel_RequirePackageID s)\<rparr>"

definition merge_runtimeTrace :: "string set option \<Rightarrow> RuntimeTracePolicy \<Rightarrow> RuntimeTracePolicy \<Rightarrow> RuntimeTracePolicy" where
  "merge_runtimeTrace ex d s = \<lparr>
     rt_MissingPolicy = merge_scalar ex ''runtimeTrace.missingPolicy'' [] (rt_MissingPolicy d) (rt_MissingPolicy s),
     rt_TrustedMonitors = merge_ref (rt_TrustedMonitors d) (rt_TrustedMonitors s),
     rt_ForbiddenFilePatterns = merge_ref (rt_ForbiddenFilePatterns d) (rt_ForbiddenFilePatterns s),
     rt_MaxAge = merge_scalar ex ''runtimeTrace.maxAge'' [] (rt_MaxAge d) (rt_MaxAge s),
     rt_MaxAgeDuration = merge_derived 0 (rt_MaxAgeDuration d) (rt_MaxAgeDuration s)\<rparr>"

definition merge_scorecard :: "string set option \<Rightarrow> ScorecardPolicy \<Rightarrow> ScorecardPolicy \<Rightarrow> ScorecardPolicy" where
  "merge_scorecard ex d s = \<lparr>
     sc_MissingPolicy = merge_scalar ex ''scorecard.missingPolicy'' [] (sc_MissingPolicy d) (sc_MissingPolicy s),
     sc_MinScore = merge_ref (sc_MinScore d) (sc_MinScore s),
     sc_Checks = merge_ref (sc_Checks d) (sc_Checks s)\<rparr>"

text \<open>\<open>resolveMergedMaxAges\<close> for one section: \<open>raw\<close> and \<open>dur\<close> are the fields of the merged section and \<open>path\<close> its
  maximum age field.\<close>

definition merged_max_age ::
  "(string \<Rightarrow> duration option) \<Rightarrow> string set option \<Rightarrow> string \<Rightarrow> string \<Rightarrow> duration \<Rightarrow> duration" where
  "merged_max_age ParseDuration explicit path raw dur =
     (if raw = [] then
        (if (case explicit of None \<Rightarrow> False | Some paths \<Rightarrow> path \<in> paths) then 0 else dur)
      else (case ParseDuration raw of
              Some parsed \<Rightarrow> if parsed > 0 then parsed else dur
            | None \<Rightarrow> dur))"

definition resolveMergedMaxAges :: "(string \<Rightarrow> duration option) \<Rightarrow> Sections \<Rightarrow> Sections \<Rightarrow> Sections" where
  "resolveMergedMaxAges pd dst src =
     (let ex = s_explicit src in dst\<lparr>
        s_SLSA := map_option (\<lambda>x. x\<lparr>slsa_MaxAgeDuration :=
            merged_max_age pd ex ''slsa.maxAge'' (slsa_MaxAge x) (slsa_MaxAgeDuration x)\<rparr>) (s_SLSA dst),
        s_VSA := map_option (\<lambda>x. x\<lparr>vsa_MaxAgeDuration :=
            merged_max_age pd ex ''vsa.maxAge'' (vsa_MaxAge x) (vsa_MaxAgeDuration x)\<rparr>) (s_VSA dst),
        s_Source := map_option (\<lambda>x. x\<lparr>src_MaxAgeDuration :=
            merged_max_age pd ex ''source.maxAge'' (src_MaxAge x) (src_MaxAgeDuration x)\<rparr>) (s_Source dst),
        s_VulnScan := map_option (\<lambda>x. x\<lparr>vs_MaxAgeDuration :=
            merged_max_age pd ex ''vulnScan.maxAge'' (vs_MaxAge x) (vs_MaxAgeDuration x)\<rparr>) (s_VulnScan dst),
        s_TestResult := map_option (\<lambda>x. x\<lparr>trp_MaxAgeDuration :=
            merged_max_age pd ex ''testResult.maxAge'' (trp_MaxAge x) (trp_MaxAgeDuration x)\<rparr>) (s_TestResult dst),
        s_RuntimeTrace := map_option (\<lambda>x. x\<lparr>rt_MaxAgeDuration :=
            merged_max_age pd ex ''runtimeTrace.maxAge'' (rt_MaxAge x) (rt_MaxAgeDuration x)\<rparr>) (s_RuntimeTrace dst)\<rparr>)"

definition merge_fields :: "Sections \<Rightarrow> Sections \<Rightarrow> Sections" where
  "merge_fields dst src =
     (let ex = s_explicit src in \<lparr>
        s_Trust = merge_struct merge_trust (s_Trust dst) (s_Trust src),
        s_SLSA = merge_struct (merge_slsa ex) (s_SLSA dst) (s_SLSA src),
        s_VEX = merge_struct (merge_vex ex) (s_VEX dst) (s_VEX src),
        s_VSA = merge_struct (merge_vsa ex) (s_VSA dst) (s_VSA src),
        s_Signatures = merge_struct (merge_signatures ex) (s_Signatures dst) (s_Signatures src),
        s_Notation = merge_struct (merge_notation ex) (s_Notation dst) (s_Notation src),
        s_CEL = merge_ref (s_CEL dst) (s_CEL src),
        s_SBOM = merge_struct (merge_sbom ex) (s_SBOM dst) (s_SBOM src),
        s_SCAI = merge_struct (merge_scai ex) (s_SCAI dst) (s_SCAI src),
        s_Source = merge_struct (merge_source ex) (s_Source dst) (s_Source src),
        s_BuildEnv = merge_struct (merge_buildEnv ex) (s_BuildEnv dst) (s_BuildEnv src),
        s_VulnScan = merge_struct (merge_vulnScan ex) (s_VulnScan dst) (s_VulnScan src),
        s_TestResult = merge_struct (merge_testResult ex) (s_TestResult dst) (s_TestResult src),
        s_Release = merge_struct (merge_release ex) (s_Release dst) (s_Release src),
        s_RuntimeTrace = merge_struct (merge_runtimeTrace ex) (s_RuntimeTrace dst) (s_RuntimeTrace src),
        s_Scorecard = merge_struct (merge_scorecard ex) (s_Scorecard dst) (s_Scorecard src),
        s_explicit = s_explicit dst\<rparr>)"

definition mergeSections :: "(string \<Rightarrow> duration option) \<Rightarrow> Sections \<Rightarrow> Sections \<Rightarrow> Sections" where
  "mergeSections pd dst src = resolveMergedMaxAges pd (merge_fields dst src) src"

text \<open>Values are immutable here, so a clone only differs by the field that is not copied.\<close>

definition clonePolicy :: "Policy \<Rightarrow> Policy" where
  "clonePolicy pol = pol\<lparr>pl_Inherits := None\<rparr>"

definition MergeWithDefault :: "(string \<Rightarrow> duration option) \<Rightarrow> Policy \<Rightarrow> Policy \<Rightarrow> Policy" where
  "MergeWithDefault pd namespace defaultPol =
     (let merged = clonePolicy defaultPol;
          sections = mergeSections pd (pl_Sections merged) (pl_Sections namespace)
      in merged\<lparr>
        pl_Mode := (if pl_Mode namespace \<noteq> [] then pl_Mode namespace else pl_Mode merged),
        pl_Include := merge_ref (pl_Include merged) (pl_Include namespace),
        pl_Exclude := merge_ref (pl_Exclude merged) (pl_Exclude namespace),
        pl_Sections := sections\<lparr>s_explicit := None\<rparr>,
        pl_CompiledCEL := (if s_CEL (pl_Sections namespace) \<noteq> None then pl_CompiledCEL namespace
                           else pl_CompiledCEL merged),
        pl_Rules := merge_ref (pl_Rules merged) (pl_Rules namespace)\<rparr>)"

definition ApplyRule :: "(string \<Rightarrow> duration option) \<Rightarrow> Policy \<Rightarrow> ImageRule \<Rightarrow> Policy" where
  "ApplyRule pd base rule =
     (let resolved = (clonePolicy base)\<lparr>pl_Rules := None\<rparr>;
          sections = mergeSections pd (pl_Sections resolved) (ir_Sections rule)
      in resolved\<lparr>
        pl_Sections := sections\<lparr>s_explicit := None\<rparr>,
        pl_CompiledCEL := (if s_CEL (ir_Sections rule) \<noteq> None then ir_CompiledCEL rule
                           else pl_CompiledCEL resolved)\<rparr>)"

section \<open>Trusted signers\<close>

definition matchesKey :: "string list \<Rightarrow> string \<Rightarrow> bool" where
  "matchesKey keys keyPath =
     (keyPath \<noteq> [] \<and> list_ex (\<lambda>key. filepath_Clean key = filepath_Clean keyPath) keys)"

definition matchesIdentity :: "TrustedIdentity list \<Rightarrow> string \<Rightarrow> string \<Rightarrow> bool" where
  "matchesIdentity identities issuer san =
     (issuer \<noteq> [] \<and> san \<noteq> [] \<and>
      list_ex (\<lambda>ident. ti_Issuer ident = issuer \<and> ti_SANPattern ident \<noteq> [] \<and>
                 glob_Match (ti_SANPattern ident) san = Inr True) identities)"

definition matchesSigner :: "string list \<Rightarrow> TrustedIdentity list \<Rightarrow> string \<Rightarrow> string \<Rightarrow> string \<Rightarrow> bool" where
  "matchesSigner keys identities keyPath issuer san =
     (matchesKey keys keyPath \<or> matchesIdentity identities issuer san)"

definition verifier_Bound :: "TrustedVerifier \<Rightarrow> bool" where
  "verifier_Bound v = (tv_Keys v \<noteq> [] \<or> tv_Identities v \<noteq> [])"

definition verifier_MatchesSigner :: "TrustedVerifier \<Rightarrow> string \<Rightarrow> string \<Rightarrow> string \<Rightarrow> bool" where
  "verifier_MatchesSigner v keyPath issuer san = matchesSigner (tv_Keys v) (tv_Identities v) keyPath issuer san"

definition builder_Bound :: "TrustedBuilder \<Rightarrow> bool" where
  "builder_Bound b = (tb_Keys b \<noteq> [] \<or> tb_Identities b \<noteq> [])"

definition builder_MatchesSigner :: "TrustedBuilder \<Rightarrow> string \<Rightarrow> string \<Rightarrow> string \<Rightarrow> bool" where
  "builder_MatchesSigner b keyPath issuer san = matchesSigner (tb_Keys b) (tb_Identities b) keyPath issuer san"

section \<open>Strictness and enforcement\<close>

definition ValidateModeStrictness :: "Policy \<Rightarrow> VerificationMode \<Rightarrow> config_error list" where
  "ValidateModeStrictness p global =
     (if pl_Mode p = [] then []
      else if Strictness (pl_Mode p) < Strictness global then [''ErrModeNotStricter''] else [])"

abbreviation notationLevelSkip :: string where "notationLevelSkip \<equiv> ''skip''"
abbreviation notationLevelAudit :: string where "notationLevelAudit \<equiv> ''audit''"
abbreviation notationLevelPermissive :: string where "notationLevelPermissive \<equiv> ''permissive''"

definition enforceError :: "Sections \<Rightarrow> config_error list" where
  "enforceError s =
     (let level = (case s_Notation s of None \<Rightarrow> [] | Some n \<Rightarrow> not_VerificationLevel n) in
      if level = notationLevelSkip then [''ErrNotationSkipInEnforceMode'']
      else if level = notationLevelAudit then [''ErrNotationAuditInEnforceMode'']
      else
        (case s_Trust s of
           Some t \<Rightarrow> if items (tp_Issuers t) \<noteq> [] \<and> items (tp_SANPatterns t) = [] then [''ErrSANPatternsRequired''] else []
         | None \<Rightarrow> []))"

fun rules_enforce_error :: "(string \<Rightarrow> duration option) \<Rightarrow> Policy \<Rightarrow> ImageRule list \<Rightarrow> config_error list" where
  "rules_enforce_error pd p [] = []"
| "rules_enforce_error pd p (r # rs) =
     (let errs = enforceError (pl_Sections (ApplyRule pd p r)) in
      if errs \<noteq> [] then errs else rules_enforce_error pd p rs)"

definition ValidateEnforce :: "(string \<Rightarrow> duration option) \<Rightarrow> Policy \<Rightarrow> config_error list" where
  "ValidateEnforce pd p =
     (let errs = enforceError (pl_Sections p) in
      if errs \<noteq> [] then errs else rules_enforce_error pd p (items (pl_Rules p)))"

section \<open>What a merge takes from where\<close>

named_theorems merge_defs

lemmas merge_parts [merge_defs] =
  merge_scalar_def merge_ref_def merge_derived_def merge_struct_def mergeSections_def resolveMergedMaxAges_def
  merge_fields_def Let_def

lemmas merge_section_defs =
  merge_trust_def merge_slsa_def merge_vex_def merge_vsa_def merge_signatures_def merge_notation_def merge_sbom_def
  merge_scai_def merge_source_def merge_buildEnv_def merge_vulnScan_def merge_testResult_def merge_release_def
  merge_runtimeTrace_def merge_scorecard_def

definition is_set :: "string set option \<Rightarrow> string \<Rightarrow> string \<Rightarrow> bool" where
  "is_set explicit path v = (case explicit of Some paths \<Rightarrow> path \<in> paths | None \<Rightarrow> v \<noteq> [])"

definition missing_path :: "string \<Rightarrow> string" where
  "missing_path name = name @ ''.missingPolicy''"

lemma AttestationSections_names:
  "map fst AttestationSections =
     [''slsa'', ''vex'', ''vsa'', ''notation'', ''sbom'', ''scai'', ''source'', ''buildEnv'', ''vulnScan'', ''testResult'',
      ''release'', ''runtimeTrace'', ''scorecard'']"
  by code_simp

lemma section_name_cases:
  assumes "name \<in> fst ` set AttestationSections"
  obtains "name = ''slsa''" | "name = ''vex''" | "name = ''vsa''" | "name = ''notation''" | "name = ''sbom''"
    | "name = ''scai''" | "name = ''source''" | "name = ''buildEnv''" | "name = ''vulnScan''" | "name = ''testResult''"
    | "name = ''release''" | "name = ''runtimeTrace''" | "name = ''scorecard''"
proof -
  have "name \<in> set (map fst AttestationSections)" using assms by simp
  then show ?thesis
    unfolding AttestationSections_names list.set insert_iff empty_iff simp_thms by (elim disjE) (erule that)+
qed

text \<open>The sections of a merge, one by one.\<close>

lemma merged_sections [simp]:
  "s_Trust (mergeSections pd d s) = merge_struct merge_trust (s_Trust d) (s_Trust s)"
  "s_VEX (mergeSections pd d s) = merge_struct (merge_vex (s_explicit s)) (s_VEX d) (s_VEX s)"
  "s_Signatures (mergeSections pd d s) = merge_struct (merge_signatures (s_explicit s)) (s_Signatures d) (s_Signatures s)"
  "s_Notation (mergeSections pd d s) = merge_struct (merge_notation (s_explicit s)) (s_Notation d) (s_Notation s)"
  "s_CEL (mergeSections pd d s) = merge_ref (s_CEL d) (s_CEL s)"
  "s_SBOM (mergeSections pd d s) = merge_struct (merge_sbom (s_explicit s)) (s_SBOM d) (s_SBOM s)"
  "s_SCAI (mergeSections pd d s) = merge_struct (merge_scai (s_explicit s)) (s_SCAI d) (s_SCAI s)"
  "s_BuildEnv (mergeSections pd d s) = merge_struct (merge_buildEnv (s_explicit s)) (s_BuildEnv d) (s_BuildEnv s)"
  "s_Release (mergeSections pd d s) = merge_struct (merge_release (s_explicit s)) (s_Release d) (s_Release s)"
  "s_Scorecard (mergeSections pd d s) = merge_struct (merge_scorecard (s_explicit s)) (s_Scorecard d) (s_Scorecard s)"
  "s_explicit (mergeSections pd d s) = s_explicit d"
  by (simp_all add: mergeSections_def resolveMergedMaxAges_def merge_fields_def Let_def)

text \<open>The sections with a maximum age.\<close>

lemma merged_aged_sections:
  "s_SLSA (mergeSections pd d s) = map_option (\<lambda>x. x\<lparr>slsa_MaxAgeDuration :=
     merged_max_age pd (s_explicit s) ''slsa.maxAge'' (slsa_MaxAge x) (slsa_MaxAgeDuration x)\<rparr>)
     (merge_struct (merge_slsa (s_explicit s)) (s_SLSA d) (s_SLSA s))"
  "s_VSA (mergeSections pd d s) = map_option (\<lambda>x. x\<lparr>vsa_MaxAgeDuration :=
     merged_max_age pd (s_explicit s) ''vsa.maxAge'' (vsa_MaxAge x) (vsa_MaxAgeDuration x)\<rparr>)
     (merge_struct (merge_vsa (s_explicit s)) (s_VSA d) (s_VSA s))"
  "s_Source (mergeSections pd d s) = map_option (\<lambda>x. x\<lparr>src_MaxAgeDuration :=
     merged_max_age pd (s_explicit s) ''source.maxAge'' (src_MaxAge x) (src_MaxAgeDuration x)\<rparr>)
     (merge_struct (merge_source (s_explicit s)) (s_Source d) (s_Source s))"
  "s_VulnScan (mergeSections pd d s) = map_option (\<lambda>x. x\<lparr>vs_MaxAgeDuration :=
     merged_max_age pd (s_explicit s) ''vulnScan.maxAge'' (vs_MaxAge x) (vs_MaxAgeDuration x)\<rparr>)
     (merge_struct (merge_vulnScan (s_explicit s)) (s_VulnScan d) (s_VulnScan s))"
  "s_TestResult (mergeSections pd d s) = map_option (\<lambda>x. x\<lparr>trp_MaxAgeDuration :=
     merged_max_age pd (s_explicit s) ''testResult.maxAge'' (trp_MaxAge x) (trp_MaxAgeDuration x)\<rparr>)
     (merge_struct (merge_testResult (s_explicit s)) (s_TestResult d) (s_TestResult s))"
  "s_RuntimeTrace (mergeSections pd d s) = map_option (\<lambda>x. x\<lparr>rt_MaxAgeDuration :=
     merged_max_age pd (s_explicit s) ''runtimeTrace.maxAge'' (rt_MaxAge x) (rt_MaxAgeDuration x)\<rparr>)
     (merge_struct (merge_runtimeTrace (s_explicit s)) (s_RuntimeTrace d) (s_RuntimeTrace s))"
  by (simp_all add: mergeSections_def resolveMergedMaxAges_def merge_fields_def Let_def)

text \<open>A scalar field of a merged section, the empty string standing for an unset section.\<close>

definition field_of :: "('a \<Rightarrow> string) \<Rightarrow> 'a option \<Rightarrow> string" where
  "field_of f x = (case x of None \<Rightarrow> [] | Some y \<Rightarrow> f y)"

lemma field_of_merge_struct:
  assumes "\<And>a b. f (g a b) = merge_scalar ex path [] (f a) (f b)"
  shows "field_of f (merge_struct g d s) =
    (if s \<noteq> None \<and> (d \<noteq> None \<longrightarrow> is_set ex path (field_of f s)) then field_of f s else field_of f d)"
  by (cases s; cases d) (auto simp: field_of_def merge_struct_def assms merge_scalar_def is_set_def split: option.splits)

lemma field_of_map_option:
  "(\<And>x. f (h x) = f x) \<Longrightarrow> field_of f (map_option h x) = field_of f x"
  by (cases x) (simp_all add: field_of_def)

lemma field_of_aged:
  "field_of slsa_MissingPolicy (map_option (\<lambda>x. x\<lparr>slsa_MaxAgeDuration := h1 x\<rparr>) y1) = field_of slsa_MissingPolicy y1"
  "field_of vsa_MissingPolicy (map_option (\<lambda>x. x\<lparr>vsa_MaxAgeDuration := h2 x\<rparr>) y2) = field_of vsa_MissingPolicy y2"
  "field_of src_MissingPolicy (map_option (\<lambda>x. x\<lparr>src_MaxAgeDuration := h3 x\<rparr>) y3) = field_of src_MissingPolicy y3"
  "field_of vs_MissingPolicy (map_option (\<lambda>x. x\<lparr>vs_MaxAgeDuration := h4 x\<rparr>) y4) = field_of vs_MissingPolicy y4"
  "field_of trp_MissingPolicy (map_option (\<lambda>x. x\<lparr>trp_MaxAgeDuration := h5 x\<rparr>) y5) = field_of trp_MissingPolicy y5"
  "field_of rt_MissingPolicy (map_option (\<lambda>x. x\<lparr>rt_MaxAgeDuration := h6 x\<rparr>) y6) = field_of rt_MissingPolicy y6"
  by (rule field_of_map_option, simp)+

lemma missingPolicy_fields:
  "missingPolicy s ''slsa'' = field_of slsa_MissingPolicy (s_SLSA s)"
  "missingPolicy s ''vex'' = field_of vex_MissingPolicy (s_VEX s)"
  "missingPolicy s ''vsa'' = field_of vsa_MissingPolicy (s_VSA s)"
  "missingPolicy s ''notation'' = field_of not_MissingPolicy (s_Notation s)"
  "missingPolicy s ''sbom'' = field_of sbom_MissingPolicy (s_SBOM s)"
  "missingPolicy s ''scai'' = field_of scai_MissingPolicy (s_SCAI s)"
  "missingPolicy s ''source'' = field_of src_MissingPolicy (s_Source s)"
  "missingPolicy s ''buildEnv'' = field_of be_MissingPolicy (s_BuildEnv s)"
  "missingPolicy s ''vulnScan'' = field_of vs_MissingPolicy (s_VulnScan s)"
  "missingPolicy s ''testResult'' = field_of trp_MissingPolicy (s_TestResult s)"
  "missingPolicy s ''release'' = field_of rel_MissingPolicy (s_Release s)"
  "missingPolicy s ''runtimeTrace'' = field_of rt_MissingPolicy (s_RuntimeTrace s)"
  "missingPolicy s ''scorecard'' = field_of sc_MissingPolicy (s_Scorecard s)"
  by (simp_all add: missingPolicy_def field_of_def)

lemma section_set_fields:
  "section_set s ''slsa'' \<longleftrightarrow> s_SLSA s \<noteq> None"
  "section_set s ''vex'' \<longleftrightarrow> s_VEX s \<noteq> None"
  "section_set s ''vsa'' \<longleftrightarrow> s_VSA s \<noteq> None"
  "section_set s ''notation'' \<longleftrightarrow> s_Notation s \<noteq> None"
  "section_set s ''sbom'' \<longleftrightarrow> s_SBOM s \<noteq> None"
  "section_set s ''scai'' \<longleftrightarrow> s_SCAI s \<noteq> None"
  "section_set s ''source'' \<longleftrightarrow> s_Source s \<noteq> None"
  "section_set s ''buildEnv'' \<longleftrightarrow> s_BuildEnv s \<noteq> None"
  "section_set s ''vulnScan'' \<longleftrightarrow> s_VulnScan s \<noteq> None"
  "section_set s ''testResult'' \<longleftrightarrow> s_TestResult s \<noteq> None"
  "section_set s ''release'' \<longleftrightarrow> s_Release s \<noteq> None"
  "section_set s ''runtimeTrace'' \<longleftrightarrow> s_RuntimeTrace s \<noteq> None"
  "section_set s ''scorecard'' \<longleftrightarrow> s_Scorecard s \<noteq> None"
  by (simp_all add: section_set_def)

lemma missing_field_merges:
  "slsa_MissingPolicy (merge_slsa ex a b) = merge_scalar ex (missing_path ''slsa'') [] (slsa_MissingPolicy a) (slsa_MissingPolicy b)"
  "vex_MissingPolicy (merge_vex ex a1 b1) = merge_scalar ex (missing_path ''vex'') [] (vex_MissingPolicy a1) (vex_MissingPolicy b1)"
  "vsa_MissingPolicy (merge_vsa ex a2 b2) = merge_scalar ex (missing_path ''vsa'') [] (vsa_MissingPolicy a2) (vsa_MissingPolicy b2)"
  "not_MissingPolicy (merge_notation ex a3 b3) = merge_scalar ex (missing_path ''notation'') [] (not_MissingPolicy a3) (not_MissingPolicy b3)"
  "sbom_MissingPolicy (merge_sbom ex a4 b4) = merge_scalar ex (missing_path ''sbom'') [] (sbom_MissingPolicy a4) (sbom_MissingPolicy b4)"
  "scai_MissingPolicy (merge_scai ex a5 b5) = merge_scalar ex (missing_path ''scai'') [] (scai_MissingPolicy a5) (scai_MissingPolicy b5)"
  "src_MissingPolicy (merge_source ex a6 b6) = merge_scalar ex (missing_path ''source'') [] (src_MissingPolicy a6) (src_MissingPolicy b6)"
  "be_MissingPolicy (merge_buildEnv ex a7 b7) = merge_scalar ex (missing_path ''buildEnv'') [] (be_MissingPolicy a7) (be_MissingPolicy b7)"
  "vs_MissingPolicy (merge_vulnScan ex a8 b8) = merge_scalar ex (missing_path ''vulnScan'') [] (vs_MissingPolicy a8) (vs_MissingPolicy b8)"
  "trp_MissingPolicy (merge_testResult ex a9 b9) = merge_scalar ex (missing_path ''testResult'') [] (trp_MissingPolicy a9) (trp_MissingPolicy b9)"
  "rel_MissingPolicy (merge_release ex c1 d1) = merge_scalar ex (missing_path ''release'') [] (rel_MissingPolicy c1) (rel_MissingPolicy d1)"
  "rt_MissingPolicy (merge_runtimeTrace ex c2 d2) = merge_scalar ex (missing_path ''runtimeTrace'') [] (rt_MissingPolicy c2) (rt_MissingPolicy d2)"
  "sc_MissingPolicy (merge_scorecard ex c3 d3) = merge_scalar ex (missing_path ''scorecard'') [] (sc_MissingPolicy c3) (sc_MissingPolicy d3)"
  by (simp_all add: merge_section_defs missing_path_def)

lemmas missing_field_laws =
  field_of_merge_struct [OF missing_field_merges(1)] field_of_merge_struct [OF missing_field_merges(2)]
  field_of_merge_struct [OF missing_field_merges(3)] field_of_merge_struct [OF missing_field_merges(4)]
  field_of_merge_struct [OF missing_field_merges(5)] field_of_merge_struct [OF missing_field_merges(6)]
  field_of_merge_struct [OF missing_field_merges(7)] field_of_merge_struct [OF missing_field_merges(8)]
  field_of_merge_struct [OF missing_field_merges(9)] field_of_merge_struct [OF missing_field_merges(10)]
  field_of_merge_struct [OF missing_field_merges(11)] field_of_merge_struct [OF missing_field_merges(12)]
  field_of_merge_struct [OF missing_field_merges(13)]

lemma missingPolicy_mergeSections:
  assumes "name \<in> fst ` set AttestationSections"
  shows "missingPolicy (mergeSections pd d s) name =
    (if section_set s name \<and> (section_set d name \<longrightarrow> is_set (s_explicit s) (missing_path name) (missingPolicy s name))
     then missingPolicy s name else missingPolicy d name)"
  using assms
  by (cases rule: section_name_cases)
     (simp_all only: missingPolicy_fields section_set_fields merged_sections merged_aged_sections field_of_aged
        missing_field_laws)

lemma sectionForCheckType_attestation:
  assumes "(name, ct) \<in> set AttestationSections"
  shows "sectionForCheckType ct = Some name"
proof -
  have "list_all (\<lambda>(name, ct). sectionForCheckType ct = Some name) AttestationSections" by code_simp
  then show ?thesis using assms by (auto simp: list_all_iff)
qed

text \<open>What decoding a document guarantees of the recorded paths: a field that is not recorded is empty, and a recorded field
  belongs to a section that is set.\<close>

definition document :: "Sections \<Rightarrow> bool" where
  "document s =
     (case s_explicit s of
        None \<Rightarrow> False
      | Some paths \<Rightarrow> list_all (\<lambda>name. if missing_path name \<in> paths then section_set s name else missingPolicy s name = [])
                        (map fst AttestationSections))"

lemma missingPolicy_unset: "\<not> section_set s name \<Longrightarrow> name \<in> fst ` set AttestationSections \<Longrightarrow> missingPolicy s name = []"
  by (erule section_name_cases) (simp_all only: missingPolicy_fields section_set_fields field_of_def simp_thms option.case)

lemma merged_policy_sections:
  "pl_Sections (MergeWithDefault pd ns d) = (mergeSections pd (pl_Sections d) (pl_Sections ns))\<lparr>s_explicit := None\<rparr>"
  "pl_Sections (ApplyRule pd p r) = (mergeSections pd (pl_Sections p) (ir_Sections r))\<lparr>s_explicit := None\<rparr>"
  by (simp_all add: MergeWithDefault_def ApplyRule_def clonePolicy_def Let_def)

lemma missingPolicy_explicit: "missingPolicy (s\<lparr>s_explicit := e\<rparr>) = missingPolicy s"
  by (rule ext) (simp add: missingPolicy_def)

text \<open>C34: inheriting is per field.  Once a namespace document is merged with the default policy, what happens when an
  attestation is missing is what the namespace says if its document sets that field, be it to the
  empty value, and what the default policy says otherwise.\<close>

theorem namespace_overrides_default:
  assumes "document (pl_Sections ns)" and "s_explicit (pl_Sections ns) = Some paths"
    and "(name, ct) \<in> set AttestationSections"
  shows "MissingPolicyFor (MergeWithDefault pd ns d) ct =
    (if missing_path name \<in> paths then MissingPolicyFor ns ct else MissingPolicyFor d ct)"
proof -
  let ?s = "pl_Sections ns" and ?d = "pl_Sections d"
  have n: "name \<in> fst ` set AttestationSections" using assms(3) by force
  have doc: "if missing_path name \<in> paths then section_set ?s name else missingPolicy ?s name = []"
    using assms(1,2) n by (auto simp: document_def list_all_iff)
  have "missingPolicy (pl_Sections (MergeWithDefault pd ns d)) name = missingPolicy (mergeSections pd ?d ?s) name"
    by (simp only: merged_policy_sections missingPolicy_explicit)
  also have "\<dots> = (if missing_path name \<in> paths then missingPolicy ?s name else missingPolicy ?d name)"
    using doc missingPolicy_unset [OF _ n, of ?d]
    by (auto simp: missingPolicy_mergeSections [OF n] is_set_def assms(2) split: if_splits)
  finally show ?thesis
    unfolding MissingPolicyFor_def sectionForCheckType_attestation [OF assms(3)] option.case Let_def
    by (simp only: split: if_split) blast
qed

section \<open>Maximum ages\<close>

definition age_ok :: "(string \<Rightarrow> duration option) \<Rightarrow> string \<Rightarrow> duration \<Rightarrow> bool" where
  "age_ok pd raw dur = (if raw = [] then dur = 0 else pd raw = Some dur \<and> 0 < dur)"

definition option_all :: "('a \<Rightarrow> bool) \<Rightarrow> 'a option \<Rightarrow> bool" where
  "option_all P x = (case x of None \<Rightarrow> True | Some y \<Rightarrow> P y)"

lemma option_all_simps [simp]: "option_all P None" "option_all P (Some x) = P x"
  by (simp_all add: option_all_def)

text \<open>Every parsed maximum age agrees with its text.\<close>

definition ages_ok :: "(string \<Rightarrow> duration option) \<Rightarrow> Sections \<Rightarrow> bool" where
  "ages_ok pd s \<longleftrightarrow>
     option_all (\<lambda>x. age_ok pd (slsa_MaxAge x) (slsa_MaxAgeDuration x)) (s_SLSA s) \<and>
     option_all (\<lambda>x. age_ok pd (vsa_MaxAge x) (vsa_MaxAgeDuration x)) (s_VSA s) \<and>
     option_all (\<lambda>x. age_ok pd (src_MaxAge x) (src_MaxAgeDuration x)) (s_Source s) \<and>
     option_all (\<lambda>x. age_ok pd (vs_MaxAge x) (vs_MaxAgeDuration x)) (s_VulnScan s) \<and>
     option_all (\<lambda>x. age_ok pd (trp_MaxAge x) (trp_MaxAgeDuration x)) (s_TestResult s) \<and>
     option_all (\<lambda>x. age_ok pd (rt_MaxAge x) (rt_MaxAgeDuration x)) (s_RuntimeTrace s)"

text \<open>A maximum age field that the document does not set is empty.\<close>

definition ages_recorded :: "Sections \<Rightarrow> bool" where
  "ages_recorded s \<longleftrightarrow>
     (case s_explicit s of
        None \<Rightarrow> True
      | Some paths \<Rightarrow>
          option_all (\<lambda>x. ''slsa.maxAge'' \<in> paths \<or> slsa_MaxAge x = []) (s_SLSA s) \<and>
          option_all (\<lambda>x. ''vsa.maxAge'' \<in> paths \<or> vsa_MaxAge x = []) (s_VSA s) \<and>
          option_all (\<lambda>x. ''source.maxAge'' \<in> paths \<or> src_MaxAge x = []) (s_Source s) \<and>
          option_all (\<lambda>x. ''vulnScan.maxAge'' \<in> paths \<or> vs_MaxAge x = []) (s_VulnScan s) \<and>
          option_all (\<lambda>x. ''testResult.maxAge'' \<in> paths \<or> trp_MaxAge x = []) (s_TestResult s) \<and>
          option_all (\<lambda>x. ''runtimeTrace.maxAge'' \<in> paths \<or> rt_MaxAge x = []) (s_RuntimeTrace s))"

lemma age_ok_merged:
  assumes "age_ok pd dr dd" and "age_ok pd sr sd"
    and "case ex of None \<Rightarrow> True | Some paths \<Rightarrow> path \<in> paths \<or> sr = []"
  shows "age_ok pd (merge_scalar ex path [] dr sr)
    (merged_max_age pd ex path (merge_scalar ex path [] dr sr) (merge_derived 0 dd sd))"
  using assms by (cases ex) (auto simp: age_ok_def merged_max_age_def merge_scalar_def merge_derived_def)

lemma age_ok_copied: "age_ok pd r d \<Longrightarrow> age_ok pd r (merged_max_age pd ex path r d)"
  by (auto simp: age_ok_def merged_max_age_def)

lemma aged_merge:
  assumes "option_all (\<lambda>x. age_ok pd (raw x) (dur x)) d" and "option_all (\<lambda>x. age_ok pd (raw x) (dur x)) s"
    and "case ex of None \<Rightarrow> True | Some paths \<Rightarrow> option_all (\<lambda>x. path \<in> paths \<or> raw x = []) s"
    and "\<And>x v. raw (upd v x) = raw x" and "\<And>x v. dur (upd v x) = v"
    and "\<And>a b. raw (g a b) = merge_scalar ex path [] (raw a) (raw b)"
    and "\<And>a b. dur (g a b) = merge_derived 0 (dur a) (dur b)"
  shows "option_all (\<lambda>x. age_ok pd (raw x) (dur x))
    (map_option (\<lambda>x. upd (merged_max_age pd ex path (raw x) (dur x)) x) (merge_struct g d s))"
  using assms(1-3)
  by (cases s; cases d; cases ex) (auto simp: merge_struct_def assms(4-7) intro: age_ok_copied age_ok_merged)

lemma ages_ok_merge:
  assumes "ages_ok pd d" and "ages_ok pd s" and "ages_recorded s"
  shows "ages_ok pd (mergeSections pd d s)"
proof -
  have rec: "case s_explicit s of None \<Rightarrow> True | Some paths \<Rightarrow> option_all (\<lambda>x. ''slsa.maxAge'' \<in> paths \<or> slsa_MaxAge x = []) (s_SLSA s)"
    "case s_explicit s of None \<Rightarrow> True | Some paths \<Rightarrow> option_all (\<lambda>x. ''vsa.maxAge'' \<in> paths \<or> vsa_MaxAge x = []) (s_VSA s)"
    "case s_explicit s of None \<Rightarrow> True | Some paths \<Rightarrow> option_all (\<lambda>x. ''source.maxAge'' \<in> paths \<or> src_MaxAge x = []) (s_Source s)"
    "case s_explicit s of None \<Rightarrow> True | Some paths \<Rightarrow> option_all (\<lambda>x. ''vulnScan.maxAge'' \<in> paths \<or> vs_MaxAge x = []) (s_VulnScan s)"
    "case s_explicit s of None \<Rightarrow> True | Some paths \<Rightarrow> option_all (\<lambda>x. ''testResult.maxAge'' \<in> paths \<or> trp_MaxAge x = []) (s_TestResult s)"
    "case s_explicit s of None \<Rightarrow> True | Some paths \<Rightarrow> option_all (\<lambda>x. ''runtimeTrace.maxAge'' \<in> paths \<or> rt_MaxAge x = []) (s_RuntimeTrace s)"
    using assms(3) by (auto simp: ages_recorded_def split: option.splits)
  note ok = assms(1,2) [unfolded ages_ok_def]
  have a1: "option_all (\<lambda>x. age_ok pd (slsa_MaxAge x) (slsa_MaxAgeDuration x)) (s_SLSA (mergeSections pd d s))"
    unfolding merged_aged_sections using ok rec(1)
    by (intro aged_merge [where raw = slsa_MaxAge and dur = slsa_MaxAgeDuration
          and upd = "\<lambda>v. slsa_MaxAgeDuration_update (\<lambda>_. v)"]) (simp_all add: merge_slsa_def)
  have a2: "option_all (\<lambda>x. age_ok pd (vsa_MaxAge x) (vsa_MaxAgeDuration x)) (s_VSA (mergeSections pd d s))"
    unfolding merged_aged_sections using ok rec(2)
    by (intro aged_merge [where raw = vsa_MaxAge and dur = vsa_MaxAgeDuration
          and upd = "\<lambda>v. vsa_MaxAgeDuration_update (\<lambda>_. v)"]) (simp_all add: merge_vsa_def)
  have a3: "option_all (\<lambda>x. age_ok pd (src_MaxAge x) (src_MaxAgeDuration x)) (s_Source (mergeSections pd d s))"
    unfolding merged_aged_sections using ok rec(3)
    by (intro aged_merge [where raw = src_MaxAge and dur = src_MaxAgeDuration
          and upd = "\<lambda>v. src_MaxAgeDuration_update (\<lambda>_. v)"]) (simp_all add: merge_source_def)
  have a4: "option_all (\<lambda>x. age_ok pd (vs_MaxAge x) (vs_MaxAgeDuration x)) (s_VulnScan (mergeSections pd d s))"
    unfolding merged_aged_sections using ok rec(4)
    by (intro aged_merge [where raw = vs_MaxAge and dur = vs_MaxAgeDuration
          and upd = "\<lambda>v. vs_MaxAgeDuration_update (\<lambda>_. v)"]) (simp_all add: merge_vulnScan_def)
  have a5: "option_all (\<lambda>x. age_ok pd (trp_MaxAge x) (trp_MaxAgeDuration x)) (s_TestResult (mergeSections pd d s))"
    unfolding merged_aged_sections using ok rec(5)
    by (intro aged_merge [where raw = trp_MaxAge and dur = trp_MaxAgeDuration
          and upd = "\<lambda>v. trp_MaxAgeDuration_update (\<lambda>_. v)"]) (simp_all add: merge_testResult_def)
  have a6: "option_all (\<lambda>x. age_ok pd (rt_MaxAge x) (rt_MaxAgeDuration x)) (s_RuntimeTrace (mergeSections pd d s))"
    unfolding merged_aged_sections using ok rec(6)
    by (intro aged_merge [where raw = rt_MaxAge and dur = rt_MaxAgeDuration
          and upd = "\<lambda>v. rt_MaxAgeDuration_update (\<lambda>_. v)"]) (simp_all add: merge_runtimeTrace_def)
  show ?thesis unfolding ages_ok_def by (intro conjI a1 a2 a3 a4 a5 a6)
qed

text \<open>C35: a freshness bound never survives the text it came from.  When the default policy, a namespace document and an
  image rule each have parsed their maximum ages, the effective policy of the rule has, in every section, exactly the
  duration its text denotes, and no bound where the text was cleared.\<close>

theorem effective_ages_consistent:
  assumes "ages_ok pd (pl_Sections d)" and "ages_ok pd (pl_Sections ns)" and "ages_recorded (pl_Sections ns)"
    and "ages_ok pd (ir_Sections r)" and "ages_recorded (ir_Sections r)"
  shows "ages_ok pd (pl_Sections (ApplyRule pd (MergeWithDefault pd ns d) r))"
proof -
  have explicit: "ages_ok pd (s\<lparr>s_explicit := e\<rparr>) = ages_ok pd s" for s e by (simp add: ages_ok_def)
  show ?thesis
    by (simp add: ApplyRule_def MergeWithDefault_def clonePolicy_def Let_def explicit ages_ok_merge assms)
qed

section \<open>Modes and signers\<close>

lemma EffectiveMode_strict:
  "ValidateModeStrictness p global = [] \<longleftrightarrow> Strictness global \<le> Strictness (EffectiveMode p global)"
  by (auto simp: ValidateModeStrictness_def EffectiveMode_def)

lemma matchesSigner_bound:
  "verifier_MatchesSigner v keyPath issuer san \<Longrightarrow> verifier_Bound v"
  "builder_MatchesSigner b keyPath issuer san \<Longrightarrow> builder_Bound b"
  by (auto simp: verifier_MatchesSigner_def verifier_Bound_def builder_MatchesSigner_def builder_Bound_def
      matchesSigner_def matchesKey_def matchesIdentity_def)

lemma matchesSigner_anonymous: "\<not> matchesSigner keys identities [] issuer [] \<and> \<not> matchesSigner keys identities [] [] san"
  by (simp add: matchesSigner_def matchesKey_def matchesIdentity_def)

lemma ValidateEnforce_iff:
  "ValidateEnforce pd p = [] \<longleftrightarrow>
     enforceError (pl_Sections p) = [] \<and>
     (\<forall>r \<in> set (items (pl_Rules p)). enforceError (pl_Sections (ApplyRule pd p r)) = [])"
proof -
  have "rules_enforce_error pd p rs = [] \<longleftrightarrow> (\<forall>r \<in> set rs. enforceError (pl_Sections (ApplyRule pd p r)) = [])" for rs
    by (induction rs) (auto simp: Let_def)
  then show ?thesis by (simp add: ValidateEnforce_def Let_def)
qed

section \<open>Sample policies\<close>

definition no_sections :: Sections where
  "no_sections = \<lparr>s_Trust = None, s_SLSA = None, s_VEX = None, s_VSA = None, s_Signatures = None, s_Notation = None,
     s_CEL = None, s_SBOM = None, s_SCAI = None, s_Source = None, s_BuildEnv = None, s_VulnScan = None,
     s_TestResult = None, s_Release = None, s_RuntimeTrace = None, s_Scorecard = None, s_explicit = None\<rparr>"

definition plain_policy :: "Sections \<Rightarrow> Policy" where
  "plain_policy s = \<lparr>pl_Sections = s, pl_Version = 1, pl_Mode = [], pl_Inherits = None, pl_Include = None,
     pl_Exclude = None, pl_Rules = None, pl_CompiledCEL = None\<rparr>"

definition slsa_section :: "Action \<Rightarrow> string \<Rightarrow> duration \<Rightarrow> SLSAPolicy" where
  "slsa_section action age dur = \<lparr>slsa_MissingPolicy = action, slsa_RejectUnknownParameters = False,
     slsa_KnownParameters = None, slsa_MaxAge = age, slsa_MaxAgeDuration = dur\<rparr>"

text \<open>A default policy that denies images without provenance, a namespace that only bounds the age of
  provenance, one that also allows its absence, and a rule that clears the bound.\<close>

definition deny_default :: Policy where
  "deny_default = plain_policy (no_sections\<lparr>s_SLSA := Some (slsa_section ActionDeny [] 0),
     s_explicit := Some {''slsa'', ''slsa.missingPolicy''}\<rparr>)"

definition aged_namespace :: Policy where
  "aged_namespace = plain_policy (no_sections\<lparr>s_SLSA := Some (slsa_section [] ''1h'' (1 * hours)),
     s_explicit := Some {''slsa'', ''slsa.maxAge''}\<rparr>)"

definition lenient_namespace :: Policy where
  "lenient_namespace = plain_policy (no_sections\<lparr>s_SLSA := Some (slsa_section ActionAllow [] 0),
     s_explicit := Some {''slsa'', ''slsa.missingPolicy''}\<rparr>)"

definition ageless_rule :: ImageRule where
  "ageless_rule = \<lparr>ir_Sections = no_sections\<lparr>s_SLSA := Some (slsa_section [] [] 0),
     s_explicit := Some {''slsa'', ''slsa.maxAge''}\<rparr>, ir_Images = [''registry.example/**''], ir_CompiledCEL = None\<rparr>"

definition parse_1h :: "string \<Rightarrow> duration option" where
  "parse_1h s = (if s = ''1h'' then Some (1 * hours) else None)"

lemmas sample_policy_defs =
  no_sections_def plain_policy_def slsa_section_def deny_default_def aged_namespace_def lenient_namespace_def
  ageless_rule_def parse_1h_def

lemma sample_documents: "document (pl_Sections aged_namespace)" "document (pl_Sections lenient_namespace)"
  by code_simp+

theorem namespace_overrides_default_witness:
  "MissingPolicyFor (MergeWithDefault parse_1h aged_namespace deny_default) CheckTypeSLSA = ActionDeny \<and>
   MissingPolicyFor (MergeWithDefault parse_1h lenient_namespace deny_default) CheckTypeSLSA = ActionAllow"
proof -
  have "(''slsa'', CheckTypeSLSA) \<in> set AttestationSections" by code_simp
  note ov = namespace_overrides_default [OF _ _ this, where pd = parse_1h and d = deny_default]
  have "MissingPolicyFor deny_default CheckTypeSLSA = ActionDeny"
    and "MissingPolicyFor lenient_namespace CheckTypeSLSA = ActionAllow" by code_simp+
  moreover have "s_explicit (pl_Sections aged_namespace) = Some {''slsa'', ''slsa.maxAge''}"
    and "s_explicit (pl_Sections lenient_namespace) = Some {''slsa'', ''slsa.missingPolicy''}"
    by (simp_all add: sample_policy_defs)
  ultimately show ?thesis
    using ov [OF sample_documents(1)] ov [OF sample_documents(2)] by (simp add: missing_path_def)
qed

theorem effective_ages_consistent_witness:
  "ages_ok parse_1h (pl_Sections (ApplyRule parse_1h (MergeWithDefault parse_1h aged_namespace deny_default) ageless_rule)) \<and>
   map_option slsa_MaxAgeDuration
     (s_SLSA (pl_Sections (ApplyRule parse_1h (MergeWithDefault parse_1h aged_namespace deny_default) ageless_rule))) = Some 0"
proof
  show "ages_ok parse_1h (pl_Sections (ApplyRule parse_1h (MergeWithDefault parse_1h aged_namespace deny_default) ageless_rule))"
    by (rule effective_ages_consistent) code_simp+
  show "map_option slsa_MaxAgeDuration
     (s_SLSA (pl_Sections (ApplyRule parse_1h (MergeWithDefault parse_1h aged_namespace deny_default) ageless_rule))) = Some 0"
    by code_simp
qed

end
