(* ===== verification/Purl.thy ===== *)
theory Purl
  imports Result_Types
begin

text \<open>
  Package URLs (src/internal/purl).  The parser of the packageurl-go library is an argument: like the library function
  it returns the fields it assigned together with an error, if any.
\<close>

section \<open>String scanning\<close>

definition TrimLeftByte :: "string \<Rightarrow> char \<Rightarrow> string" where
  "TrimLeftByte s c = dropWhile (\<lambda>x. x = c) s"

definition TrimRightByte :: "string \<Rightarrow> char \<Rightarrow> string" where
  "TrimRightByte s c = rev (dropWhile (\<lambda>x. x = c) (rev s))"

fun IndexAny :: "string \<Rightarrow> string \<Rightarrow> nat option" where
  "IndexAny [] cs = None"
| "IndexAny (x # xs) cs = (if x \<in> set cs then Some 0 else map_option Suc (IndexAny xs cs))"

section \<open>Parsing\<close>

abbreviation purl_scheme :: string where "purl_scheme \<equiv> ''pkg:''"

text \<open>The result of the library's parser.\<close>

record PackageURL =
  lp_Type :: string
  lp_Namespace :: string
  lp_Name :: string
  lp_Version :: string
  lp_Qualifiers :: "(string \<times> string) list"
  lp_Subpath :: string

record PURL =
  pu_Type :: string
  pu_Namespace :: string
  pu_Name :: string
  pu_Version :: string
  pu_Qualifiers :: "string \<rightharpoonup> string"
  pu_Subpath :: string

definition stripPathSlashes :: "string \<Rightarrow> (string \<times> string) option" where
  "stripPathSlashes raw =
     (let rest = TrimLeftByte (drop (length purl_scheme) raw) (CHR ''/'');
          (rest, suff) = (case IndexAny rest ''?#'' of Some i \<Rightarrow> (take i rest, drop i rest) | None \<Rightarrow> (rest, []))
      in case Cut rest (CHR ''/'') of
           None \<Rightarrow> None
         | Some (typ, path) \<Rightarrow>
             if typ = [] then None
             else
               (let path = TrimLeftByte path (CHR ''/'');
                    path = (case LastIndexByte path (CHR ''@'') of
                              Some (Suc i) \<Rightarrow> TrimRightByte (take (Suc i) path) (CHR ''/'') @ drop (Suc i) path
                            | _ \<Rightarrow> TrimRightByte path (CHR ''/''))
                in if path = [] then None else Some (purl_scheme @ typ @ ''/'' @ path @ suff, typ)))"

definition qualifierMap :: "(string \<times> string) list \<Rightarrow> string \<rightharpoonup> string" where
  "qualifierMap qs = map_of (rev qs)"

definition purl_Parse ::
  "(string \<Rightarrow> PackageURL \<times> bool) \<Rightarrow> (string \<Rightarrow> bool) \<Rightarrow> string \<Rightarrow> PURL option" where
  "purl_Parse FromString TypePattern raw =
     (if length raw < length purl_scheme \<or> \<not> EqualFold (take (length purl_scheme) raw) purl_scheme then None
      else
        (case stripPathSlashes raw of
           None \<Rightarrow> None
         | Some (canonical, typ) \<Rightarrow>
             (let (parsed, failed) = FromString canonical in
              if failed \<and>
                 (snd (FromString (purl_scheme @ ''generic'' @ drop (length purl_scheme + length typ) canonical)) \<or>
                  \<not> TypePattern typ)
              then None
              else if lp_Type parsed = [] \<or> lp_Name parsed = [] then None
              else Some \<lparr>pu_Type = lp_Type parsed, pu_Namespace = lp_Namespace parsed, pu_Name = lp_Name parsed,
                     pu_Version = lp_Version parsed, pu_Qualifiers = qualifierMap (lp_Qualifiers parsed),
                     pu_Subpath = lp_Subpath parsed\<rparr>)))"

section \<open>Identity\<close>

definition is_pypi_separator :: "char \<Rightarrow> bool" where
  "is_pypi_separator c = (c = CHR ''-'' \<or> c = CHR ''_'' \<or> c = CHR ''.'')"

text \<open>The loop of \<open>NormalizeName\<close>: the characters written so far and whether a separator was seen since the last one.\<close>

fun normalize_loop :: "string \<Rightarrow> bool \<Rightarrow> string \<Rightarrow> string" where
  "normalize_loop built separator [] = built"
| "normalize_loop built separator (c # cs) =
     (if is_pypi_separator c then normalize_loop built True cs
      else normalize_loop ((if separator \<and> built \<noteq> [] then built @ ''-'' else built) @ [c]) False cs)"

definition NormalizeName :: "string \<Rightarrow> string \<Rightarrow> string" where
  "NormalizeName typ name = (if \<not> EqualFold typ ''pypi'' then name else normalize_loop [] False (ToLower name))"

definition purl_Key :: "PURL \<Rightarrow> string" where
  "purl_Key p = ToLower (pu_Type p @ ''/'' @ pu_Namespace p @ ''/'' @ NormalizeName (pu_Type p) (pu_Name p))"

section \<open>Upstream packages\<close>

record Upstream =
  up_Name :: string
  up_Version :: string

abbreviation rpmNameVersionReleaseParts :: nat where "rpmNameVersionReleaseParts \<equiv> 3"

definition purl_Upstream :: "PURL \<Rightarrow> Upstream \<times> bool" where
  "purl_Upstream p =
     (let val = TrimSpace (case pu_Qualifiers p ''upstream'' of None \<Rightarrow> [] | Some v \<Rightarrow> v) in
      if val = [] then (\<lparr>up_Name = [], up_Version = []\<rparr>, False)
      else if HasSuffix val ''.rpm'' then
        (let trimmed = TrimSuffix (TrimSuffix val ''.rpm'') ''.src'';
             parts = Split trimmed (CHR ''-'');
             n = length parts;
             up = (if n \<ge> rpmNameVersionReleaseParts
                   then \<lparr>up_Name = Join (take (n - 2) parts) ''-'', up_Version = parts ! (n - 2) @ ''-'' @ parts ! (n - 1)\<rparr>
                   else \<lparr>up_Name = val, up_Version = pu_Version p\<rparr>)
         in (up, up_Name up \<noteq> []))
      else
        (let up = (case Cut val (CHR ''@'') of
                     Some (name, version) \<Rightarrow> \<lparr>up_Name = name, up_Version = version\<rparr>
                   | None \<Rightarrow> \<lparr>up_Name = val, up_Version = pu_Version p\<rparr>)
         in (up, up_Name up \<noteq> [])))"

definition UpstreamKey :: "PURL \<Rightarrow> string \<times> string" where
  "UpstreamKey p =
     (let (up, ok) = purl_Upstream p in
      if \<not> ok then ([], [])
      else
        (let source = \<lparr>pu_Type = pu_Type p, pu_Namespace = pu_Namespace p, pu_Name = up_Name up,
                       pu_Version = up_Version up, pu_Qualifiers = Map.empty, pu_Subpath = []\<rparr>;
             key = purl_Key source
         in if key = purl_Key p then ([], []) else (key, up_Version up)))"

definition StripQualifiers :: "string \<Rightarrow> string" where
  "StripQualifiers raw = (case IndexAny raw ''?#'' of Some i \<Rightarrow> take i raw | None \<Rightarrow> raw)"

section \<open>Lenient decoding\<close>

definition hex_digit :: "char \<Rightarrow> nat option" where
  "hex_digit c =
     (let n = of_char c :: nat in
      if 48 \<le> n \<and> n \<le> 57 then Some (n - 48)
      else if 97 \<le> n \<and> n \<le> 102 then Some (n - 87)
      else if 65 \<le> n \<and> n \<le> 70 then Some (n - 55) else None)"

text \<open>\<open>strconv.ParseUint\<close> of two bytes in base 16.\<close>

definition parse_hex2 :: "char \<Rightarrow> char \<Rightarrow> char option" where
  "parse_hex2 a b =
     (case (hex_digit a, hex_digit b) of (Some x, Some y) \<Rightarrow> Some (char_of (16 * x + y)) | _ \<Rightarrow> None)"

fun lenient_loop :: "string \<Rightarrow> string" where
  "lenient_loop (c # a # b # rest) =
     (if c = CHR ''%'' then
        (case parse_hex2 a b of
           Some d \<Rightarrow> d # lenient_loop rest
         | None \<Rightarrow> c # lenient_loop (a # b # rest))
      else c # lenient_loop (a # b # rest))"
| "lenient_loop s = s"

definition LenientUnescape :: "string \<Rightarrow> string" where
  "LenientUnescape v = (if CHR ''%'' \<notin> set v then v else lenient_loop v)"

section \<open>PyPI names\<close>

text \<open>The reference for \<open>NormalizeName\<close> (PEP 503): the maximal runs without separators, joined by single dashes.\<close>

function pypi_words :: "string \<Rightarrow> string list" where
  "pypi_words [] = []"
| "pypi_words (c # cs) =
     (if is_pypi_separator c then pypi_words cs
      else (c # takeWhile (\<lambda>x. \<not> is_pypi_separator x) cs) # pypi_words (dropWhile (\<lambda>x. \<not> is_pypi_separator x) cs))"
  by pat_completeness auto
termination
  by (relation "measure length") (auto simp: le_imp_less_Suc length_dropWhile_le)

lemma normalize_run:
  "\<forall>c \<in> set w. \<not> is_pypi_separator c \<Longrightarrow> normalize_loop b False (w @ s) = normalize_loop (b @ w) False s"
  by (induction w arbitrary: b) simp_all

lemma normalize_boundary:
  "(s = [] \<or> is_pypi_separator (hd s)) \<Longrightarrow> normalize_loop b False s = normalize_loop b True s"
  by (cases s) simp_all

lemma Join_append_hd: "Join ((x @ y) # ws) sep = x @ Join (y # ws) sep"
  by (cases ws) simp_all

lemma normalize_words:
  "normalize_loop b True s = (if b = [] then Join (pypi_words s) ''-'' else Join (b # pypi_words s) ''-'')"
proof (induction s arbitrary: b rule: pypi_words.induct)
  case 1
  then show ?case by simp
next
  case (2 c cs)
  let ?w = "takeWhile (\<lambda>x. \<not> is_pypi_separator x) cs" and ?r = "dropWhile (\<lambda>x. \<not> is_pypi_separator x) cs"
  show ?case
  proof (cases "is_pypi_separator c")
    case True
    then show ?thesis using 2(1) by simp
  next
    case False
    define b' where "b' = (if b \<noteq> [] then b @ ''-'' else b) @ [c]"
    have "normalize_loop b True (c # cs) = normalize_loop b' False (?w @ ?r)"
      using False by (simp add: b'_def)
    also have "\<dots> = normalize_loop (b' @ ?w) False ?r" by (rule normalize_run) (auto dest: set_takeWhileD)
    also have "\<dots> = normalize_loop (b' @ ?w) True ?r"
      by (rule normalize_boundary) (use hd_dropWhile in blast)
    also have "\<dots> = Join ((b' @ ?w) # pypi_words ?r) ''-''" using 2(2) [OF False] by (simp add: b'_def)
    finally show ?thesis
      using False Join_append_hd [of "b @ ''-''" "c # ?w" "pypi_words ?r"] by (auto simp: b'_def)
  qed
qed

lemma normalize_start: "normalize_loop [] False s = normalize_loop [] True s"
  by (cases s) simp_all

lemma NormalizeName_pep503:
  "EqualFold typ ''pypi'' \<Longrightarrow> NormalizeName typ name = Join (pypi_words (ToLower name)) ''-''"
  by (simp add: NormalizeName_def normalize_start normalize_words)

lemma UpstreamKey_foreign: "fst (UpstreamKey p) \<noteq> [] \<Longrightarrow> fst (UpstreamKey p) \<noteq> purl_Key p"
  by (auto simp: UpstreamKey_def Let_def split: prod.splits if_splits)

lemma IndexAny_None_iff: "IndexAny s cs = None \<longleftrightarrow> set s \<inter> set cs = {}"
  by (induction s) auto

lemma IndexAny_take: "IndexAny s cs = Some i \<Longrightarrow> IndexAny (take i s) cs = None"
  by (induction s arbitrary: i) (auto split: if_splits)

lemma StripQualifiers_idem: "StripQualifiers (StripQualifiers raw) = StripQualifiers raw"
  by (auto simp: StripQualifiers_def IndexAny_take split: option.splits)

end
