(* ===== verification/Policy_Validate.thy ===== *)
theory Policy_Validate
  imports Policy Purl
begin

text \<open>
  Validation of policies (src/internal/policy: policy_validate.go, policy_validate_sections.go,
  policy_validate_notation.go and validateSections of sections.go).

  An error is the list of the sentinel names it joins, so that nil is the empty list; a duration that does not parse
  has no sentinel and is called ErrInvalidDuration.  Validation also stores what it parses:
  the maximum ages, the time bounds of verifier keys and the compiled CEL rules.  The parsers it calls are the fields of
  \<open>parsers\<close>: durations, RFC 3339 times (both of the standard library), package URLs (theory Purl applied to the library
  parser) and the CEL compiler.  Log messages are left out.
\<close>

record parsers =
  ps_duration :: "string \<Rightarrow> duration option"
  ps_rfc3339 :: "string \<Rightarrow> time option"
  ps_purl :: "string \<Rightarrow> PURL option"
  ps_cel :: "CELRule list \<Rightarrow> bool"

text \<open>The zero \<open>time.Time\<close>, 1 January of the year 1, relative to the Unix epoch.\<close>

definition zero_time :: time where
  "zero_time = -62135596800 * seconds"

section \<open>Field checks\<close>

definition validateNonEmpty :: "string list \<Rightarrow> config_error list" where
  "validateNonEmpty vals = map (\<lambda>_. ''ErrEmptyValue'') (filter (\<lambda>v. v = []) vals)"

text \<open>\<open>glob.ValidateField\<close>: \<open>Validate\<close> and a log message.\<close>

definition ValidateField :: "string \<Rightarrow> config_error list" where
  "ValidateField pattern = (if Validate pattern \<noteq> None then [''ErrInvalidCharClass''] else [])"

definition validateGlobPatterns :: "string list \<Rightarrow> config_error list" where
  "validateGlobPatterns patterns = concat (map ValidateField patterns)"

definition validatePatterns :: "string list \<Rightarrow> config_error list" where
  "validatePatterns patterns = validateNonEmpty patterns @ validateGlobPatterns patterns"

section \<open>Trust\<close>

definition maxSLSALevel :: int where "maxSLSALevel = 3"
definition LatestPolicyVersion :: int where "LatestPolicyVersion = 1"

text \<open>The loop of \<open>validateKeyPaths\<close> over the keys, with the cleaned paths seen so far.\<close>

fun key_path_errors :: "config_error \<Rightarrow> config_error \<Rightarrow> string set \<Rightarrow> string list \<Rightarrow> config_error list" where
  "key_path_errors errNotAbsolute errDuplicate seen [] = []"
| "key_path_errors errNotAbsolute errDuplicate seen (key # keys) =
     (if key = [] then ''ErrEmptyValue'' # key_path_errors errNotAbsolute errDuplicate seen keys
      else
        (let cleaned = filepath_Clean key in
         if cleaned \<in> seen then errDuplicate # key_path_errors errNotAbsolute errDuplicate seen keys
         else (if \<not> filepath_IsAbs key then [errNotAbsolute] else []) @
              key_path_errors errNotAbsolute errDuplicate (insert cleaned seen) keys))"

definition validateKeyPaths :: "string list \<Rightarrow> config_error \<Rightarrow> config_error \<Rightarrow> config_error list" where
  "validateKeyPaths keys errNotAbsolute errDuplicate = key_path_errors errNotAbsolute errDuplicate {} keys"

definition identity_errors :: "TrustedIdentity \<Rightarrow> config_error list" where
  "identity_errors ident =
     (if ti_Issuer ident = [] then [''ErrIdentityIssuerRequired''] else []) @
     (if ti_SANPattern ident = [] then [''ErrIdentitySANPatternRequired'']
      else validateGlobPatterns [ti_SANPattern ident])"

definition validateIdentities :: "TrustedIdentity list \<Rightarrow> config_error list" where
  "validateIdentities identities = concat (map identity_errors identities)"

fun builder_errors :: "string set \<Rightarrow> TrustedBuilder list \<Rightarrow> config_error list" where
  "builder_errors seen [] = []"
| "builder_errors seen (b # bs) =
     (if tb_ID b = [] then ''ErrBuilderIDRequired'' # builder_errors seen bs
      else if tb_ID b \<in> seen then ''ErrDuplicateBuilderID'' # builder_errors seen bs
      else (if tb_MaxLevel b < 0 \<or> tb_MaxLevel b > maxSLSALevel then [''ErrBuilderMaxLevel''] else []) @
           validateKeyPaths (tb_Keys b) ''ErrBuilderKeyNotAbsolute'' ''ErrDuplicateBuilderKey'' @
           validateIdentities (tb_Identities b) @
           builder_errors (insert (tb_ID b) seen) bs)"

definition validateBuilders :: "TrustPolicy \<Rightarrow> config_error list" where
  "validateBuilders t = builder_errors {} (items (tp_Builders t))"

definition validateTrustStringFields :: "TrustPolicy \<Rightarrow> config_error list" where
  "validateTrustStringFields t =
     validateNonEmpty (items (tp_Issuers t)) @ validatePatterns (items (tp_Sources t)) @
     validateNonEmpty (items (tp_BuildTypes t)) @ validatePatterns (items (tp_SANPatterns t))"

text \<open>The parsed bounds are stored; the order of the bounds is only checked when both texts parse.\<close>

definition validateVerifierTimeBounds :: "parsers \<Rightarrow> TrustedVerifier \<Rightarrow> TrustedVerifier \<times> config_error list" where
  "validateVerifierTimeBounds ps v =
     (let (v, errs1) =
            (if tv_NotBefore v \<noteq> [] then
               (case ps_rfc3339 ps (tv_NotBefore v) of
                  None \<Rightarrow> (v, [''ErrInvalidNotBefore''])
                | Some t \<Rightarrow> (v\<lparr>tv_NotBeforeTime := t\<rparr>, []))
             else (v, []));
          (v, errs2) =
            (if tv_NotAfter v \<noteq> [] then
               (case ps_rfc3339 ps (tv_NotAfter v) of
                  None \<Rightarrow> (v, [''ErrInvalidNotAfter''])
                | Some t \<Rightarrow> (v\<lparr>tv_NotAfterTime := t\<rparr>, []))
             else (v, []))
      in if errs1 @ errs2 \<noteq> [] then (v, errs1 @ errs2)
         else (v, if tv_NotBeforeTime v \<noteq> zero_time \<and> tv_NotAfterTime v \<noteq> zero_time \<and>
                     \<not> tv_NotAfterTime v > tv_NotBeforeTime v
                  then [''ErrNotAfterBeforeNotBefore''] else []))"

definition validateVerifierKeys :: "parsers \<Rightarrow> TrustedVerifier \<Rightarrow> TrustedVerifier \<times> config_error list" where
  "validateVerifierKeys ps v =
     (if tv_Keys v = [] then
        (v, if tv_NotBefore v \<noteq> [] \<or> tv_NotAfter v \<noteq> [] then [''ErrTimeBoundsWithoutKeys''] else [])
      else
        (let errs1 = validateKeyPaths (tv_Keys v) ''ErrVerifierKeyNotAbsolute'' ''ErrDuplicateVerifierKey'';
             (v, errs2) = validateVerifierTimeBounds ps v
         in (v, errs1 @ errs2)))"

fun verifier_errors ::
  "parsers \<Rightarrow> string set \<Rightarrow> TrustedVerifier list \<Rightarrow> TrustedVerifier list \<times> config_error list" where
  "verifier_errors ps seen [] = ([], [])"
| "verifier_errors ps seen (v # vs) =
     (if tv_ID v = [] then
        (let (vs, errs) = verifier_errors ps seen vs in (v # vs, ''ErrVerifierIDRequired'' # errs))
      else if tv_ID v \<in> seen then
        (let (vs, errs) = verifier_errors ps seen vs in (v # vs, ''ErrDuplicateVerifierID'' # errs))
      else
        (let (v, errs1) = validateVerifierKeys ps v;
             errs2 = validateIdentities (tv_Identities v);
             (vs, errs) = verifier_errors ps (insert (tv_ID v) seen) vs
         in (v # vs, errs1 @ errs2 @ errs)))"

definition validateVerifiers :: "parsers \<Rightarrow> TrustPolicy \<Rightarrow> TrustPolicy \<times> config_error list" where
  "validateVerifiers ps t =
     (let (vs, errs) = verifier_errors ps {} (items (tp_Verifiers t))
      in (t\<lparr>tp_Verifiers := map_option (\<lambda>_. vs) (tp_Verifiers t)\<rparr>, errs))"

definition validateTrust :: "parsers \<Rightarrow> TrustPolicy \<Rightarrow> TrustPolicy \<times> config_error list" where
  "validateTrust ps t =
     (let (t', errs) = validateVerifiers ps t
      in (t', validateBuilders t @ validateTrustStringFields t @ errs))"

text \<open>\<open>verifierKeyOwners\<close>: the first verifier using each cleaned key path, and an error for each key used by a verifier with
  another ID.\<close>

fun key_owners_verifier ::
  "string \<Rightarrow> string list \<Rightarrow> (string \<rightharpoonup> string) \<times> config_error list \<Rightarrow> (string \<rightharpoonup> string) \<times> config_error list" where
  "key_owners_verifier vid [] acc = acc"
| "key_owners_verifier vid (key # keys) (owners, errs) =
     (if key = [] \<or> vid = [] then key_owners_verifier vid keys (owners, errs)
      else
        (let cleaned = filepath_Clean key in
         case owners cleaned of
           None \<Rightarrow> key_owners_verifier vid keys (owners(cleaned \<mapsto> vid), errs)
         | Some firstID \<Rightarrow>
             key_owners_verifier vid keys
               (owners, if firstID \<noteq> vid then errs @ [''ErrDuplicateKeyAcrossVerifiers''] else errs)))"

definition verifierKeyOwners :: "TrustedVerifier list \<Rightarrow> (string \<rightharpoonup> string) \<times> config_error list" where
  "verifierKeyOwners vs = fold (\<lambda>v. key_owners_verifier (tv_ID v) (tv_Keys v)) vs (Map.empty, [])"

definition validateNoDuplicateKeys :: "TrustPolicy \<Rightarrow> config_error list" where
  "validateNoDuplicateKeys t =
     (let (owners, errs) = verifierKeyOwners (items (tp_Verifiers t))
      in errs @ concat (map (\<lambda>b. concat (map (\<lambda>key.
           if key \<noteq> [] \<and> owners (filepath_Clean key) \<noteq> None then [''ErrDuplicateKeyAcrossVerifiers''] else []) (tb_Keys b)))
           (items (tp_Builders t))))"

definition keylessVerifierErrors :: "TrustPolicy option \<Rightarrow> config_error list" where
  "keylessVerifierErrors trust =
     (case trust of
        None \<Rightarrow> []
      | Some t \<Rightarrow>
          if items (tp_Issuers t) \<noteq> [] then []
          else map (\<lambda>_. ''ErrKeylessVerifierRequiresIssuers'')
                 (filter (\<lambda>v. tv_ID v \<noteq> [] \<and> tv_Keys v = []) (items (tp_Verifiers t))))"

definition validateKeylessVerifiers :: "parsers \<Rightarrow> Policy \<Rightarrow> config_error list" where
  "validateKeylessVerifiers ps p =
     keylessVerifierErrors (s_Trust (pl_Sections p)) @
     concat (map (\<lambda>r. if s_Trust (ir_Sections r) = None then []
                      else keylessVerifierErrors (s_Trust (pl_Sections (ApplyRule (ps_duration ps) p r))))
       (items (pl_Rules p)))"

section \<open>Notation\<close>

definition validateNotationLevels :: "NotationPolicy \<Rightarrow> config_error list" where
  "validateNotationLevels n =
     (let level = not_VerificationLevel n; mode = not_RevocationMode n in
      (if level \<noteq> [] then
         (if level \<in> {''strict'', notationLevelPermissive, notationLevelAudit} then []
          else if level = notationLevelSkip then [''ErrNotationSkipUnsupported'']
          else [''ErrNotationVerificationLevelInvalid''])
       else []) @
      (if mode \<noteq> [] \<and> mode \<notin> {''strict'', ''soft'', ''skip''} then [''ErrNotationRevocationModeInvalid''] else []))"

definition validateNotationStoreCerts :: "NotationTrustStore \<Rightarrow> config_error list" where
  "validateNotationStoreCerts store = concat (map (\<lambda>cert.
     if cert = [] then [''ErrEmptyValue'']
     else if \<not> filepath_IsAbs cert then [''ErrNotationCertNotAbsolute''] else []) (nts_Certificates store))"

fun trust_store_errors :: "string set \<Rightarrow> NotationTrustStore list \<Rightarrow> config_error list" where
  "trust_store_errors seen [] = []"
| "trust_store_errors seen (st # sts) =
     (if nts_Name st = [] then ''ErrNotationTrustStoreNameRequired'' # trust_store_errors seen sts
      else if nts_Name st \<in> seen then ''ErrDuplicateNotationTrustStoreName'' # trust_store_errors seen sts
      else (if nts_Type st \<noteq> ''ca'' \<and> nts_Type st \<noteq> ''signingAuthority'' then [''ErrNotationTrustStoreTypeInvalid''] else []) @
           (if nts_Certificates st = [] then [''ErrNotationTrustStoreCertsRequired''] else []) @
           validateNotationStoreCerts st @
           trust_store_errors (insert (nts_Name st) seen) sts)"

definition validateNotationTrustStores :: "NotationTrustStore list \<Rightarrow> config_error list" where
  "validateNotationTrustStores stores = trust_store_errors {} stores"

definition validateNotationTrustPolicyFields :: "NotationTrustPolicyRule \<Rightarrow> config_error list" where
  "validateNotationTrustPolicyFields r =
     validateNonEmpty (ntp_RegistryScopes r) @ validateNonEmpty (ntp_TrustStores r) @
     validateNonEmpty (ntp_TrustedIdentities r)"

definition validateSingleNotationTrustPolicy ::
  "NotationTrustPolicyRule \<Rightarrow> string set \<Rightarrow> string set \<times> config_error list" where
  "validateSingleNotationTrustPolicy r seen =
     (if ntp_Name r = [] then (seen, [''ErrNotationTrustPolicyNameRequired''])
      else if ntp_Name r \<in> seen then (seen, [''ErrDuplicateNotationTrustPolicyName''])
      else (insert (ntp_Name r) seen,
        (if ntp_RegistryScopes r = [] then [''ErrNotationTrustPolicyScopesRequired''] else []) @
        (if ntp_TrustStores r = [] then [''ErrNotationTrustPolicyStoresRequired''] else []) @
        (if ntp_TrustedIdentities r = [] then [''ErrNotationTrustPolicyIdentitiesRequired''] else []) @
        validateNotationTrustPolicyFields r))"

definition validateNotationTrustPolicy :: "NotationTrustPolicyRule list \<Rightarrow> config_error list" where
  "validateNotationTrustPolicy rules =
     snd (fold (\<lambda>r (seen, errs). let (seen, new) = validateSingleNotationTrustPolicy r seen in (seen, errs @ new))
            rules ({}, []))"

definition validateNotation :: "NotationPolicy \<Rightarrow> config_error list" where
  "validateNotation n =
     validateNotationLevels n @ validateNotationTrustStores (items (not_TrustStores n)) @
     validateNotationTrustPolicy (items (not_TrustPolicy n))"

text \<open>The first store of a name decides its type; \<open>strings.Cut\<close> without a separator leaves the name empty.\<close>

definition notationStoreRefErrors :: "NotationPolicy option \<Rightarrow> config_error list" where
  "notationStoreRefErrors notation_policy =
     (case notation_policy of
        None \<Rightarrow> []
      | Some n \<Rightarrow>
          (let storeTypes = map_of (map (\<lambda>st. (nts_Name st, nts_Type st)) (items (not_TrustStores n)))
           in concat (map (\<lambda>r. concat (map (\<lambda>ref.
                if ref = [] then []
                else
                  (let (storeType, name) = (case Cut ref (CHR '':'') of Some p \<Rightarrow> p | None \<Rightarrow> (ref, [])) in
                   if storeTypes name = Some storeType then [] else [''ErrNotationTrustStoreUndefined'']))
                (ntp_TrustStores r))) (items (not_TrustPolicy n)))))"

definition validateNotationStoreRefs :: "parsers \<Rightarrow> Policy \<Rightarrow> config_error list" where
  "validateNotationStoreRefs ps p =
     notationStoreRefErrors (s_Notation (pl_Sections p)) @
     concat (map (\<lambda>r. if s_Notation (ir_Sections r) = None then []
                      else notationStoreRefErrors (s_Notation (pl_Sections (ApplyRule (ps_duration ps) p r))))
       (items (pl_Rules p)))"

section \<open>Sections\<close>

definition validateSBOMFormats :: "string list \<Rightarrow> config_error list" where
  "validateSBOMFormats formats = concat (map (\<lambda>f.
     if ToLower f \<in> {''spdx'', ''cyclonedx''} then [] else [''ErrInvalidSBOMFormat'']) formats)"

definition isComponentTypeEntry :: "string \<Rightarrow> bool" where
  "isComponentTypeEntry entry =
     (if length entry \<le> length purl_scheme \<or> \<not> EqualFold (take (length purl_scheme) entry) purl_scheme then False
      else
        (let typ = TrimSuffix (TrimLeftByte (drop (length purl_scheme) entry) (CHR ''/'')) ''/''
         in typ \<noteq> [] \<and> IndexAny typ ''/@?#'' = None))"

definition validateComponentPURLs :: "parsers \<Rightarrow> string list \<Rightarrow> config_error list" where
  "validateComponentPURLs ps components = concat (map (\<lambda>comp.
     if comp = [] then [''ErrEmptyValue'']
     else if isComponentTypeEntry comp then []
     else if ps_purl ps comp = None then [''ErrInvalidComponentPURL''] else []) components)"

definition isValidSeverity :: "string \<Rightarrow> bool" where
  "isValidSeverity severity = (ToLower severity \<in> {''low'', ''medium'', ''high'', ''critical''})"

definition validateSeverityThresholds ::
  "float64 option \<Rightarrow> string \<Rightarrow> string list \<Rightarrow> config_error \<Rightarrow> config_error \<Rightarrow> config_error list" where
  "validateSeverityThresholds maxScore minSeverity ignoreCVEs errMaxScore errMinSeverity =
     (case maxScore of
        Some m \<Rightarrow> if flt_less m (Fin 0) \<or> flt_less (Fin 10) m then [errMaxScore] else []
      | None \<Rightarrow> []) @
     (if minSeverity \<noteq> [] \<and> \<not> isValidSeverity minSeverity then [errMinSeverity] else []) @
     validateNonEmpty ignoreCVEs"

definition validateCVSSPolicy :: "SBOMCVSSPolicy \<Rightarrow> config_error list" where
  "validateCVSSPolicy c =
     validateSeverityThresholds (cvss_MaxScore c) (cvss_MinSeverity c) (items (cvss_IgnoreCVEs c))
       ''ErrCVSSMaxScoreRange'' ''ErrCVSSMinSeverityInvalid''"

definition validateDriftPolicy :: "SBOMDriftPolicy \<Rightarrow> config_error list" where
  "validateDriftPolicy d = map (\<lambda>_. ''ErrDriftThresholdNegative'') (filter id
     [(case dft_MaxAdded d of Some n \<Rightarrow> n < 0 | None \<Rightarrow> False),
      (case dft_MaxRemoved d of Some n \<Rightarrow> n < 0 | None \<Rightarrow> False),
      (case dft_MaxModified d of Some n \<Rightarrow> n < 0 | None \<Rightarrow> False),
      (case dft_MaxScore d of Some x \<Rightarrow> flt_less x (Fin 0) | None \<Rightarrow> False)])"

definition validateSLSA :: "SLSAPolicy \<Rightarrow> config_error list" where
  "validateSLSA x = validateNonEmpty (items (slsa_KnownParameters x))"

definition validateVEX :: "VEXPolicy \<Rightarrow> config_error list" where
  "validateVEX x =
     (if vex_UnderInvestigationPolicy x = [] then []
      else if ValidateAction ''vex.underInvestigationPolicy'' (vex_UnderInvestigationPolicy x) \<noteq> None
      then [''ErrInvalidAction''] else [])"

definition validateVSA :: "VSAPolicy \<Rightarrow> config_error list" where
  "validateVSA x = (if vsa_MinimumLevel x < 0 \<or> vsa_MinimumLevel x > maxSLSALevel then [''ErrVSAMinimumLevel''] else [])"

definition validateSBOM :: "parsers \<Rightarrow> SBOMPolicy \<Rightarrow> config_error list" where
  "validateSBOM ps x =
     validateSBOMFormats (items (sbom_Formats x)) @
     (case sbom_License x of
        Some l \<Rightarrow> validateNonEmpty (items (lic_Deny l)) @ validateNonEmpty (items (lic_Allow l))
      | None \<Rightarrow> []) @
     (case sbom_Component x of
        Some c \<Rightarrow> validateComponentPURLs ps (items (cmp_Deny c)) @ validateComponentPURLs ps (items (cmp_Allow c))
      | None \<Rightarrow> []) @
     (case sbom_CVSS x of Some c \<Rightarrow> validateCVSSPolicy c | None \<Rightarrow> []) @
     (case sbom_Drift x of Some d \<Rightarrow> validateDriftPolicy d | None \<Rightarrow> [])"

definition validateSCAI :: "SCAIPolicy \<Rightarrow> config_error list" where
  "validateSCAI x =
     validateNonEmpty (items (scai_RequiredAttributes x)) @ validateNonEmpty (items (scai_ForbiddenAttributes x))"

definition validateSource :: "SourcePolicy \<Rightarrow> config_error list" where
  "validateSource x = (if src_MinimumLevel x < 0 \<or> src_MinimumLevel x > maxSLSALevel then [''ErrInvalidSourceLevel''] else [])"

definition validateBuildEnv :: "BuildEnvPolicy \<Rightarrow> config_error list" where
  "validateBuildEnv x =
     validateNonEmpty (items (be_RequiredProperties x)) @ validateNonEmpty (items (be_ForbiddenProperties x))"

definition validateVulnScan :: "VulnScanPolicy \<Rightarrow> config_error list" where
  "validateVulnScan x =
     validateSeverityThresholds (vs_MaxScore x) (vs_MinSeverity x) (items (vs_IgnoreCVEs x))
       ''ErrVulnScanMaxScoreRange'' ''ErrVulnScanMinSeverityInvalid''"

definition validateTestResult :: "TestResultPolicy \<Rightarrow> config_error list" where
  "validateTestResult x = validateNonEmpty (items (trp_RequiredSuites x))"

definition validateRelease :: "ReleasePolicy \<Rightarrow> config_error list" where
  "validateRelease x = validatePatterns (items (rel_TrustedRegistries x))"

definition validateRuntimeTrace :: "RuntimeTracePolicy \<Rightarrow> config_error list" where
  "validateRuntimeTrace x =
     validatePatterns (items (rt_TrustedMonitors x)) @ validatePatterns (items (rt_ForbiddenFilePatterns x))"

text \<open>The checks of a scorecard section are a map; \<open>names\<close> enumerates its keys in iteration order.\<close>

definition validateScorecard :: "string list \<Rightarrow> ScorecardPolicy \<Rightarrow> config_error list" where
  "validateScorecard names x =
     (case sc_MinScore x of
        Some m \<Rightarrow> if flt_less m (Fin 0) \<or> flt_less (Fin 10) m then [''ErrScorecardMinScoreRange''] else []
      | None \<Rightarrow> []) @
     concat (map (\<lambda>name. case (case sc_Checks x of None \<Rightarrow> None | Some m \<Rightarrow> m name) of
        None \<Rightarrow> []
      | Some score \<Rightarrow>
          (if name = [] then [''ErrEmptyValue''] else []) @
          (if score < 0 \<or> score > 10 then [''ErrScorecardCheckScoreRange''] else [])) names)"

text \<open>The checks every section shares: its action for missing attestations and its maximum age.\<close>

definition missing_errors :: "Sections \<Rightarrow> string \<Rightarrow> config_error list" where
  "missing_errors s name =
     (let action = missingPolicy s name in
      if action \<noteq> [] \<and> ValidateAction (name @ ''.missingPolicy'') action \<noteq> None then [''ErrInvalidAction''] else [])"

definition resolveMaxAge :: "parsers \<Rightarrow> config_error \<Rightarrow> string \<Rightarrow> duration \<Rightarrow> duration \<times> config_error list" where
  "resolveMaxAge ps errNotPositive raw dur =
     (if raw = [] then (dur, [])
      else (case ps_duration ps raw of
              None \<Rightarrow> (dur, [''ErrInvalidDuration''])
            | Some maxAge \<Rightarrow> if maxAge \<le> 0 then (dur, [errNotPositive]) else (maxAge, [])))"

text \<open>One step of \<open>validateSections\<close>: the section is skipped when it is not set; otherwise the shared checks and its own
  checks run, and what they parse is stored.\<close>

definition check_section ::
  "Sections \<Rightarrow> string \<Rightarrow> 'x option \<Rightarrow> ('x \<Rightarrow> 'x \<times> config_error list) \<Rightarrow> 'x option \<times> config_error list" where
  "check_section s name x check =
     (case x of
        None \<Rightarrow> (None, [])
      | Some y \<Rightarrow> (let (y, errs) = check y in (Some y, missing_errors s name @ errs)))"

definition validateSections :: "parsers \<Rightarrow> string list \<Rightarrow> Sections \<Rightarrow> Sections \<times> config_error list" where
  "validateSections ps names s =
     (let (trust, e1) = check_section s ''trust'' (s_Trust s) (validateTrust ps);
          (slsa, e2) = check_section s ''slsa'' (s_SLSA s) (\<lambda>x.
             let (d, errs) = resolveMaxAge ps ''ErrSLSAMaxAgeNotPositive'' (slsa_MaxAge x) (slsa_MaxAgeDuration x)
             in (x\<lparr>slsa_MaxAgeDuration := d\<rparr>, errs @ validateSLSA x));
          (vex, e3) = check_section s ''vex'' (s_VEX s) (\<lambda>x. (x, validateVEX x));
          (vsa, e4) = check_section s ''vsa'' (s_VSA s) (\<lambda>x.
             let (d, errs) = resolveMaxAge ps ''ErrVSAMaxAgeNotPositive'' (vsa_MaxAge x) (vsa_MaxAgeDuration x)
             in (x\<lparr>vsa_MaxAgeDuration := d\<rparr>, errs @ validateVSA x));
          (nota, e5) = check_section s ''notation'' (s_Notation s) (\<lambda>x. (x, validateNotation x));
          (sbom, e6) = check_section s ''sbom'' (s_SBOM s) (\<lambda>x. (x, validateSBOM ps x));
          (scai, e7) = check_section s ''scai'' (s_SCAI s) (\<lambda>x. (x, validateSCAI x));
          (source, e8) = check_section s ''source'' (s_Source s) (\<lambda>x.
             let (d, errs) = resolveMaxAge ps ''ErrSourceMaxAgeNotPositive'' (src_MaxAge x) (src_MaxAgeDuration x)
             in (x\<lparr>src_MaxAgeDuration := d\<rparr>, errs @ validateSource x));
          (buildEnv, e9) = check_section s ''buildEnv'' (s_BuildEnv s) (\<lambda>x. (x, validateBuildEnv x));
          (vulnScan, e10) = check_section s ''vulnScan'' (s_VulnScan s) (\<lambda>x.
             let (d, errs) = resolveMaxAge ps ''ErrVulnScanMaxAgeNotPositive'' (vs_MaxAge x) (vs_MaxAgeDuration x)
             in (x\<lparr>vs_MaxAgeDuration := d\<rparr>, errs @ validateVulnScan x));
          (testResult, e11) = check_section s ''testResult'' (s_TestResult s) (\<lambda>x.
             let (d, errs) = resolveMaxAge ps ''ErrTestResultMaxAgeNotPositive'' (trp_MaxAge x) (trp_MaxAgeDuration x)
             in (x\<lparr>trp_MaxAgeDuration := d\<rparr>, errs @ validateTestResult x));
          (release, e12) = check_section s ''release'' (s_Release s) (\<lambda>x. (x, validateRelease x));
          (runtimeTrace, e13) = check_section s ''runtimeTrace'' (s_RuntimeTrace s) (\<lambda>x.
             let (d, errs) = resolveMaxAge ps ''ErrRuntimeTraceMaxAgeNotPositive'' (rt_MaxAge x) (rt_MaxAgeDuration x)
             in (x\<lparr>rt_MaxAgeDuration := d\<rparr>, errs @ validateRuntimeTrace x));
          (scorecard, e14) = check_section s ''scorecard'' (s_Scorecard s) (\<lambda>x. (x, validateScorecard names x))
      in (s\<lparr>s_Trust := trust, s_SLSA := slsa, s_VSA := vsa, s_Source := source, s_VulnScan := vulnScan,
            s_TestResult := testResult, s_RuntimeTrace := runtimeTrace\<rparr>,
          e1 @ e2 @ e3 @ e4 @ e5 @ e6 @ e7 @ e8 @ e9 @ e10 @ e11 @ e12 @ e13 @ e14))"

section \<open>Overlaps, rules and the whole policy\<close>

definition validateNoOverlap :: "string list \<Rightarrow> string list \<Rightarrow> config_error \<Rightarrow> config_error list" where
  "validateNoOverlap required forbidden err =
     (if required = [] \<or> forbidden = [] then []
      else map (\<lambda>_. err) (filter (\<lambda>e. ToLower e \<in> set (map ToLower forbidden)) required))"

definition sectionOverlaps :: "Sections \<Rightarrow> config_error list" where
  "sectionOverlaps s =
     (case s_Trust s of Some t \<Rightarrow> validateNoDuplicateKeys t | None \<Rightarrow> []) @
     (case s_SCAI s of
        Some x \<Rightarrow> validateNoOverlap (items (scai_RequiredAttributes x)) (items (scai_ForbiddenAttributes x))
                    ''ErrSCAIOverlappingAttributes''
      | None \<Rightarrow> []) @
     (case s_BuildEnv s of
        Some x \<Rightarrow> validateNoOverlap (items (be_RequiredProperties x)) (items (be_ForbiddenProperties x))
                    ''ErrBuildEnvOverlappingProperties''
      | None \<Rightarrow> [])"

definition validateOverlaps :: "parsers \<Rightarrow> Policy \<Rightarrow> config_error list" where
  "validateOverlaps ps p =
     sectionOverlaps (pl_Sections p) @
     concat (map (\<lambda>r.
       if s_SCAI (ir_Sections r) = None \<and> s_BuildEnv (ir_Sections r) = None \<and> s_Trust (ir_Sections r) = None then []
       else sectionOverlaps (pl_Sections (ApplyRule (ps_duration ps) p r))) (items (pl_Rules p)))"

definition compileCEL :: "parsers \<Rightarrow> CELPolicy option \<Rightarrow> CELPolicy option \<times> config_error list" where
  "compileCEL ps cel =
     (case cel of
        None \<Rightarrow> (None, [])
      | Some rules \<Rightarrow> if rules = [] then (None, [])
                      else if ps_cel ps rules then (Some rules, []) else (None, [''ErrCELCompileFailed'']))"

definition validateRule :: "parsers \<Rightarrow> string list \<Rightarrow> ImageRule \<Rightarrow> ImageRule \<times> config_error list" where
  "validateRule ps names r =
     (if ir_Images r = [] then (r, [''ErrRuleImagesRequired''])
      else
        (let e1 = validatePatterns (ir_Images r);
             (sections, e2) = validateSections ps names (ir_Sections r);
             (compiled, e3) = compileCEL ps (s_CEL (ir_Sections r))
         in (r\<lparr>ir_Sections := sections, ir_CompiledCEL := (if e3 = [] then compiled else ir_CompiledCEL r)\<rparr>,
             e1 @ e2 @ e3)))"

definition validateRules :: "parsers \<Rightarrow> string list \<Rightarrow> ImageRule list \<Rightarrow> ImageRule list \<times> config_error list" where
  "validateRules ps names rules =
     (let out = map (validateRule ps names) rules in (map fst out, concat (map snd out)))"

definition policy_Validate :: "parsers \<Rightarrow> string list \<Rightarrow> Policy \<Rightarrow> Policy \<times> config_error list" where
  "policy_Validate ps names p =
     (let e1 = (if pl_Version p < 0 \<or> pl_Version p > LatestPolicyVersion then [''ErrPolicyVersionTooNew''] else []);
          e2 = (if pl_Mode p \<noteq> [] \<and> \<not> mode_IsValid (pl_Mode p) then [''ErrInvalidPolicyMode''] else []);
          e3 = validatePatterns (items (pl_Include p)) @ validatePatterns (items (pl_Exclude p));
          (sections, e4) = validateSections ps names (pl_Sections p);
          p = p\<lparr>pl_Sections := sections\<rparr>;
          e5 = validateOverlaps ps p;
          (rules, e6) = validateRules ps names (items (pl_Rules p));
          p = p\<lparr>pl_Rules := map_option (\<lambda>_. rules) (pl_Rules p)\<rparr>;
          e7 = (if pl_Inherits p \<noteq> Some True then validateKeylessVerifiers ps p @ validateNotationStoreRefs ps p else []);
          (compiled, e8) = compileCEL ps (s_CEL (pl_Sections p))
      in (p\<lparr>pl_CompiledCEL := (if e8 = [] then compiled else pl_CompiledCEL p)\<rparr>,
          e1 @ e2 @ e3 @ e4 @ e5 @ e6 @ e7 @ e8))"

section \<open>Keys have one owner\<close>

lemma concat_map_Nil: "concat (map f xs) = [] \<longleftrightarrow> (\<forall>x \<in> set xs. f x = [])"
  by (induction xs) auto

lemma key_path_errors_nonempty: "key_path_errors e1 e2 seen keys = [] \<Longrightarrow> [] \<notin> set keys"
  by (induction keys arbitrary: seen) (auto simp: Let_def split: if_splits)

lemma key_owners_verifier_ok:
  assumes "key_owners_verifier vid keys (owners, errs) = (owners', errs')"
  shows "(\<forall>k w. owners k = Some w \<longrightarrow> owners' k = Some w) \<and>
    (errs' = [] \<longrightarrow> errs = [] \<and> (vid \<noteq> [] \<longrightarrow> (\<forall>key \<in> set keys. key \<noteq> [] \<longrightarrow> owners' (filepath_Clean key) = Some vid)))"
  using assms
proof (induction keys arbitrary: owners errs)
  case Nil
  then show ?case by simp
next
  case (Cons key keys)
  show ?case
  proof (cases "key = [] \<or> vid = []")
    case True
    then show ?thesis using Cons by auto
  next
    case False
    show ?thesis
    proof (cases "owners (filepath_Clean key)")
      case None
      then have "key_owners_verifier vid keys (owners(filepath_Clean key \<mapsto> vid), errs) = (owners', errs')"
        using Cons.prems False by (simp add: Let_def)
      note IH = Cons.IH [OF this]
      have "owners' (filepath_Clean key) = Some vid" using IH by (metis fun_upd_same)
      moreover have "\<forall>k w. owners k = Some w \<longrightarrow> owners' k = Some w" using IH None by (metis fun_upd_other option.distinct(1))
      ultimately show ?thesis using IH by simp
    next
      case (Some firstID)
      then have "key_owners_verifier vid keys (owners, if firstID \<noteq> vid then errs @ [''ErrDuplicateKeyAcrossVerifiers''] else errs)
        = (owners', errs')"
        using Cons.prems False by (simp add: Let_def)
      from Cons.IH [OF this] Some show ?thesis by (auto split: if_splits)
    qed
  qed
qed

lemma verifierKeyOwners_fold:
  assumes "fold (\<lambda>v. key_owners_verifier (tv_ID v) (tv_Keys v)) vs (owners, errs) = (owners', errs')"
  shows "(\<forall>k w. owners k = Some w \<longrightarrow> owners' k = Some w) \<and>
    (errs' = [] \<longrightarrow> errs = [] \<and> (\<forall>v \<in> set vs. tv_ID v \<noteq> [] \<longrightarrow>
       (\<forall>key \<in> set (tv_Keys v). key \<noteq> [] \<longrightarrow> owners' (filepath_Clean key) = Some (tv_ID v))))"
  using assms
proof (induction vs arbitrary: owners errs)
  case Nil
  then show ?case by simp
next
  case (Cons v vs)
  obtain o1 e1 where one: "key_owners_verifier (tv_ID v) (tv_Keys v) (owners, errs) = (o1, e1)" by (rule prod.exhaust)
  have rest: "fold (\<lambda>v. key_owners_verifier (tv_ID v) (tv_Keys v)) vs (o1, e1) = (owners', errs')"
    using Cons.prems one by simp
  show ?case
    using key_owners_verifier_ok [OF one] Cons.IH [OF rest] by simp
qed

text \<open>The part of a trust section that decides who owns a key.\<close>

definition key_view :: "TrustPolicy \<Rightarrow> string list list \<times> (string \<times> string list) list" where
  "key_view t = (map tb_Keys (items (tp_Builders t)), map (\<lambda>v. (tv_ID v, tv_Keys v)) (items (tp_Verifiers t)))"

lemma verifierKeyOwners_view:
  "verifierKeyOwners vs = fold (\<lambda>(i, ks). key_owners_verifier i ks) (map (\<lambda>v. (tv_ID v, tv_Keys v)) vs) (Map.empty, [])"
  by (simp add: verifierKeyOwners_def fold_map o_def)

lemma validateNoDuplicateKeys_view:
  assumes "key_view t = key_view t'"
  shows "validateNoDuplicateKeys t = validateNoDuplicateKeys t'"
proof -
  have "validateNoDuplicateKeys x =
    (let (owners, errs) = fold (\<lambda>(i, ks). key_owners_verifier i ks) (snd (key_view x)) (Map.empty, [])
     in errs @ concat (map (\<lambda>keys. concat (map (\<lambda>key.
           if key \<noteq> [] \<and> owners (filepath_Clean key) \<noteq> None then [''ErrDuplicateKeyAcrossVerifiers''] else []) keys))
           (fst (key_view x))))" for x
    by (simp add: validateNoDuplicateKeys_def verifierKeyOwners_view key_view_def o_def)
  then show ?thesis using assms by simp
qed

text \<open>Every key belongs to one verifier, or to builders only.\<close>

definition owned_keys :: "TrustPolicy \<Rightarrow> bool" where
  "owned_keys t \<longleftrightarrow>
     (\<forall>v \<in> set (items (tp_Verifiers t)). tv_ID v \<noteq> [] \<and> [] \<notin> set (tv_Keys v)) \<and>
     (\<forall>b \<in> set (items (tp_Builders t)). [] \<notin> set (tb_Keys b)) \<and> validateNoDuplicateKeys t = []"

lemma owned_keys_unique:
  assumes "owned_keys t" and "v \<in> set (items (tp_Verifiers t))" and "matchesKey (tv_Keys v) keyPath"
  shows "(\<forall>w \<in> set (items (tp_Verifiers t)). matchesKey (tv_Keys w) keyPath \<longrightarrow> tv_ID w = tv_ID v) \<and>
    (\<forall>b \<in> set (items (tp_Builders t)). \<not> matchesKey (tb_Keys b) keyPath)"
proof -
  obtain owners errs where f: "fold (\<lambda>v. key_owners_verifier (tv_ID v) (tv_Keys v)) (items (tp_Verifiers t)) (Map.empty, [])
    = (owners, errs)" by (rule prod.exhaust)
  have nd: "errs = []"
    "\<And>b key. b \<in> set (items (tp_Builders t)) \<Longrightarrow> key \<in> set (tb_Keys b) \<Longrightarrow> key \<noteq> [] \<Longrightarrow> owners (filepath_Clean key) = None"
    using assms(1) unfolding owned_keys_def validateNoDuplicateKeys_def verifierKeyOwners_def f Let_def prod.case
      append_is_Nil_conv concat_map_Nil if_errors by blast+
  have owner: "owners (filepath_Clean keyPath) = Some (tv_ID w)"
    if w: "w \<in> set (items (tp_Verifiers t))" and m: "matchesKey (tv_Keys w) keyPath" for w
  proof -
    obtain key where "key \<in> set (tv_Keys w)" "filepath_Clean key = filepath_Clean keyPath"
      using m by (auto simp: matchesKey_def list_ex_iff)
    moreover have "tv_ID w \<noteq> []" "key \<noteq> []" using assms(1) w calculation by (auto simp: owned_keys_def)
    ultimately show ?thesis using verifierKeyOwners_fold [OF f] nd(1) w by metis
  qed
  have "\<not> matchesKey (tb_Keys b) keyPath" if "b \<in> set (items (tp_Builders t))" for b
    using nd(2) [OF that] assms(1) that owner [OF assms(2,3)]
    by (force simp: matchesKey_def list_ex_iff owned_keys_def)
  moreover have "tv_ID w = tv_ID v" if "w \<in> set (items (tp_Verifiers t))" "matchesKey (tv_Keys w) keyPath" for w
    using owner [OF that] owner [OF assms(2,3)] by simp
  ultimately show ?thesis by blast
qed

lemma validateVerifierTimeBounds_view:
  "tv_ID (fst (validateVerifierTimeBounds ps v)) = tv_ID v \<and> tv_Keys (fst (validateVerifierTimeBounds ps v)) = tv_Keys v"
proof -
  have "fst (if b then (x, e) else (x, e')) = x" for b and x :: TrustedVerifier and e e' :: "config_error list" by simp
  then show ?thesis
    by (cases "tv_NotBefore v = []"; cases "ps_rfc3339 ps (tv_NotBefore v)"; cases "tv_NotAfter v = []";
        cases "ps_rfc3339 ps (tv_NotAfter v)") (simp_all add: validateVerifierTimeBounds_def Let_def)
qed

lemma validateVerifierKeys_view:
  "tv_ID (fst (validateVerifierKeys ps v)) = tv_ID v \<and> tv_Keys (fst (validateVerifierKeys ps v)) = tv_Keys v"
  using validateVerifierTimeBounds_view [of ps v]
  by (cases "validateVerifierTimeBounds ps v") (simp add: validateVerifierKeys_def)

lemma verifier_errors_view:
  "map (\<lambda>v. (tv_ID v, tv_Keys v)) (fst (verifier_errors ps seen vs)) = map (\<lambda>v. (tv_ID v, tv_Keys v)) vs"
proof (induction vs arbitrary: seen)
  case (Cons v vs)
  obtain v' e where v: "validateVerifierKeys ps v = (v', e)" by (rule prod.exhaust)
  have "tv_ID v' = tv_ID v \<and> tv_Keys v' = tv_Keys v" using validateVerifierKeys_view [of ps v] v by simp
  then show ?case
    using Cons.IH [of seen] Cons.IH [of "insert (tv_ID v') seen"] v by (simp add: Let_def case_prod_beta)
qed simp

lemma verifier_errors_keys:
  "snd (verifier_errors ps seen vs) = [] \<Longrightarrow> v \<in> set vs \<Longrightarrow> tv_ID v \<noteq> [] \<and> [] \<notin> set (tv_Keys v)"
proof (induction vs arbitrary: seen)
  case (Cons w ws)
  have ne: "tv_ID w \<noteq> []" "tv_ID w \<notin> seen" using Cons.prems(1) by (auto simp: Let_def split: prod.splits if_splits)
  obtain w' e1 where w: "validateVerifierKeys ps w = (w', e1)" by (rule prod.exhaust)
  obtain ws' e2 where ws: "verifier_errors ps (insert (tv_ID w') seen) ws = (ws', e2)" by (rule prod.exhaust)
  have e: "e1 = []" "e2 = []" using Cons.prems(1) ne w ws by simp_all
  have "[] \<notin> set (tv_Keys w)"
    using w e(1) key_path_errors_nonempty
    by (auto simp: validateVerifierKeys_def validateKeyPaths_def Let_def split: if_splits prod.splits)
  then show ?case using Cons.IH [of "insert (tv_ID w') seen"] Cons.prems(2) ws e(2) ne by auto
qed simp

lemma builder_errors_keys: "builder_errors seen bs = [] \<Longrightarrow> b \<in> set bs \<Longrightarrow> [] \<notin> set (tb_Keys b)"
  by (induction bs arbitrary: seen) (auto simp: validateKeyPaths_def dest: key_path_errors_nonempty split: if_splits)

text \<open>What validation establishes of one trust section, and that it keeps the owners.\<close>

definition named_keys :: "TrustPolicy \<Rightarrow> bool" where
  "named_keys t \<longleftrightarrow>
     list_all (\<lambda>(i, ks). i \<noteq> [] \<and> [] \<notin> set ks) (snd (key_view t)) \<and> list_all (\<lambda>ks. [] \<notin> set ks) (fst (key_view t))"

lemma owned_keys_iff: "owned_keys t \<longleftrightarrow> named_keys t \<and> validateNoDuplicateKeys t = []"
  by (auto simp: owned_keys_def named_keys_def key_view_def list_all_iff)

lemma validateTrust_view:
  assumes "validateTrust ps t = (t', errs)"
  shows "key_view t' = key_view t \<and> tp_Builders t' = tp_Builders t \<and>
    (tp_Verifiers t' = None \<longleftrightarrow> tp_Verifiers t = None) \<and> (errs = [] \<longrightarrow> named_keys t)"
proof -
  obtain vs es where v: "verifier_errors ps {} (items (tp_Verifiers t)) = (vs, es)" by (rule prod.exhaust)
  have t': "t' = t\<lparr>tp_Verifiers := map_option (\<lambda>_. vs) (tp_Verifiers t)\<rparr>"
    and errs: "errs = validateBuilders t @ validateTrustStringFields t @ es"
    using assms v by (simp_all add: validateTrust_def validateVerifiers_def)
  have view: "map (\<lambda>v. (tv_ID v, tv_Keys v)) vs = map (\<lambda>v. (tv_ID v, tv_Keys v)) (items (tp_Verifiers t))"
    using verifier_errors_view [of ps "{}" "items (tp_Verifiers t)"] v by simp
  have "named_keys t" if "errs = []"
    using that errs verifier_errors_keys [of ps "{}" "items (tp_Verifiers t)"] v builder_errors_keys
    by (auto simp: named_keys_def key_view_def list_all_iff validateBuilders_def)
  moreover have "items (map_option (\<lambda>_. vs) (tp_Verifiers t)) = (if tp_Verifiers t = None then [] else vs)"
    by (cases "tp_Verifiers t") (simp_all add: items_def)
  moreover have "items (tp_Verifiers t) = []" if "tp_Verifiers t = None" using that by (simp add: items_def)
  ultimately show ?thesis using t' view by (auto simp: key_view_def)
qed

lemma check_section_Some:
  "check_section s name x check = (y, errs) \<Longrightarrow>
     y = map_option (fst \<circ> check) x \<and> (errs = [] \<longrightarrow> option_all (\<lambda>z. snd (check z) = []) x)"
  by (cases x) (auto simp: check_section_def split: prod.splits)

lemma validateSections_trust:
  assumes "validateSections ps names s = (s', errs)"
  shows "s_Trust s' = map_option (fst \<circ> validateTrust ps) (s_Trust s) \<and>
    (errs = [] \<longrightarrow> option_all (\<lambda>t. snd (validateTrust ps t) = []) (s_Trust s))"
proof -
  obtain tr e where t: "check_section s ''trust'' (s_Trust s) (validateTrust ps) = (tr, e)" by (rule prod.exhaust)
  have "s_Trust s' = tr \<and> (errs = [] \<longrightarrow> e = [])"
    using assms unfolding validateSections_def t by (simp add: Let_def case_prod_beta) auto
  then show ?thesis using check_section_Some [OF t] by simp
qed

lemma named_keys_view: "key_view t' = key_view t \<Longrightarrow> named_keys t' = named_keys t"
  by (simp add: named_keys_def)

lemma named_keys_merge: "named_keys d \<Longrightarrow> named_keys t \<Longrightarrow> named_keys (merge_trust d t)"
  by (cases "tp_Builders t"; cases "tp_Verifiers t")
     (auto simp: named_keys_def key_view_def merge_trust_def merge_ref_def items_def)

lemma merge_trust_view:
  "key_view t' = key_view t \<Longrightarrow> tp_Builders t' = tp_Builders t \<Longrightarrow> (tp_Verifiers t' = None \<longleftrightarrow> tp_Verifiers t = None) \<Longrightarrow>
   key_view (merge_trust d t') = key_view (merge_trust d t)"
  by (cases "tp_Verifiers t"; cases "tp_Verifiers t'") (auto simp: key_view_def merge_trust_def merge_ref_def items_def)

lemma owned_keys_view:
  assumes "key_view t' = key_view t"
  shows "owned_keys t' = owned_keys t"
  unfolding owned_keys_iff named_keys_view [OF assms] validateNoDuplicateKeys_view [OF assms] ..

text \<open>The steps of a successful validation.\<close>

lemma policy_Validate_ok:
  assumes "policy_Validate ps names p = (p', [])"
  obtains s' where "validateSections ps names (pl_Sections p) = (s', [])"
    and "validateOverlaps ps (p\<lparr>pl_Sections := s'\<rparr>) = []"
    and "\<forall>r \<in> set (items (pl_Rules p)). snd (validateRule ps names r) = []"
    and "pl_Sections p' = s'"
    and "pl_Rules p' = map_option (map (fst \<circ> validateRule ps names)) (pl_Rules p)"
proof -
  obtain s' e4 where s: "validateSections ps names (pl_Sections p) = (s', e4)" by (rule prod.exhaust)
  have rules: "map_option (\<lambda>_. map g (items x)) x = map_option (map g) x" for g :: "ImageRule \<Rightarrow> ImageRule" and x
    by (cases x) (simp_all add: items_def)
  have "e4 = []" "validateOverlaps ps (p\<lparr>pl_Sections := s'\<rparr>) = []"
    "concat (map snd (map (validateRule ps names) (items (pl_Rules p)))) = []"
    "pl_Sections p' = s'" "pl_Rules p' = map_option (map (fst \<circ> validateRule ps names)) (pl_Rules p)"
    using assms unfolding policy_Validate_def s validateRules_def
    by (auto simp: Let_def case_prod_beta rules)
  then show thesis using that s by simp
qed

lemma validateRule_sections:
  assumes "snd (validateRule ps names r) = []"
  shows "\<exists>errs. validateSections ps names (ir_Sections r) = (ir_Sections (fst (validateRule ps names r)), errs) \<and> errs = []"
  using assms
  by (cases "validateSections ps names (ir_Sections r)")
     (auto simp: validateRule_def Let_def case_prod_beta split: if_splits)

text \<open>The policies an image can be verified with: the policy itself and the policy each of its rules produces.\<close>

definition effective_policies :: "(string \<Rightarrow> duration option) \<Rightarrow> Policy \<Rightarrow> Policy set" where
  "effective_policies pd p = insert p (ApplyRule pd p ` set (items (pl_Rules p)))"

lemma effective_trust:
  "s_Trust (pl_Sections (ApplyRule pd p r)) = merge_struct merge_trust (s_Trust (pl_Sections p)) (s_Trust (ir_Sections r))"
  by (simp add: merged_policy_sections)

lemma validated_trust_named:
  assumes "validateSections ps names s = (s', [])"
  shows "option_all named_keys (s_Trust s')"
proof (cases "s_Trust s")
  case None
  then show ?thesis using validateSections_trust [OF assms] by simp
next
  case (Some t)
  obtain t' es where t': "validateTrust ps t = (t', es)" by (rule prod.exhaust)
  have "s_Trust s' = Some t'" "es = []" using validateSections_trust [OF assms] Some t' by simp_all
  then show ?thesis using validateTrust_view [OF t'] named_keys_view [of t' t] by simp
qed

lemma effective_owned_keys:
  assumes T: "option_all named_keys T" "option_all owned_keys T"
    and x: "validateSections ps names x = (x', [])"
    and dup: "\<And>t. s_Trust x = Some t \<Longrightarrow>
      option_all (\<lambda>u. validateNoDuplicateKeys u = []) (merge_struct merge_trust T (Some t))"
  shows "option_all owned_keys (merge_struct merge_trust T (s_Trust x'))"
proof (cases "s_Trust x")
  case None
  then show ?thesis using validateSections_trust [OF x] T(2) by (simp add: merge_struct_def)
next
  case (Some t)
  obtain t' es where t': "validateTrust ps t = (t', es)" by (rule prod.exhaust)
  have x': "s_Trust x' = Some t'" and es: "es = []" using validateSections_trust [OF x] Some t' by simp_all
  note v = validateTrust_view [OF t', unfolded es]
  have own: "owned_keys (merge_trust d t')" if "T = Some d" for d
  proof -
    have "owned_keys (merge_trust d t)"
      using dup [OF Some] T(1) v that named_keys_merge by (simp add: merge_struct_def owned_keys_iff)
    then show ?thesis using owned_keys_view [OF merge_trust_view, of t' t d] v by simp
  qed
  have own0: "owned_keys t'" if "T = None"
  proof -
    have "owned_keys t" using dup [OF Some] v that by (simp add: merge_struct_def owned_keys_iff)
    then show ?thesis using owned_keys_view [of t' t] v by simp
  qed
  show ?thesis using own own0 x' by (cases T) (simp_all add: merge_struct_def)
qed

lemma validateOverlaps_rule:
  assumes "validateOverlaps ps p = []" and "x \<in> set (items (pl_Rules p))" and "s_Trust (ir_Sections x) = Some t"
  shows "option_all (\<lambda>u. validateNoDuplicateKeys u = []) (merge_struct merge_trust (s_Trust (pl_Sections p)) (Some t))"
proof -
  have "sectionOverlaps (pl_Sections (ApplyRule (ps_duration ps) p x)) = []"
    using assms(1) unfolding validateOverlaps_def append_is_Nil_conv concat_map_Nil
    by (elim conjE) (drule bspec [OF _ assms(2)], simp add: assms(3))
  then show ?thesis
    unfolding sectionOverlaps_def effective_trust assms(3) append_is_Nil_conv
    by (simp add: option_all_def split: option.splits)
qed

lemma validated_owned_keys:
  assumes ok: "policy_Validate ps names p = (p', [])" and e: "q \<in> effective_policies (ps_duration ps) p'"
  shows "option_all owned_keys (s_Trust (pl_Sections q))"
proof -
  obtain s' where s: "validateSections ps names (pl_Sections p) = (s', [])"
    and o: "validateOverlaps ps (p\<lparr>pl_Sections := s'\<rparr>) = []"
    and r: "\<forall>r \<in> set (items (pl_Rules p)). snd (validateRule ps names r) = []"
    and p': "pl_Sections p' = s'" "pl_Rules p' = map_option (map (fst \<circ> validateRule ps names)) (pl_Rules p)"
    by (rule policy_Validate_ok [OF ok])
  note named = validated_trust_named [OF s]
  have "sectionOverlaps s' = []" using o by (simp add: validateOverlaps_def)
  then have owned: "option_all owned_keys (s_Trust s')"
    using named by (cases "s_Trust s'") (simp_all add: owned_keys_iff sectionOverlaps_def)
  have rule_case: "option_all owned_keys (s_Trust (pl_Sections (ApplyRule (ps_duration ps) p' (fst (validateRule ps names x)))))"
    if x: "x \<in> set (items (pl_Rules p))" for x
  proof -
    have vs: "validateSections ps names (ir_Sections x) = (ir_Sections (fst (validateRule ps names x)), [])"
      using validateRule_sections [OF bspec [OF r x]] by blast
    have "option_all (\<lambda>u. validateNoDuplicateKeys u = []) (merge_struct merge_trust (s_Trust s') (Some t))"
      if "s_Trust (ir_Sections x) = Some t" for t
      using validateOverlaps_rule [OF o, of x t] x that by simp
    from effective_owned_keys [OF named owned vs this] show ?thesis by (simp only: effective_trust p'(1))
  qed
  consider "q = p'" | x where "x \<in> set (items (pl_Rules p))" "q = ApplyRule (ps_duration ps) p' (fst (validateRule ps names x))"
    using e p'(2) by (cases "pl_Rules p") (auto simp: effective_policies_def items_def)
  then show ?thesis by cases (use owned p'(1) rule_case in simp_all)
qed

text \<open>C36: in a validated policy a key identifies one verifier.  Whatever rule of the policy applies, if the key that
  verified a signature is a key of one trusted verifier, then every other verifier it is a key of
  has the same identifier, and it is the key of no builder; so a key can neither borrow another verifier's authority nor
  sign both verdicts and provenance.\<close>

theorem validated_key_has_one_verifier:
  assumes "policy_Validate ps names p = (p', [])" and "q \<in> effective_policies (ps_duration ps) p'"
    and "s_Trust (pl_Sections q) = Some t" and "v \<in> set (items (tp_Verifiers t))" and "matchesKey (tv_Keys v) keyPath"
  shows "(\<forall>w \<in> set (items (tp_Verifiers t)). matchesKey (tv_Keys w) keyPath \<longrightarrow> tv_ID w = tv_ID v) \<and>
    (\<forall>b \<in> set (items (tp_Builders t)). \<not> matchesKey (tb_Keys b) keyPath)"
proof -
  have "owned_keys t" using validated_owned_keys [OF assms(1,2)] assms(3) by simp
  from owned_keys_unique [OF this assms(4,5)] show ?thesis .
qed

text \<open>A policy with a builder and a rule that adds a verifier of its own.\<close>

definition two_key_trust :: TrustPolicy where
  "two_key_trust = \<lparr>
     tp_Builders = Some [\<lparr>tb_ID = ''b'', tb_MaxLevel = 3, tb_Keys = [''/keys/b.pem''], tb_Identities = []\<rparr>],
     tp_Verifiers = None, tp_Issuers = None, tp_SANPatterns = None, tp_Sources = None, tp_BuildTypes = None\<rparr>"

definition vsa_rule :: ImageRule where
  "vsa_rule = \<lparr>ir_Sections = no_sections\<lparr>s_Trust := Some \<lparr>tp_Builders = None,
       tp_Verifiers = Some [\<lparr>tv_ID = ''v'', tv_Keys = [''/keys/v.pem''], tv_NotBefore = [], tv_NotAfter = [],
         tv_Identities = [], tv_NotBeforeTime = zero_time, tv_NotAfterTime = zero_time\<rparr>],
       tp_Issuers = None, tp_SANPatterns = None, tp_Sources = None, tp_BuildTypes = None\<rparr>\<rparr>,
     ir_Images = [''registry.example/**''], ir_CompiledCEL = None\<rparr>"

definition two_key_policy :: Policy where
  "two_key_policy = (plain_policy (no_sections\<lparr>s_Trust := Some two_key_trust\<rparr>))\<lparr>pl_Rules := Some [vsa_rule]\<rparr>"

definition no_parsers :: parsers where
  "no_parsers = \<lparr>ps_duration = \<lambda>_. None, ps_rfc3339 = \<lambda>_. None, ps_purl = \<lambda>_. None, ps_cel = \<lambda>_. False\<rparr>"

lemma two_key_policy_valid: "snd (policy_Validate no_parsers [] two_key_policy) = []"
  by code_simp

definition valid_two_key :: Policy where
  "valid_two_key = fst (policy_Validate no_parsers [] two_key_policy)"

lemma two_key_policy_effective:
  "case s_Trust (pl_Sections (ApplyRule (ps_duration no_parsers) valid_two_key (hd (items (pl_Rules valid_two_key))))) of
     Some t \<Rightarrow> list_ex (\<lambda>v. tv_ID v = ''v'' \<and> matchesKey (tv_Keys v) ''/keys/./v.pem'') (items (tp_Verifiers t)) \<and>
       list_ex (\<lambda>b. tb_ID b = ''b'') (items (tp_Builders t))
   | None \<Rightarrow> False"
  "length (items (pl_Rules valid_two_key)) = 1"
  by code_simp+

theorem validated_key_has_one_verifier_witness:
  "\<exists>t b. s_Trust (pl_Sections (ApplyRule (ps_duration no_parsers) valid_two_key (hd (items (pl_Rules valid_two_key)))))
      = Some t \<and> b \<in> set (items (tp_Builders t)) \<and> \<not> matchesKey (tb_Keys b) ''/keys/./v.pem''"
proof -
  let ?p = valid_two_key
  have ok: "policy_Validate no_parsers [] two_key_policy = (?p, [])"
    using two_key_policy_valid by (metis prod.collapse valid_two_key_def)
  have eff: "ApplyRule (ps_duration no_parsers) ?p (hd (items (pl_Rules ?p))) \<in> effective_policies (ps_duration no_parsers) ?p"
  proof -
    have "items (pl_Rules ?p) \<noteq> []" using two_key_policy_effective(2) by (metis list.size(3) zero_neq_one)
    then have "hd (items (pl_Rules ?p)) \<in> set (items (pl_Rules ?p))" by (rule list.set_sel(1))
    then show ?thesis unfolding effective_policies_def by (intro insertI2 imageI)
  qed
  obtain t v b where t: "s_Trust (pl_Sections (ApplyRule (ps_duration no_parsers) ?p (hd (items (pl_Rules ?p))))) = Some t"
    and v: "v \<in> set (items (tp_Verifiers t))" "matchesKey (tv_Keys v) ''/keys/./v.pem''"
    and b: "b \<in> set (items (tp_Builders t))"
    using two_key_policy_effective(1) unfolding list_ex_iff by (simp only: split: option.splits) blast
  from validated_key_has_one_verifier [OF ok eff t v] t b show ?thesis by blast
qed

end
