(* ===== verification/Images.thy ===== *)
theory Images
  imports Policy
begin

text \<open>
  Which policy applies to an image (src/internal/imageref, and image.go and policy_resolve.go of src/internal/verifier):
  the spellings of an image reference that patterns are matched against, the include and exclude
  lists, the image rules, the policy of a namespace, and the checks on the modes of all policies.

  The reference parser of go-containerregistry is the argument \<open>parse\<close>; of a parsed reference the program uses the
  repository name, its registry and path, and the tag or digest.  Malformed patterns are only logged by the
  source and do not match.
\<close>

record Reference =
  ref_Name :: string
  ref_Registry :: string
  ref_Repository :: string
  ref_Tag :: "string option"
  ref_Digest :: "string option"

type_synonym ref_parser = "string \<Rightarrow> Reference option"

section \<open>Spellings of a repository\<close>

definition IsDockerHub :: "string \<Rightarrow> bool" where
  "IsDockerHub registry =
     (ToLower registry \<in> {DockerHubRegistry, ''index.docker.io'', ''registry-1.docker.io'', ''registry.hub.docker.com''})"

definition NormalizeRegistry :: "string \<Rightarrow> string" where
  "NormalizeRegistry registry = (if IsDockerHub registry then DockerHubRegistry else ToLower registry)"

definition NormalizeRepositoryPath :: "string \<Rightarrow> string \<Rightarrow> string" where
  "NormalizeRepositoryPath registry path =
     (if IsDockerHub registry \<and> path \<noteq> [] \<and> CHR ''/'' \<notin> set path then ''library/'' @ path else path)"

definition NormalizeRepository :: "string \<Rightarrow> string" where
  "NormalizeRepository repository =
     (case Cut repository (CHR ''/'') of
        None \<Rightarrow> repository
      | Some (registry, path) \<Rightarrow> NormalizeRegistry registry @ ''/'' @ NormalizeRepositoryPath registry path)"

section \<open>Forms of a reference\<close>

definition after_slash :: "string \<Rightarrow> string" where
  "after_slash s = (case LastIndexByte s (CHR ''/'') of None \<Rightarrow> s | Some i \<Rightarrow> drop (Suc i) s)"

definition explicitTag :: "string \<Rightarrow> bool" where
  "explicitTag ref = (CHR '':'' \<in> set (after_slash ref))"

definition stripTagPattern :: "string \<Rightarrow> string option" where
  "stripTagPattern pattern =
     (case LastIndexByte (after_slash pattern) (CHR '':'') of
        None \<Rightarrow> None
      | Some colon \<Rightarrow> Some (take (length pattern - length (after_slash pattern) + colon) pattern))"

definition withoutTagIfDigestPinned :: "string \<Rightarrow> string" where
  "withoutTagIfDigestPinned imageRef =
     (case Cut imageRef (CHR ''@'') of
        None \<Rightarrow> imageRef
      | Some (base, digest) \<Rightarrow>
          if \<not> explicitTag base then imageRef
          else (case stripTagPattern base of None \<Rightarrow> [] | Some repository \<Rightarrow> repository) @ ''@'' @ digest)"

definition hasRegistryHost :: "string \<Rightarrow> bool" where
  "hasRegistryHost imageRef =
     (case Cut imageRef (CHR ''/'') of
        None \<Rightarrow> False
      | Some (first, _) \<Rightarrow> CHR ''.'' \<in> set first \<or> CHR '':'' \<in> set first \<or> first = ''localhost'')"

text \<open>Repository, tag and digest of a reference; the tag is empty when there is none, or when a digest is given and no
  tag is spelled.\<close>

definition normalizedReference :: "ref_parser \<Rightarrow> string \<Rightarrow> (string \<times> string \<times> string) option" where
  "normalizedReference parse imageRef =
     (let (base, digest, hasDigest) =
            (case Cut imageRef (CHR ''@'') of None \<Rightarrow> (imageRef, [], False) | Some (b, d) \<Rightarrow> (b, d, True))
      in case parse base of
           None \<Rightarrow> None
         | Some ref \<Rightarrow>
             (let tag = (case ref_Tag ref of
                           Some t \<Rightarrow> if \<not> hasDigest \<or> explicitTag base then t else []
                         | None \<Rightarrow> [])
              in Some (NormalizeRepository (ref_Name ref), tag, digest)))"

text \<open>\<open>slices.Compact\<close> removes adjacent duplicates.\<close>

definition imageMatchForms :: "ref_parser \<Rightarrow> string \<Rightarrow> bool \<Rightarrow> string list" where
  "imageMatchForms parse imageRef qualifiedOnly =
     (let forms = [if qualifiedOnly then withoutTagIfDigestPinned imageRef else imageRef] in
      if qualifiedOnly \<and> \<not> hasRegistryHost imageRef then forms
      else
        (case normalizedReference parse imageRef of
           None \<Rightarrow> forms
         | Some (repository, tag, digest) \<Rightarrow>
             remdups_adj (forms @
               (if \<not> qualifiedOnly then [repository] else []) @
               (if tag \<noteq> [] \<and> (\<not> qualifiedOnly \<or> digest = []) then [repository @ '':'' @ tag] else []) @
               (if digest \<noteq> [] then [repository @ ''@'' @ digest] else []))))"

fun matchesAnyForm :: "string \<Rightarrow> string list \<Rightarrow> bool" where
  "matchesAnyForm pattern [] = False"
| "matchesAnyForm pattern (form # forms) =
     (case glob_Match pattern form of
        Inl _ \<Rightarrow> False
      | Inr matched \<Rightarrow> if matched then True else matchesAnyForm pattern forms)"

definition isExcluded :: "ref_parser \<Rightarrow> string list \<Rightarrow> string \<Rightarrow> bool" where
  "isExcluded parse excludedImages imageRef =
     (if excludedImages = [] then False
      else (let forms = imageMatchForms parse imageRef True in list_ex (\<lambda>pattern. matchesAnyForm pattern forms) excludedImages))"

definition digestPinnedRepositories :: "ref_parser \<Rightarrow> string \<Rightarrow> string list" where
  "digestPinnedRepositories parse imageRef =
     (case Cut imageRef (CHR ''@'') of
        None \<Rightarrow> []
      | Some (base, _) \<Rightarrow>
          if explicitTag base then []
          else (case normalizedReference parse imageRef of
                  None \<Rightarrow> [base]
                | Some (repository, _, _) \<Rightarrow> remdups_adj [base, repository]))"

definition isIncluded :: "ref_parser \<Rightarrow> string list \<Rightarrow> string \<Rightarrow> bool" where
  "isIncluded parse includedImages imageRef =
     (if includedImages = [] then True
      else
        (let forms = imageMatchForms parse imageRef False;
             repositories = digestPinnedRepositories parse imageRef
         in list_ex (\<lambda>pattern.
              matchesAnyForm pattern forms \<or>
              (case stripTagPattern pattern of
                 None \<Rightarrow> False
               | Some repositoryPattern \<Rightarrow> matchesAnyForm repositoryPattern repositories)) includedImages))"

section \<open>Rules\<close>

definition matchesImageRule :: "ref_parser \<Rightarrow> string list \<Rightarrow> string \<Rightarrow> bool" where
  "matchesImageRule parse patterns imageRef =
     (let forms = imageMatchForms parse imageRef True in list_ex (\<lambda>pattern. matchesAnyForm pattern forms) patterns)"

fun resolve_rules ::
  "(string \<Rightarrow> duration option) \<Rightarrow> ref_parser \<Rightarrow> Policy \<Rightarrow> string \<Rightarrow> nat \<Rightarrow> ImageRule list \<Rightarrow> Policy \<times> int" where
  "resolve_rules pd parse pol imageRef idx [] = (pol, -1)"
| "resolve_rules pd parse pol imageRef idx (r # rs) =
     (if matchesImageRule parse (ir_Images r) imageRef then (ApplyRule pd pol r, int idx)
      else resolve_rules pd parse pol imageRef (Suc idx) rs)"

definition ResolveImagePolicy :: "(string \<Rightarrow> duration option) \<Rightarrow> ref_parser \<Rightarrow> Policy \<Rightarrow> string \<Rightarrow> Policy \<times> int" where
  "ResolveImagePolicy pd parse pol imageRef = resolve_rules pd parse pol imageRef 0 (items (pl_Rules pol))"

section \<open>Policies of namespaces\<close>

type_synonym policies = "string \<rightharpoonup> Policy"

definition policyForNamespace :: "policies \<Rightarrow> string \<Rightarrow> Policy option" where
  "policyForNamespace policies namespace = (case policies namespace of Some pol \<Rightarrow> Some pol | None \<Rightarrow> policies [])"

text \<open>A map of policies is given to the checks as the list of its values in iteration order.\<close>

definition refuseEmptyPolicyReload :: "Config \<Rightarrow> Policy list \<Rightarrow> Policy list \<Rightarrow> config_error list" where
  "refuseEmptyPolicyReload cfg previous next =
     (if config_Enabled cfg \<and> length previous > 0 \<and> length next = 0 then [''ErrNoPolicies''] else [])"

definition anyPolicyEnforcing :: "Config \<Rightarrow> Policy list \<Rightarrow> bool" where
  "anyPolicyEnforcing cfg pols =
     (cf_Verification cfg = ModeEnforce \<or>
      list_ex (\<lambda>pol. EffectiveMode pol (cf_Verification cfg) = ModeEnforce) pols)"

definition CleartextEndpoint :: "(string \<Rightarrow> (string \<times> string) option) \<Rightarrow> GUACConfig \<Rightarrow> bool" where
  "CleartextEndpoint url_Parse g =
     (if \<not> guac_Enabled g then False
      else (case url_Parse (gc_Endpoint g) of None \<Rightarrow> False | Some (sch, _) \<Rightarrow> sch \<noteq> ''https''))"

definition validatePoliciesAgainstConfig ::
  "(string \<Rightarrow> (string \<times> string) option) \<Rightarrow> Config \<Rightarrow> Policy list \<Rightarrow> config_error list" where
  "validatePoliciesAgainstConfig url_Parse cfg pols =
     (if \<not> anyPolicyEnforcing cfg pols then []
      else
        concat (map (\<lambda>r. if rc_Insecure r then [''ErrInsecureRegistryInEnforceMode''] else []) (cf_Registries cfg)) @
        (if pc_Source (cf_Policy cfg) = PolicySourceOCI \<and> \<not> SignatureVerificationRequired (cf_Policy cfg)
         then [''ErrPolicyOCIUnsignedInEnforce''] else []) @
        (if IssuersWithoutSANPatterns (cf_Policy cfg) then [''ErrIssuersWithoutSANPatternsInEnforce''] else []) @
        (if CleartextEndpoint url_Parse (cf_Guac cfg) then [''ErrGUACEndpointNotHTTPS''] else []))"

definition validatePoliciesModes ::
  "(string \<Rightarrow> duration option) \<Rightarrow> VerificationMode \<Rightarrow> Policy list \<Rightarrow> config_error list" where
  "validatePoliciesModes pd mode pols = concat (map (\<lambda>pol.
     ValidateModeStrictness pol mode @
     (if EffectiveMode pol mode = ModeEnforce then ValidateEnforce pd pol else [])) pols)"

definition policyHashesEqual :: "(string \<rightharpoonup> string) \<Rightarrow> (string \<rightharpoonup> string) \<Rightarrow> string list \<Rightarrow> string list \<Rightarrow> bool" where
  "policyHashesEqual prev next prevKeys nextKeys =
     (length prevKeys = length nextKeys \<and>
      list_all (\<lambda>key. (case next key of None \<Rightarrow> [] | Some h \<Rightarrow> h) = (case prev key of None \<Rightarrow> [] | Some h \<Rightarrow> h)) prevKeys)"

section \<open>A tag next to a digest\<close>

lemma Cut_first: "c \<notin> set a \<Longrightarrow> Cut (a @ c # b) c = Some (a, b)"
  by (simp add: Cut_Some_iff)

lemma after_slash_append: "CHR ''/'' \<notin> set t \<Longrightarrow> after_slash (r @ t) = after_slash r @ t"
proof (induction r)
  case Nil
  then show ?case by (simp add: after_slash_def LastIndexByte_None_iff)
next
  case (Cons x r)
  then show ?case
    by (cases "LastIndexByte r (CHR ''/'')"; cases "LastIndexByte (r @ t) (CHR ''/'')")
       (auto simp: after_slash_def LastIndexByte_None_iff split: if_splits dest: LastIndexByte_SomeD)
qed

lemma after_slash_length: "length (after_slash r) \<le> length r"
  by (auto simp: after_slash_def split: option.splits)

definition tagged :: "string \<Rightarrow> string \<Rightarrow> string \<Rightarrow> string" where
  "tagged repo tag digest = repo @ '':'' @ tag @ ''@'' @ digest"

text \<open>The characters of a tag and of a repository name.\<close>

definition plain_tag :: "string \<Rightarrow> bool" where
  "plain_tag t \<longleftrightarrow> CHR ''/'' \<notin> set t \<and> CHR '':'' \<notin> set t \<and> CHR ''@'' \<notin> set t"

lemma tagged_parts:
  assumes "plain_tag t" and "CHR ''@'' \<notin> set repo"
  shows "Cut (tagged repo t d) (CHR ''@'') = Some (repo @ '':'' @ t, d)"
    and "explicitTag (repo @ '':'' @ t)"
    and "stripTagPattern (repo @ '':'' @ t) = Some repo"
    and "withoutTagIfDigestPinned (tagged repo t d) = repo @ ''@'' @ d"
proof -
  have a: "after_slash (repo @ '':'' @ t) = after_slash repo @ '':'' @ t"
    using assms(1) after_slash_append [of "'':'' @ t" repo] by (simp add: plain_tag_def)
  show 1: "Cut (tagged repo t d) (CHR ''@'') = Some (repo @ '':'' @ t, d)"
    using assms Cut_first [of "CHR ''@''" "repo @ '':'' @ t" d] by (simp add: tagged_def plain_tag_def)
  show 2: "explicitTag (repo @ '':'' @ t)" using a by (simp add: explicitTag_def)
  have "LastIndexByte (after_slash repo @ '':'' @ t) (CHR '':'') = Some (length (after_slash repo))"
    using assms(1) LastIndexByte_append [of "CHR '':''" t "after_slash repo"] by (simp add: plain_tag_def)
  then show 3: "stripTagPattern (repo @ '':'' @ t) = Some repo"
    using after_slash_length [of repo] unfolding stripTagPattern_def a by simp
  show "withoutTagIfDigestPinned (tagged repo t d) = repo @ ''@'' @ d"
    unfolding withoutTagIfDigestPinned_def 1 using 2 3 by simp
qed

lemma hasRegistryHost_tagged:
  "hasRegistryHost (tagged repo t d) =
     (if CHR ''/'' \<in> set repo then hasRegistryHost repo else CHR ''/'' \<in> set d)" if "plain_tag t"
proof (cases "CHR ''/'' \<in> set repo")
  case True
  then obtain a b where r: "repo = a @ CHR ''/'' # b" "CHR ''/'' \<notin> set a" by (meson split_list_first)
  have "Cut (tagged repo t d) (CHR ''/'') = Some (a, b @ '':'' @ t @ ''@'' @ d)" "Cut repo (CHR ''/'') = Some (a, b)"
    using r Cut_first by (simp_all add: tagged_def)
  then show ?thesis using True by (simp add: hasRegistryHost_def)
next
  case False
  show ?thesis
  proof (cases "CHR ''/'' \<in> set d")
    case True
    then obtain a b where d: "d = a @ CHR ''/'' # b" "CHR ''/'' \<notin> set a" by (meson split_list_first)
    have "Cut (tagged repo t d) (CHR ''/'') = Some (repo @ '':'' @ t @ ''@'' @ a, b)"
      using d False that Cut_first [of "CHR ''/''" "repo @ '':'' @ t @ ''@'' @ a" b]
      by (simp add: tagged_def plain_tag_def)
    then show ?thesis using False True by (simp add: hasRegistryHost_def)
  next
    case False
    then have "Cut (tagged repo t d) (CHR ''/'') = None"
      using \<open>CHR ''/'' \<notin> set repo\<close> that by (simp add: tagged_def plain_tag_def Cut_None_iff)
    then show ?thesis using False \<open>CHR ''/'' \<notin> set repo\<close> by (simp add: hasRegistryHost_def)
  qed
qed

lemma forms_tagged:
  assumes "plain_tag t" and "CHR ''@'' \<notin> set repo" and "d \<noteq> []"
  shows "imageMatchForms parse (tagged repo t d) True =
    (if \<not> hasRegistryHost (tagged repo t d) then [repo @ ''@'' @ d]
     else (case parse (repo @ '':'' @ t) of
             None \<Rightarrow> [repo @ ''@'' @ d]
           | Some ref \<Rightarrow> remdups_adj [repo @ ''@'' @ d, NormalizeRepository (ref_Name ref) @ ''@'' @ d]))"
  using assms tagged_parts(1,4) [OF assms(1,2), of d] tagged_parts(2) [OF assms(1,2)]
  by (simp add: imageMatchForms_def normalizedReference_def split: option.splits)

text \<open>C33: the tag spelled next to a digest is irrelevant wherever verification can be relaxed.  Two references to the
  same repository and digest that differ in the tag are excluded alike and are matched by the
  same image rule, so a pod author cannot pick a tag that is excluded, or that a lenient rule names, for a digest of
  their choice.  That parsing a reference gives a repository which does not depend on its tag is the only
  assumption on the parser.\<close>

theorem digest_pin_ignores_tag:
  assumes "plain_tag t" and "plain_tag t'" and "CHR ''@'' \<notin> set repo" and "d \<noteq> []"
    and "map_option ref_Name (parse (repo @ '':'' @ t)) = map_option ref_Name (parse (repo @ '':'' @ t'))"
  shows "isExcluded parse patterns (tagged repo t d) = isExcluded parse patterns (tagged repo t' d) \<and>
    ResolveImagePolicy pd parse pol (tagged repo t d) = ResolveImagePolicy pd parse pol (tagged repo t' d)"
proof -
  have forms: "imageMatchForms parse (tagged repo t d) True = imageMatchForms parse (tagged repo t' d) True"
    using assms(5) unfolding forms_tagged [OF assms(1,3,4)] forms_tagged [OF assms(2,3,4)]
      hasRegistryHost_tagged [OF assms(1)] hasRegistryHost_tagged [OF assms(2)]
    by (auto split: option.splits)
  have "resolve_rules pd parse pol (tagged repo t d) i rs = resolve_rules pd parse pol (tagged repo t' d) i rs" for i rs
    by (induction rs arbitrary: i) (simp_all add: matchesImageRule_def forms)
  then show ?thesis by (simp add: isExcluded_def ResolveImagePolicy_def forms)
qed

section \<open>Modes\<close>

lemma resolved_effective:
  "fst (resolve_rules pd parse pol imageRef i rs) \<in> insert pol (ApplyRule pd pol ` set rs)"
  by (induction rs arbitrary: i) auto

lemma EffectiveMode_ApplyRule: "EffectiveMode (ApplyRule pd p r) mode = EffectiveMode p mode"
  by (simp add: EffectiveMode_def ApplyRule_def clonePolicy_def Let_def)

lemma EffectiveMode_resolved: "EffectiveMode (fst (ResolveImagePolicy pd parse pol imageRef)) mode = EffectiveMode pol mode"
  using resolved_effective [of pd parse pol imageRef 0 "items (pl_Rules pol)"]
  by (auto simp: ResolveImagePolicy_def EffectiveMode_ApplyRule)


section \<open>Registry aliases\<close>

lemma IsDockerHub_lower: "IsDockerHub (ToLower r) = IsDockerHub r"
  by (simp add: IsDockerHub_def ToLower_idem)

lemma NormalizeRegistry_idem: "NormalizeRegistry (NormalizeRegistry r) = NormalizeRegistry r"
proof (cases "IsDockerHub r")
  case True
  have "IsDockerHub DockerHubRegistry" by code_simp
  then show ?thesis using True by (simp add: NormalizeRegistry_def)
next
  case False
  then show ?thesis by (simp add: NormalizeRegistry_def IsDockerHub_lower ToLower_idem)
qed

section \<open>Samples\<close>

definition sample_parse :: ref_parser where
  "sample_parse s = Some \<lparr>ref_Name = ''ghcr.io/app'', ref_Registry = ''ghcr.io'', ref_Repository = ''app'',
     ref_Tag = Some ''latest'', ref_Digest = None\<rparr>"

lemma sample_not_excluded: "\<not> isExcluded sample_parse [''ghcr.io/app:v*''] (tagged ''ghcr.io/app'' ''latest'' ''sha256:00'')"
  by code_simp

theorem digest_pin_ignores_tag_witness:
  "\<not> isExcluded sample_parse [''ghcr.io/app:v*''] (tagged ''ghcr.io/app'' ''v1'' ''sha256:00'')"
proof -
  have "isExcluded sample_parse [''ghcr.io/app:v*''] (tagged ''ghcr.io/app'' ''latest'' ''sha256:00'') =
    isExcluded sample_parse [''ghcr.io/app:v*''] (tagged ''ghcr.io/app'' ''v1'' ''sha256:00'')"
    by (rule digest_pin_ignores_tag [THEN conjunct1]) (simp_all add: plain_tag_def sample_parse_def)
  then show ?thesis using sample_not_excluded by simp
qed

definition strict_default :: Policy where
  "strict_default = (plain_policy no_sections)\<lparr>pl_Mode := ModeEnforce, pl_Rules := Some [ageless_rule]\<rparr>"


end
