(* ===== verification/Numbers.thy ===== *)
theory Numbers
  imports Result_Types
begin

text \<open>
  Decimal numbers of package strconv: \<open>Atoi\<close> for the 64-bit type int, the wrap-around of int arithmetic, and
  that parsing undoes rendering.
\<close>

definition is_digit :: "char \<Rightarrow> bool" where
  "is_digit c = (48 \<le> (of_char c :: nat) \<and> (of_char c :: nat) \<le> 57)"

definition digit_val :: "char \<Rightarrow> int" where
  "digit_val c = int (of_char c) - 48"

definition decimal :: "string \<Rightarrow> int" where
  "decimal ds = foldl (\<lambda>n c. 10 * n + digit_val c) 0 ds"

text \<open>\<open>strconv.Atoi\<close>: an optional sign, at least one digit, and a value that fits into int.\<close>

definition sign_split :: "string \<Rightarrow> bool \<times> string" where
  "sign_split s =
     (case s of [] \<Rightarrow> (False, [])
      | c # r \<Rightarrow> if c = CHR ''-'' then (True, r) else if c = CHR ''+'' then (False, r) else (False, s))"

definition Atoi :: "string \<Rightarrow> int option" where
  "Atoi s =
     (let (neg, ds) = sign_split s; n = decimal ds; v = (if neg then - n else n)
      in if ds = [] \<or> \<not> list_all is_digit ds \<or> v < int64_min \<or> int64_max < v then None else Some v)"

text \<open>Arithmetic on int wraps around.\<close>

definition wrap64 :: "int \<Rightarrow> int" where
  "wrap64 n = (n + 2 ^ 63) mod 2 ^ 64 - 2 ^ 63"

lemma wrap64_id: "int64_min \<le> n \<Longrightarrow> n \<le> int64_max \<Longrightarrow> wrap64 n = n"
  by (simp add: wrap64_def int64_min_def int64_max_def)

lemma wrap64_range: "int64_min \<le> wrap64 n" "wrap64 n \<le> int64_max"
  using pos_mod_bound [of "2 ^ 64" "n + 2 ^ 63"] by (simp_all add: wrap64_def int64_min_def int64_max_def)

lemma Atoi_range: "Atoi s = Some n \<Longrightarrow> int64_min \<le> n \<and> n \<le> int64_max"
  by (auto simp: Atoi_def Let_def split: prod.splits if_splits)

section \<open>Parsing undoes rendering\<close>

lemma foldl_decimal: "foldl (\<lambda>n c. 10 * n + digit_val c) k ds = k * 10 ^ length ds + decimal ds"
proof (induction ds arbitrary: k)
  case Nil
  show ?case by (simp add: decimal_def)
next
  case (Cons c ds)
  have "decimal (c # ds) = digit_val c * 10 ^ length ds + decimal ds"
    using Cons.IH [of "digit_val c"] by (simp add: decimal_def [of "c # ds"])
  then show ?case using Cons.IH [of "10 * k + digit_val c"] by (simp add: algebra_simps)
qed

lemma decimal_append: "decimal (xs @ ys) = decimal xs * 10 ^ length ys + decimal ys"
proof -
  have "decimal (xs @ ys) = foldl (\<lambda>n c. 10 * n + digit_val c) (decimal xs) ys" by (simp add: decimal_def)
  then show ?thesis by (simp only: foldl_decimal)
qed

lemma digit_char:
  assumes "d < 10"
  shows "is_digit (char_of (48 + d))" "digit_val (char_of (48 + d)) = int d"
    "char_of (48 + d) \<noteq> CHR ''-''" "char_of (48 + d) \<noteq> CHR ''+''"
proof -
  have n: "of_char (char_of (48 + d) :: char) = 48 + d" using assms by simp
  show "is_digit (char_of (48 + d))" "digit_val (char_of (48 + d)) = int d"
    using assms n by (simp_all add: is_digit_def digit_val_def del: of_char_of)
  have neq: "char_of (48 + d) \<noteq> c" if "of_char c < (48 :: nat)" for c :: char using n that by auto
  show "char_of (48 + d) \<noteq> CHR ''-''" "char_of (48 + d) \<noteq> CHR ''+''" by (rule neq, simp)+
qed

lemma nat_digits_correct:
  "\<exists>ds. nat_digits n acc = ds @ acc \<and> ds \<noteq> [] \<and> list_all is_digit ds \<and> decimal ds = int n \<and>
        hd ds \<noteq> CHR ''-'' \<and> hd ds \<noteq> CHR ''+''"
proof (induction n acc rule: nat_digits.induct)
  case (1 n acc)
  let ?c = "char_of (48 + n mod 10) :: char"
  have c: "is_digit ?c" "digit_val ?c = int (n mod 10)" "?c \<noteq> CHR ''-''" "?c \<noteq> CHR ''+''"
    by (rule digit_char, simp)+
  show ?case
  proof (cases "n < 10")
    case True
    then show ?thesis using c by (intro exI [of _ "[?c]"]) (simp add: nat_digits.simps decimal_def)
  next
    case False
    from 1 [OF refl False] obtain ds where
      "nat_digits (n div 10) (?c # acc) = ds @ ?c # acc" "ds \<noteq> []" "list_all is_digit ds"
      "decimal ds = int (n div 10)" "hd ds \<noteq> CHR ''-''" "hd ds \<noteq> CHR ''+''"
      by blast
    moreover have "int (n div 10) * 10 + int (n mod 10) = int n"
      by (simp add: zdiv_int zmod_int)
    ultimately show ?thesis using False c
      by (intro exI [of _ "ds @ [?c]"]) (simp add: nat_digits.simps [of n] decimal_append decimal_def [of "[?c]"])
  qed
qed

lemma Atoi_Itoa:
  assumes "int64_min \<le> n" "n \<le> int64_max"
  shows "Atoi (Itoa n) = Some n"
proof -
  obtain ds where ds: "nat_digits (nat \<bar>n\<bar>) [] = ds" "ds \<noteq> []" "list_all is_digit ds" "decimal ds = \<bar>n\<bar>"
      "hd ds \<noteq> CHR ''-''" "hd ds \<noteq> CHR ''+''"
    using nat_digits_correct [of "nat \<bar>n\<bar>" "[]"] by auto
  show ?thesis
  proof (cases "n < 0")
    case True
    then have "Itoa n = CHR ''-'' # ds" using ds(1) by (simp add: Itoa_def)
    then show ?thesis using ds(2-4) True assms by (simp add: Atoi_def sign_split_def)
  next
    case False
    then have "Itoa n = ds" using ds(1) by (simp add: Itoa_def)
    moreover have "sign_split ds = (False, ds)" using ds(2,5,6) by (cases ds) (simp_all add: sign_split_def)
    ultimately show ?thesis using ds(2-4) False assms by (simp add: Atoi_def)
  qed
qed

lemma Itoa_chars: "\<forall>c \<in> set (Itoa n). is_digit c \<or> c = CHR ''-''"
  using nat_digits_correct [of "nat \<bar>n\<bar>" "[]"] by (auto simp: Itoa_def list_all_iff)

lemma Itoa_inject: "Itoa m = Itoa n \<Longrightarrow> m = n"
proof -
  have digits: "\<exists>ds. nat_digits k [] = ds \<and> ds \<noteq> [] \<and> decimal ds = int k \<and> hd ds \<noteq> CHR ''-''" for k
    using nat_digits_correct [of k "[]"] by auto
  have value_of: "decimal (if hd (Itoa k) = CHR ''-'' then tl (Itoa k) else Itoa k) = \<bar>k\<bar> \<and> (hd (Itoa k) = CHR ''-'' \<longleftrightarrow> k < 0)" for k
    using digits [of "nat \<bar>k\<bar>"] by (cases "k < 0") (auto simp: Itoa_def)
  assume "Itoa m = Itoa n"
  then show "m = n" using value_of [of m] value_of [of n] by auto
qed

end
