(* ===== verification/Vsa.thy ===== *)
theory Vsa
  imports Images Numbers
begin

text \<open>
  Verification summary attestations (src/internal/vsa/vsa.go): a trusted verifier's statement that it has
  checked the image already.

  Decoding the JSON statement and parsing RFC 3339 times are the arguments \<open>decode\<close> and \<open>parse_time\<close>,
  the reference parser is \<open>parse\<close>, the clock is \<open>now\<close> and \<open>ctxErr\<close> is what \<open>ctx.Err()\<close> returns.
  The type int of levels and versions has 64 bits.
\<close>

record vsa_Predicate =
  vp_VerifierID :: string
  vp_TimeVerified :: string
  vp_ResourceURI :: string
  vp_PolicyURI :: string
  vp_VerificationResult :: string
  vp_VerifiedLevels :: "string list"
  vp_SLSAVersion :: string

record vsa_Statement =
  vst_Type :: string
  vst_Subject :: "(string \<times> (string \<rightharpoonup> string)) list"
  vst_PredicateType :: string
  vst_Predicate :: vsa_Predicate

record VerifyResult =
  vr_Check :: CheckResult
  vr_HardReject :: bool
  vr_MatchedVerifiers :: "TrustedVerifier list"

abbreviation ResultPassed :: string where "ResultPassed \<equiv> ''PASSED''"
abbreviation ResultFailed :: string where "ResultFailed \<equiv> ''FAILED''"
abbreviation minSLSAVersion :: string where "minSLSAVersion \<equiv> ''1.0''"

section \<open>The steps\<close>

definition verifyTrustedVerifier :: "string \<Rightarrow> Policy \<Rightarrow> string + TrustedVerifier list" where
  "verifyTrustedVerifier verID pol =
     (case s_Trust (pl_Sections pol) of
        None \<Rightarrow> Inl ''untrusted VSA verifier: no verifiers configured''
      | Some t \<Rightarrow>
          if items (tp_Verifiers t) = [] then Inl ''untrusted VSA verifier: no verifiers configured''
          else
            let matched = filter (\<lambda>v. tv_ID v = verID) (items (tp_Verifiers t))
            in if matched = [] then Inl (''untrusted VSA verifier: '' @ quoted verID) else Inr matched)"

text \<open>A digest reference is the repository name and the digest.\<close>

definition parseDigestRef :: "ref_parser \<Rightarrow> string \<Rightarrow> Reference option \<Rightarrow> string + string \<times> string" where
  "parseDigestRef parse ref parsed =
     (case (case parsed of None \<Rightarrow> parse ref | Some r \<Rightarrow> Some r) of
        None \<Rightarrow> Inl ''parsing reference''
      | Some r \<Rightarrow>
          (case ref_Digest r of
             None \<Rightarrow> Inl ''reference is not digest-pinned''
           | Some d \<Rightarrow> Inr (ref_Name r, d)))"

definition verifyResourceURI :: "ref_parser \<Rightarrow> string \<Rightarrow> string \<Rightarrow> Reference option \<Rightarrow> string + string \<times> string" where
  "verifyResourceURI parse resourceURI imageRef parsedImageRef =
     (if resourceURI = [] then Inl ''VSA resource URI mismatch: empty resource URI''
      else if CHR ''@'' \<notin> set resourceURI then
        Inl (''VSA resource URI mismatch: resource URI '' @ quoted resourceURI @ '' is tag-based (not digest-pinned)'')
      else
        (case parseDigestRef parse resourceURI None of
           Inl e \<Rightarrow> Inl (''VSA resource URI mismatch: invalid resource URI '' @ quoted resourceURI @ '': '' @ e)
         | Inr (resourceName, resourceDigest) \<Rightarrow>
             (case parseDigestRef parse imageRef parsedImageRef of
                Inl e \<Rightarrow> Inl (''VSA resource URI mismatch: image reference '' @ quoted imageRef @ '': '' @ e)
              | Inr (imageName, imageDigest) \<Rightarrow>
                  if NormalizeRepository resourceName \<noteq> NormalizeRepository imageName \<or> resourceDigest \<noteq> imageDigest
                  then Inl (''VSA resource URI mismatch: expected '' @ quoted imageRef @ '', got '' @ quoted resourceURI)
                  else Inr (imageName, imageDigest))))"

definition verifyBinding :: "ref_parser \<Rightarrow> vsa_Statement \<Rightarrow> string \<Rightarrow> Reference option \<Rightarrow> string option" where
  "verifyBinding parse stmt imageRef parsedImageRef =
     (case verifyResourceURI parse (vp_ResourceURI (vst_Predicate stmt)) imageRef parsedImageRef of
        Inl e \<Rightarrow> Some e
      | Inr (imageName, imageDigest) \<Rightarrow>
          if list_ex (\<lambda>s. MatchDigestInMap imageDigest (snd s)) (vst_Subject stmt) then None
          else Some (''VSA subject digest mismatch: no subject matches '' @ quoted imageDigest))"

abbreviation slsaBuildLevelPrefix :: string where "slsaBuildLevelPrefix \<equiv> ''SLSA_BUILD_LEVEL_''"

definition extractLevelNumber :: "string \<Rightarrow> int" where
  "extractLevelNumber level =
     (if \<not> HasPrefix level slsaBuildLevelPrefix then 0
      else (case Atoi (drop (length slsaBuildLevelPrefix) level) of None \<Rightarrow> 0 | Some n \<Rightarrow> n))"

definition meetsMinimumLevel :: "string \<Rightarrow> string \<Rightarrow> bool" where
  "meetsMinimumLevel level required = (extractLevelNumber level \<ge> extractLevelNumber required)"

definition verifyLevels :: "string list \<Rightarrow> Policy \<Rightarrow> string option" where
  "verifyLevels levels pol =
     (case s_VSA (pl_Sections pol) of
        None \<Rightarrow> None
      | Some v \<Rightarrow>
          if vsa_MinimumLevel v = 0 then None
          else
            let required = slsaBuildLevelPrefix @ Itoa (vsa_MinimumLevel v)
            in if list_ex (\<lambda>level. meetsMinimumLevel level required) levels then None
               else Some (''insufficient SLSA verification level: required '' @ required @ '', got ['' @ Join levels '' '' @ '']''))"

definition parseVersion :: "string \<Rightarrow> int \<times> int" where
  "parseVersion ver =
     (let (part0, part1) = (case Cut ver (CHR ''.'') of None \<Rightarrow> (ver, None) | Some (a, b) \<Rightarrow> (a, Some b))
      in (case Atoi (TrimPrefix part0 ''v'') of
            None \<Rightarrow> (-1, 0)
          | Some major \<Rightarrow>
              (case part1 of
                 None \<Rightarrow> (major, 0)
               | Some p \<Rightarrow> (case Atoi p of None \<Rightarrow> (major, 0) | Some minor \<Rightarrow> (major, minor)))))"

definition compareVersions :: "string \<Rightarrow> string \<Rightarrow> int" where
  "compareVersions a b =
     (let (aMajor, aMinor) = parseVersion a; (bMajor, bMinor) = parseVersion b
      in if aMajor \<noteq> bMajor then wrap64 (aMajor - bMajor) else wrap64 (aMinor - bMinor))"

definition verifySLSAVersion :: "string \<Rightarrow> string option" where
  "verifySLSAVersion ver =
     (if ver = [] then None
      else if compareVersions ver minSLSAVersion < 0 then
        Some (''SLSA version below minimum: got '' @ quoted ver @ '', minimum '' @ quoted minSLSAVersion)
      else None)"

definition verifyPolicyURI :: "string \<Rightarrow> Policy \<Rightarrow> string option" where
  "verifyPolicyURI uri pol =
     (case s_VSA (pl_Sections pol) of
        None \<Rightarrow> None
      | Some v \<Rightarrow>
          if vsa_Policy v = [] \<or> uri = vsa_Policy v then None
          else Some (''VSA policy URI mismatch: expected '' @ quoted (vsa_Policy v) @ '', got '' @ quoted uri))"

definition vsa_verifyFreshness :: "(string \<Rightarrow> time option) \<Rightarrow> time \<Rightarrow> string \<Rightarrow> Policy \<Rightarrow> string option" where
  "vsa_verifyFreshness parse_time now timeVerified pol =
     (case parse_time (ToUpper timeVerified) of
        None \<Rightarrow> Some (''parsing time_verified '' @ quoted timeVerified)
      | Some verified \<Rightarrow>
          let maxAge = (case s_VSA (pl_Sections pol) of
                          None \<Rightarrow> None
                        | Some v \<Rightarrow> if vsa_MaxAge v \<noteq> [] then Some (vsa_MaxAgeDuration v) else None)
          in map_option err_msg
               (VerifyFreshness now verified maxAge ''verified''
                  (errors_New ''VSA timeVerified is in the future'' []) (errors_New ''VSA is stale'' [])
                  (errors_New ''VSA is stale'' [])))"

fun maxVerifiedLevel :: "int \<Rightarrow> string list \<Rightarrow> int" where
  "maxVerifiedLevel result [] = result"
| "maxVerifiedLevel result (level # levels) =
     maxVerifiedLevel (if extractLevelNumber level > result then extractLevelNumber level else result) levels"

definition predicateMetadata :: "vsa_Predicate \<Rightarrow> metadata" where
  "predicateMetadata pred =
     [''verifierID'' \<mapsto> MStr (vp_VerifierID pred), ''result'' \<mapsto> MStr (vp_VerificationResult pred),
      ''level'' \<mapsto> MInt (of_int (maxVerifiedLevel 0 (vp_VerifiedLevels pred)))]"

definition withMetadata :: "VerifyResult \<Rightarrow> metadata \<Rightarrow> TrustedVerifier list \<Rightarrow> VerifyResult" where
  "withMetadata vr meta matched =
     vr\<lparr>vr_Check := (vr_Check vr)\<lparr>cr_Metadata := Some meta\<rparr>, vr_MatchedVerifiers := matched\<rparr>"

definition vsa_passResult :: VerifyResult where
  "vsa_passResult = \<lparr>vr_Check = PassResult CheckTypeVSA ''VSA verification passed'', vr_HardReject = False, vr_MatchedVerifiers = []\<rparr>"

definition vsa_failResult :: "string \<Rightarrow> VerifyResult" where
  "vsa_failResult detail = \<lparr>vr_Check = FailResult CheckTypeVSA detail None, vr_HardReject = False, vr_MatchedVerifiers = []\<rparr>"

definition hardRejectResult :: VerifyResult where
  "hardRejectResult =
     \<lparr>vr_Check = FailResult CheckTypeVSA ''trusted verifier reported FAILED verification'' None, vr_HardReject = True,
      vr_MatchedVerifiers = []\<rparr>"

definition untrustedResult :: "string \<Rightarrow> VerifyResult" where
  "untrustedResult detail = \<lparr>vr_Check = SoftFailResult CheckTypeVSA detail None, vr_HardReject = False, vr_MatchedVerifiers = []\<rparr>"

definition staleResult :: "string \<Rightarrow> VerifyResult" where
  "staleResult detail = \<lparr>vr_Check = SoftFailResult CheckTypeVSA detail None, vr_HardReject = False, vr_MatchedVerifiers = []\<rparr>"

record vsa_env =
  ve_decode :: "string \<Rightarrow> vsa_Statement option"
  ve_parse :: ref_parser
  ve_parse_time :: "string \<Rightarrow> time option"

definition vsa_Verify ::
  "vsa_env \<Rightarrow> goerr option \<Rightarrow> time \<Rightarrow> string \<Rightarrow> Policy \<Rightarrow> string \<Rightarrow> Reference option \<Rightarrow> goerr + VerifyResult" where
  "vsa_Verify env ctxErr now att pol imageRef parsedImageRef =
     (case ctxErr of
        Some e \<Rightarrow> Inl (Errorf_w ''verification cancelled'' e)
      | None \<Rightarrow>
     (case ve_decode env att of
        None \<Rightarrow> Inl (errors_New ''invalid VSA attestation'' [ErrInvalidVSA])
      | Some stmt \<Rightarrow>
          let pred = vst_Predicate stmt; meta = predicateMetadata pred
          in (case verifyTrustedVerifier (vp_VerifierID pred) pol of
                Inl e \<Rightarrow> Inr (withMetadata (untrustedResult e) meta [])
              | Inr matched \<Rightarrow>
             (case verifyBinding (ve_parse env) stmt imageRef parsedImageRef of
                Some e \<Rightarrow> Inr (withMetadata (vsa_failResult e) meta matched)
              | None \<Rightarrow>
                  if vp_VerificationResult pred = ResultFailed then Inr (withMetadata hardRejectResult meta matched)
                  else if vp_VerificationResult pred \<noteq> ResultPassed then
                    Inr (withMetadata
                           (untrustedResult (''unexpected verification result: '' @ quoted (vp_VerificationResult pred)))
                           meta matched)
                  else
             (case verifyLevels (vp_VerifiedLevels pred) pol of
                Some e \<Rightarrow> Inr (withMetadata (vsa_failResult e) meta matched)
              | None \<Rightarrow>
             (case verifySLSAVersion (vp_SLSAVersion pred) of
                Some e \<Rightarrow> Inr (withMetadata (vsa_failResult e) meta matched)
              | None \<Rightarrow>
             (case verifyPolicyURI (vp_PolicyURI pred) pol of
                Some e \<Rightarrow> Inr (withMetadata (vsa_failResult e) meta matched)
              | None \<Rightarrow>
             (case vsa_verifyFreshness (ve_parse_time env) now (vp_TimeVerified pred) pol of
                Some e \<Rightarrow> Inr (withMetadata (staleResult e) meta matched)
              | None \<Rightarrow> Inr (withMetadata vsa_passResult meta matched)))))))))"


section \<open>What a passing and what a rejecting summary prove\<close>

text \<open>The summary is about the image: its resource and the image are the same repository at the same digest, and a
  subject of the statement carries that digest.\<close>

definition bound_to_image :: "ref_parser \<Rightarrow> vsa_Statement \<Rightarrow> string \<Rightarrow> Reference option \<Rightarrow> bool" where
  "bound_to_image parse stmt imageRef parsed =
     (\<exists>res img d. CHR ''@'' \<in> set (vp_ResourceURI (vst_Predicate stmt)) \<and>
        parse (vp_ResourceURI (vst_Predicate stmt)) = Some res \<and> ref_Digest res = Some d \<and>
        (case parsed of None \<Rightarrow> parse imageRef | Some r \<Rightarrow> Some r) = Some img \<and> ref_Digest img = Some d \<and>
        NormalizeRepository (ref_Name res) = NormalizeRepository (ref_Name img) \<and>
        (\<exists>s \<in> set (vst_Subject stmt). MatchDigestInMap d (snd s)))"

definition trusted_ids :: "Policy \<Rightarrow> string set" where
  "trusted_ids pol = (case s_Trust (pl_Sections pol) of None \<Rightarrow> {} | Some t \<Rightarrow> tv_ID ` set (items (tp_Verifiers t)))"

definition level_reached :: "Policy \<Rightarrow> string list \<Rightarrow> bool" where
  "level_reached pol levels =
     (case s_VSA (pl_Sections pol) of
        None \<Rightarrow> True
      | Some v \<Rightarrow> vsa_MinimumLevel v = 0 \<or> (\<exists>l \<in> set levels. vsa_MinimumLevel v \<le> extractLevelNumber l))"

definition version_accepted :: "string \<Rightarrow> bool" where
  "version_accepted ver =
     (ver = [] \<or> fst (parseVersion ver) > 1 \<or> fst (parseVersion ver) = 1 \<and> snd (parseVersion ver) \<ge> 0
      \<or> fst (parseVersion ver) = int64_min)"

definition policy_accepted :: "Policy \<Rightarrow> string \<Rightarrow> bool" where
  "policy_accepted pol uri =
     (case s_VSA (pl_Sections pol) of None \<Rightarrow> True | Some v \<Rightarrow> vsa_Policy v = [] \<or> uri = vsa_Policy v)"

lemma verifyTrustedVerifier_Inr:
  "verifyTrustedVerifier i pol = Inr ms \<longleftrightarrow>
     i \<in> trusted_ids pol \<and> (\<exists>t. s_Trust (pl_Sections pol) = Some t \<and> ms = filter (\<lambda>v. tv_ID v = i) (items (tp_Verifiers t)))"
  by (auto simp: verifyTrustedVerifier_def trusted_ids_def Let_def filter_empty_conv split: option.split)

lemma verifyTrustedVerifier_Inl: "(\<exists>e. verifyTrustedVerifier i pol = Inl e) \<longleftrightarrow> i \<notin> trusted_ids pol"
  by (auto simp: verifyTrustedVerifier_def trusted_ids_def Let_def filter_empty_conv split: option.split)

lemma parseDigestRef_Inr:
  "parseDigestRef parse ref parsed = Inr (n, d) \<longleftrightarrow>
     (\<exists>r. (case parsed of None \<Rightarrow> parse ref | Some r \<Rightarrow> Some r) = Some r \<and> ref_Name r = n \<and> ref_Digest r = Some d)"
  by (auto simp: parseDigestRef_def split: option.splits)

lemma verifyResourceURI_Inr:
  "verifyResourceURI parse uri ref parsed = Inr (n, d) \<longleftrightarrow>
     CHR ''@'' \<in> set uri \<and> parseDigestRef parse ref parsed = Inr (n, d) \<and>
     (\<exists>m. parseDigestRef parse uri None = Inr (m, d) \<and> NormalizeRepository m = NormalizeRepository n)"
  by (auto simp: verifyResourceURI_def split: sum.split if_splits)

lemma verifyBinding_None: "verifyBinding parse stmt ref parsed = None \<longleftrightarrow> bound_to_image parse stmt ref parsed"
proof -
  have "verifyBinding parse stmt ref parsed = None \<longleftrightarrow>
      (\<exists>n d. verifyResourceURI parse (vp_ResourceURI (vst_Predicate stmt)) ref parsed = Inr (n, d) \<and>
        (\<exists>s \<in> set (vst_Subject stmt). MatchDigestInMap d (snd s)))"
    by (auto simp: verifyBinding_def list_ex_iff split: sum.split prod.split)
  then show ?thesis unfolding verifyResourceURI_Inr parseDigestRef_Inr bound_to_image_def by auto
qed

lemma extractLevelNumber_required:
  "int64_min \<le> n \<Longrightarrow> n \<le> int64_max \<Longrightarrow> extractLevelNumber (slsaBuildLevelPrefix @ Itoa n) = n"
  using HasPrefix_append [of slsaBuildLevelPrefix "Itoa n"] by (simp add: extractLevelNumber_def Atoi_Itoa)

definition level_in_int :: "Policy \<Rightarrow> bool" where
  "level_in_int pol =
     (case s_VSA (pl_Sections pol) of
        None \<Rightarrow> True | Some v \<Rightarrow> int64_min \<le> vsa_MinimumLevel v \<and> vsa_MinimumLevel v \<le> int64_max)"

lemma verifyLevels_None:
  assumes "level_in_int pol"
  shows "verifyLevels levels pol = None \<longleftrightarrow> level_reached pol levels"
proof (cases "s_VSA (pl_Sections pol)")
  case None
  then show ?thesis by (simp add: verifyLevels_def level_reached_def)
next
  case (Some v)
  then have "extractLevelNumber (slsaBuildLevelPrefix @ Itoa (vsa_MinimumLevel v)) = vsa_MinimumLevel v"
    using assms by (intro extractLevelNumber_required) (simp_all add: level_in_int_def)
  then have "meetsMinimumLevel l (slsaBuildLevelPrefix @ Itoa (vsa_MinimumLevel v)) \<longleftrightarrow>
      vsa_MinimumLevel v \<le> extractLevelNumber l" for l
    by (simp only: meetsMinimumLevel_def)
  then show ?thesis using Some by (auto simp: verifyLevels_def level_reached_def Let_def list_ex_iff)
qed

lemma parseVersion_range: "int64_min \<le> fst (parseVersion v)" "fst (parseVersion v) \<le> int64_max"
    "int64_min \<le> snd (parseVersion v)" "snd (parseVersion v) \<le> int64_max"
  by (auto simp: parseVersion_def Let_def int64_min_def int64_max_def
           dest: Atoi_range [unfolded int64_min_def int64_max_def] split: option.split prod.split)

lemma verifySLSAVersion_None: "verifySLSAVersion v = None \<longleftrightarrow> version_accepted v"
proof -
  have one: "parseVersion minSLSAVersion = (1, 0)" by code_simp
  obtain ma mi where p: "parseVersion v = (ma, mi)" by (rule prod.exhaust)
  note r = parseVersion_range [of v, unfolded p fst_conv snd_conv]
  have "compareVersions v minSLSAVersion < 0 \<longleftrightarrow> \<not> (ma > 1 \<or> ma = 1 \<and> mi \<ge> 0 \<or> ma = int64_min)"
  proof (cases "ma = int64_min")
    case True
    then show ?thesis by (simp add: compareVersions_def p one wrap64_def int64_min_def)
  next
    case False
    then have "wrap64 (ma - 1) = ma - 1" "wrap64 mi = mi"
      using r by (intro wrap64_id; simp add: int64_min_def int64_max_def)+
    then show ?thesis using False by (auto simp: compareVersions_def p one)
  qed
  then show ?thesis by (auto simp: verifySLSAVersion_def version_accepted_def p)
qed

lemma verifyPolicyURI_None: "verifyPolicyURI uri pol = None \<longleftrightarrow> policy_accepted pol uri"
  by (auto simp: verifyPolicyURI_def policy_accepted_def split: option.split)

lemmas vsa_result_defs = withMetadata_def vsa_passResult_def vsa_failResult_def hardRejectResult_def untrustedResult_def
  staleResult_def check_result_defs

text \<open>C20: what a verification summary proves.  A summary passes exactly when it claims a trusted verifier, is about the
  image (same repository under every Docker Hub alias, same digest in resource and subject), reports PASSED, reaches the
  required level, has an acceptable version, names the required policy and is fresh.  It rejects the image for good exactly when it
  claims a trusted verifier, is about the image and reports FAILED: a summary about another image never blocks.\<close>

theorem vsa_verdict_exact:
  assumes "level_in_int pol" "ve_decode env att = Some stmt" "vst_Predicate stmt = p"
  shows "\<exists>r. vsa_Verify env None now att pol imageRef parsed = Inr r \<and>
           (cr_Passed (vr_Check r) \<longleftrightarrow>
              vp_VerifierID p \<in> trusted_ids pol \<and> bound_to_image (ve_parse env) stmt imageRef parsed \<and>
              vp_VerificationResult p = ResultPassed \<and> level_reached pol (vp_VerifiedLevels p) \<and>
              version_accepted (vp_SLSAVersion p) \<and> policy_accepted pol (vp_PolicyURI p) \<and>
              vsa_verifyFreshness (ve_parse_time env) now (vp_TimeVerified p) pol = None) \<and>
           (vr_HardReject r \<longleftrightarrow>
              vp_VerifierID p \<in> trusted_ids pol \<and> bound_to_image (ve_parse env) stmt imageRef parsed \<and>
              vp_VerificationResult p = ResultFailed) \<and>
           (\<forall>v \<in> set (vr_MatchedVerifiers r). tv_ID v = vp_VerifierID p)"
proof (cases "verifyTrustedVerifier (vp_VerifierID p) pol")
  case (Inl e)
  then have "vp_VerifierID p \<notin> trusted_ids pol" using verifyTrustedVerifier_Inl by blast
  moreover have "vsa_Verify env None now att pol imageRef parsed = Inr (withMetadata (untrustedResult e) (predicateMetadata p) [])"
    using Inl assms(2,3) by (simp add: vsa_Verify_def)
  ultimately show ?thesis by (simp add: vsa_result_defs)
next
  case (Inr matched)
  then have ids: "vp_VerifierID p \<in> trusted_ids pol" "\<forall>v \<in> set matched. tv_ID v = vp_VerifierID p"
    by (auto simp: verifyTrustedVerifier_Inr)
  show ?thesis
  proof (cases "verifyBinding (ve_parse env) stmt imageRef parsed")
    case (Some e)
    then have "\<not> bound_to_image (ve_parse env) stmt imageRef parsed"
      using verifyBinding_None [of "ve_parse env" stmt imageRef parsed] by simp
    then show ?thesis using Some Inr ids(2) assms(2,3)
      by (simp add: vsa_Verify_def vsa_result_defs)
  next
    case None
    let ?e = "\<lambda>f x. withMetadata (f x) (predicateMetadata p) matched"
    let ?r = "if vp_VerificationResult p = ResultFailed then withMetadata hardRejectResult (predicateMetadata p) matched
        else if vp_VerificationResult p \<noteq> ResultPassed then
          ?e untrustedResult (''unexpected verification result: '' @ quoted (vp_VerificationResult p))
        else (case verifyLevels (vp_VerifiedLevels p) pol of Some e \<Rightarrow> ?e vsa_failResult e | None \<Rightarrow>
             (case verifySLSAVersion (vp_SLSAVersion p) of Some e \<Rightarrow> ?e vsa_failResult e | None \<Rightarrow>
             (case verifyPolicyURI (vp_PolicyURI p) pol of Some e \<Rightarrow> ?e vsa_failResult e | None \<Rightarrow>
             (case vsa_verifyFreshness (ve_parse_time env) now (vp_TimeVerified p) pol of Some e \<Rightarrow> ?e staleResult e
              | None \<Rightarrow> withMetadata vsa_passResult (predicateMetadata p) matched))))"
    have "vsa_Verify env None now att pol imageRef parsed = Inr ?r"
      using None Inr assms(2,3) by (simp add: vsa_Verify_def Let_def split: option.split)
    moreover have "cr_Passed (vr_Check ?r) \<longleftrightarrow>
        vp_VerificationResult p = ResultPassed \<and> level_reached pol (vp_VerifiedLevels p) \<and>
        version_accepted (vp_SLSAVersion p) \<and> policy_accepted pol (vp_PolicyURI p) \<and>
        vsa_verifyFreshness (ve_parse_time env) now (vp_TimeVerified p) pol = None"
      unfolding verifyLevels_None [OF assms(1), symmetric] verifySLSAVersion_None [symmetric] verifyPolicyURI_None [symmetric]
      by (simp add: vsa_result_defs split: option.split)
    moreover have "vr_HardReject ?r \<longleftrightarrow> vp_VerificationResult p = ResultFailed" "vr_MatchedVerifiers ?r = matched"
      by (simp_all add: vsa_result_defs split: option.split)
    ultimately show ?thesis using ids None [unfolded verifyBinding_None] by (intro exI [of _ ?r]) simp
  qed
qed

definition sample_verifier :: TrustedVerifier where
  "sample_verifier = \<lparr>tv_ID = ''v'', tv_Keys = [''k.pub''], tv_NotBefore = [], tv_NotAfter = [], tv_Identities = [],
     tv_NotBeforeTime = 0, tv_NotAfterTime = 0\<rparr>"

definition sample_vsa_policy :: Policy where
  "sample_vsa_policy = plain_policy (no_sections\<lparr>
     s_Trust := Some \<lparr>tp_Builders = None, tp_Verifiers = Some [sample_verifier], tp_Issuers = None, tp_SANPatterns = None,
                      tp_Sources = None, tp_BuildTypes = None\<rparr>,
     s_VSA := Some \<lparr>vsa_MissingPolicy = [], vsa_MinimumLevel = 3, vsa_MaxAge = [], vsa_MaxAgeDuration = 0, vsa_Policy = []\<rparr>\<rparr>)"

definition sample_digest :: string where
  "sample_digest = ''sha256:'' @ replicate 64 (CHR ''a'')"

definition sample_vsa_env :: vsa_env where
  "sample_vsa_env = \<lparr>ve_decode = \<lambda>att. if att = ''att'' then
       Some \<lparr>vst_Type = [], vst_Subject = [([], [''sha256'' \<mapsto> replicate 64 (CHR ''a'')])], vst_PredicateType = [],
             vst_Predicate = \<lparr>vp_VerifierID = ''v'', vp_TimeVerified = ''t'', vp_ResourceURI = ''docker.io/app@d'', vp_PolicyURI = [],
               vp_VerificationResult = ''PASSED'', vp_VerifiedLevels = [''SLSA_BUILD_LEVEL_3''], vp_SLSAVersion = ''v1.1''\<rparr>\<rparr>
     else None,
     ve_parse = \<lambda>s. Some \<lparr>ref_Name = (if s = ''img'' then ''index.docker.io/library/app'' else ''docker.io/app''), ref_Registry = [],
       ref_Repository = [], ref_Tag = None, ref_Digest = Some sample_digest\<rparr>,
     ve_parse_time = \<lambda>s. if s = ''T'' then Some 0 else None\<rparr>"

theorem vsa_verdict_exact_witness:
  "\<exists>r. vsa_Verify sample_vsa_env None minutes ''att'' sample_vsa_policy ''img'' None = Inr r \<and> cr_Passed (vr_Check r)"
proof -
  define stmt where "stmt = the (ve_decode sample_vsa_env ''att'')"
  have d: "ve_decode sample_vsa_env ''att'' = Some stmt" by (simp add: stmt_def sample_vsa_env_def)
  have "level_in_int sample_vsa_policy" by code_simp
  note ex = vsa_verdict_exact [OF this d refl, of minutes "''img''" None]
  have "vp_VerifierID (vst_Predicate stmt) \<in> trusted_ids sample_vsa_policy"
    "verifyBinding (ve_parse sample_vsa_env) stmt ''img'' None = None"
    "vp_VerificationResult (vst_Predicate stmt) = ResultPassed"
    "level_reached sample_vsa_policy (vp_VerifiedLevels (vst_Predicate stmt))"
    "version_accepted (vp_SLSAVersion (vst_Predicate stmt))"
    "policy_accepted sample_vsa_policy (vp_PolicyURI (vst_Predicate stmt))"
    "vsa_verifyFreshness (ve_parse_time sample_vsa_env) minutes (vp_TimeVerified (vst_Predicate stmt)) sample_vsa_policy = None"
    unfolding stmt_def by code_simp+
  then show ?thesis using ex by (auto simp: verifyBinding_None)
qed

text \<open>A version whose major number is the least int passes the version check: the subtraction of the comparison wraps around.\<close>

lemma least_version_accepted: "verifySLSAVersion ''-9223372036854775808.0'' = None"
  by code_simp

end
