(* ===== verification/Attestations.thy ===== *)
theory Attestations
  imports Vsa Policy_Validate
begin

text \<open>
  Attestations and who may sign them: the types of src/internal/attestation/attestation.go, the binding of in-toto
  statements to an image (src/internal/intoto/intoto.go), and the use of attestations by the verifier
  (check_vsa.go, and the routing and builder binding of check.go and check_runners.go in src/internal/verifier).

  Finding attestations in a registry and checking their signatures is not modelled: an attestation here has been
  verified, and its signer is the identity that was established.
\<close>

section \<open>Attestations\<close>

record SignerIdentity =
  si_KeyPath :: string
  si_KeyPaths :: "string list"
  si_Issuer :: string
  si_SAN :: string

type_synonym SignatureType = string

abbreviation SignatureTypeSigstore :: SignatureType where "SignatureTypeSigstore \<equiv> ''sigstore''"
abbreviation SignatureTypeNotation :: SignatureType where "SignatureTypeNotation \<equiv> ''notation''"

record VerifiedAttestation =
  va_PredicateType :: string
  va_Payload :: string
  va_Digest :: string
  va_SignatureType :: SignatureType
  va_Signer :: SignerIdentity
  va_Bundle :: string
  va_NotationMediaType :: string
  va_NotationSubjectDigest :: string
  va_NotationSubjectSize :: int
  va_NotationSubjectMediaType :: string

record TrustedKeyRef =
  tk_Path :: string
  tk_NotBefore :: time
  tk_NotAfter :: time

record FetchOptions =
  fo_TrustedIssuers :: "string list option"
  fo_TrustedKeys :: "TrustedKeyRef list"
  fo_SANPatterns :: "string list option"
  fo_RequireTransparencyLog :: bool
  fo_Timeout :: duration
  fo_Digest :: string
  fo_ParsedRef :: "Reference option"

abbreviation PredicateSLSAProvenanceV1 :: string where "PredicateSLSAProvenanceV1 \<equiv> ''https://slsa.dev/provenance/v1''"
abbreviation PredicateVSA :: string where "PredicateVSA \<equiv> ''https://slsa.dev/verification_summary/v1''"
abbreviation PredicateOpenVEX :: string where "PredicateOpenVEX \<equiv> ''https://openvex.dev/ns''"
abbreviation PredicateSPDX :: string where "PredicateSPDX \<equiv> ''https://spdx.dev/Document''"
abbreviation PredicateCycloneDX :: string where "PredicateCycloneDX \<equiv> ''https://cyclonedx.org/bom''"
abbreviation PredicateSCAI :: string where "PredicateSCAI \<equiv> ''https://in-toto.io/attestation/scai/v0.3''"
abbreviation PredicateSLSASourceV1 :: string where "PredicateSLSASourceV1 \<equiv> ''https://slsa.dev/source/v1''"
abbreviation PredicateBuildEnv :: string where "PredicateBuildEnv \<equiv> ''https://in-toto.io/attestation/build-env/v1''"
abbreviation PredicateVulnScan :: string where "PredicateVulnScan \<equiv> ''https://in-toto.io/attestation/vulns/v0.1''"
abbreviation PredicateVulnScanV02 :: string where "PredicateVulnScanV02 \<equiv> ''https://in-toto.io/attestation/vulns/v0.2''"
abbreviation PredicateTestResult :: string where "PredicateTestResult \<equiv> ''https://in-toto.io/attestation/test-result/v0.1''"
abbreviation PredicateRelease :: string where "PredicateRelease \<equiv> ''https://in-toto.io/attestation/release/v0.1''"
abbreviation PredicateRuntimeTrace :: string where
  "PredicateRuntimeTrace \<equiv> ''https://in-toto.io/attestation/runtime-trace/v0.1''"
abbreviation PredicateScorecard :: string where "PredicateScorecard \<equiv> ''https://scorecard.dev/result/v0.1''"
abbreviation PredicateSLSAProvenanceV02 :: string where "PredicateSLSAProvenanceV02 \<equiv> ''https://slsa.dev/provenance/v0.2''"
abbreviation PredicateCosignSignature :: string where "PredicateCosignSignature \<equiv> ''https://sigstore.dev/cosign/sign/v1''"
abbreviation PredicateBaselineSBOM :: string where
  "PredicateBaselineSBOM \<equiv> ''https://nri-supply-chain.dev/baseline-sbom/v1''"

definition MatchesAny :: "SignerIdentity \<Rightarrow> (string \<Rightarrow> string \<Rightarrow> string \<Rightarrow> bool) \<Rightarrow> bool" where
  "MatchesAny s match =
     (if si_KeyPaths s = [] then match (si_KeyPath s) (si_Issuer s) (si_SAN s)
      else list_ex (\<lambda>keyPath. match keyPath (si_Issuer s) (si_SAN s)) (si_KeyPaths s))"

section \<open>In-toto statements\<close>

record intoto_Statement =
  is_Subject :: "(string \<rightharpoonup> string) list"
  is_Predicate :: string

definition SubjectMatchesDigest :: "(string \<rightharpoonup> string) list \<Rightarrow> string \<Rightarrow> bool" where
  "SubjectMatchesDigest subjects imageDigest = list_ex (MatchDigestInMap imageDigest) subjects"

definition checkSubjectBinding :: "(string \<rightharpoonup> string) list \<Rightarrow> string \<Rightarrow> goerr option" where
  "checkSubjectBinding subjects imageDigest =
     (if imageDigest \<noteq> [] \<and> subjects = [] then
        Some (errors_New (''statement has no subjects for digest binding: digest '' @ quoted imageDigest
                @ '' available but statement has no subjects'') [])
      else if imageDigest \<noteq> [] \<and> \<not> SubjectMatchesDigest subjects imageDigest then
        Some (errors_New (''subject digest mismatch: none of the subjects match '' @ quoted imageDigest) [])
      else if imageDigest = [] \<and> subjects \<noteq> [] then
        Some (errors_New (''statement has subjects but no digest for binding: statement has ''
                @ Itoa (int (length subjects)) @ '' subjects but no digest for binding'') [])
      else None)"

definition VerifySubjectAndExtractPredicate ::
  "(string \<Rightarrow> intoto_Statement option) \<Rightarrow> string \<Rightarrow> string \<Rightarrow> goerr + string" where
  "VerifySubjectAndExtractPredicate decode att imageDigest =
     (case decode att of
        None \<Rightarrow> Inl (errors_New ''invalid in-toto statement'' [])
      | Some stmt \<Rightarrow>
          (case checkSubjectBinding (is_Subject stmt) imageDigest of
             Some e \<Rightarrow> Inl e
           | None \<Rightarrow>
               let predicate = TrimSpace (is_Predicate stmt)
               in if predicate \<noteq> [] \<and> predicate \<noteq> ''null'' then Inr (is_Predicate stmt)
                  else if is_Subject stmt \<noteq> [] then
                    Inl (errors_New ''invalid in-toto statement: statement has no predicate'' [])
                  else Inr att))"

lemma checkSubjectBinding_None:
  "checkSubjectBinding subjects d = None \<longleftrightarrow> (if d = [] then subjects = [] else SubjectMatchesDigest subjects d)"
  by (auto simp: checkSubjectBinding_def SubjectMatchesDigest_def)

lemma VerifySubjectAndExtractPredicate_bound:
  assumes "VerifySubjectAndExtractPredicate decode att d = Inr p" "d \<noteq> []"
  obtains stmt where "decode att = Some stmt" "p = is_Predicate stmt" "\<exists>s \<in> set (is_Subject stmt). MatchDigestInMap d s"
    "TrimSpace p \<notin> {[], ''null''}"
  using assms
  by (auto simp: VerifySubjectAndExtractPredicate_def checkSubjectBinding_None SubjectMatchesDigest_def list_ex_iff Let_def
           split: option.splits if_splits)

section \<open>Keys of builders\<close>

definition builderOnlyKeys :: "TrustPolicy option \<Rightarrow> string list" where
  "builderOnlyKeys trust =
     (case trust of
        None \<Rightarrow> []
      | Some t \<Rightarrow>
          let verifierKeys = map filepath_Clean (concat (map tv_Keys (items (tp_Verifiers t))))
          in filter (\<lambda>k. filepath_Clean k \<notin> set verifierKeys) (concat (map tb_Keys (items (tp_Builders t)))))"

definition signedOnlyWithBuilderKeys :: "SignerIdentity \<Rightarrow> string list \<Rightarrow> bool" where
  "signedOnlyWithBuilderKeys signer builderOnly =
     (if si_KeyPaths signer = [] then si_KeyPath signer \<noteq> [] \<and> si_KeyPath signer \<in> set builderOnly
      else list_all (\<lambda>k. k \<in> set builderOnly) (si_KeyPaths signer))"

definition isProvenancePredicate :: "string \<Rightarrow> bool" where
  "isProvenancePredicate predicateType =
     (predicateType = PredicateSLSAProvenanceV1 \<or> predicateType = PredicateSLSAProvenanceV02)"

definition scopeBuilderKeys :: "VerifiedAttestation list \<Rightarrow> Policy \<Rightarrow> VerifiedAttestation list" where
  "scopeBuilderKeys attestations pol =
     (let builderOnly = builderOnlyKeys (s_Trust (pl_Sections pol))
      in if builderOnly = [] then attestations
         else filter (\<lambda>att. \<not> (signedOnlyWithBuilderKeys (va_Signer att) builderOnly \<and>
                             \<not> isProvenancePredicate (va_PredicateType att))) attestations)"

text \<open>The keys a fetch trusts: those of verifiers within their validity, and those of builders that are not a
  verifier's key under another spelling.\<close>

definition trustedKeyRefs :: "TrustPolicy \<Rightarrow> TrustedKeyRef list" where
  "trustedKeyRefs trust =
     (let verifierKeys = map filepath_Clean (concat (map tv_Keys (items (tp_Verifiers trust))))
      in concat (map (\<lambda>v. map (\<lambda>k. \<lparr>tk_Path = k, tk_NotBefore = tv_NotBeforeTime v, tk_NotAfter = tv_NotAfterTime v\<rparr>)
                          (tv_Keys v)) (items (tp_Verifiers trust)))
         @ map (\<lambda>k. \<lparr>tk_Path = k, tk_NotBefore = zero_time, tk_NotAfter = zero_time\<rparr>)
             (filter (\<lambda>k. filepath_Clean k \<notin> set verifierKeys) (concat (map tb_Keys (items (tp_Builders trust))))))"

definition FetchOptionsForPolicy :: "Policy \<Rightarrow> FetchOptions" where
  "FetchOptionsForPolicy pol =
     (let opts = \<lparr>fo_TrustedIssuers = None, fo_TrustedKeys = [], fo_SANPatterns = None,
                  fo_RequireTransparencyLog =
                    (case s_Signatures (pl_Sections pol) of None \<Rightarrow> False | Some s \<Rightarrow> sig_RequireTransparencyLog s),
                  fo_Timeout = 0, fo_Digest = [], fo_ParsedRef = None\<rparr>
      in (case s_Trust (pl_Sections pol) of
            None \<Rightarrow> opts
          | Some t \<Rightarrow> opts\<lparr>fo_TrustedIssuers := tp_Issuers t, fo_SANPatterns := tp_SANPatterns t,
                           fo_TrustedKeys := trustedKeyRefs t\<rparr>))"

definition buildFetchOpts :: "Policy \<Rightarrow> string \<Rightarrow> duration \<Rightarrow> Reference option \<Rightarrow> FetchOptions" where
  "buildFetchOpts pol digest timeout parsedRef =
     (FetchOptionsForPolicy pol)\<lparr>fo_Timeout := timeout, fo_Digest := digest, fo_ParsedRef := parsedRef\<rparr>"

section \<open>Verification summaries\<close>

definition signerBoundToVerifiers :: "SignerIdentity \<Rightarrow> TrustedVerifier list \<Rightarrow> bool" where
  "signerBoundToVerifiers signer verifiers = list_ex (\<lambda>v. MatchesAny signer (verifier_MatchesSigner v)) verifiers"

definition resultFromCheck :: "CheckResult \<Rightarrow> Result" where
  "resultFromCheck check =
     \<lparr>r_Allowed = cr_Passed check, r_Verified = False, r_Mode = [], r_Reason = cr_Detail check, r_CheckResults = [check]\<rparr>"

record vsaOutcome =
  vo_passed :: "CheckResult option"
  vo_rejected :: "Result option"
  vo_failures :: "string list"

definition missingDetail :: "vsaOutcome \<Rightarrow> string \<Rightarrow> string" where
  "missingDetail outc imageRef =
     (if vo_failures outc = [] then ''no VSA attestation found for image '' @ imageRef
      else ''no trusted VSA passed for image '' @ imageRef @ '': '' @ Join (vo_failures outc) ''; '')"

definition vsaOutcome_add ::
  "vsa_env \<Rightarrow> goerr option \<Rightarrow> time \<Rightarrow> Policy \<Rightarrow> string \<Rightarrow> VerifiedAttestation \<Rightarrow> vsaOutcome \<Rightarrow> vsaOutcome \<times> bool" where
  "vsaOutcome_add env ctxErr now pol digestRef att outc =
     (case vsa_Verify env ctxErr now (va_Payload att) pol digestRef None of
        Inl e \<Rightarrow> (outc\<lparr>vo_failures := vo_failures outc @ [err_msg e]\<rparr>, False)
      | Inr r \<Rightarrow>
          if \<not> (vr_HardReject r \<or> (cr_Passed (vr_Check r) \<and> cr_Status (vr_Check r) = StatusPass)) then
            (outc\<lparr>vo_failures := vo_failures outc @ [cr_Detail (vr_Check r)]\<rparr>, False)
          else if \<not> signerBoundToVerifiers (va_Signer att) (vr_MatchedVerifiers r) then
            (outc\<lparr>vo_failures := vo_failures outc @ [''VSA is not signed by a key or identity bound to its verifier'']\<rparr>, False)
          else if vr_HardReject r then (outc\<lparr>vo_rejected := Some (resultFromCheck (vr_Check r))\<rparr>, True)
          else if vo_passed outc = None then (outc\<lparr>vo_passed := Some (vr_Check r)\<rparr>, False)
          else (outc, False))"

fun vsa_loop ::
  "vsa_env \<Rightarrow> goerr option \<Rightarrow> time \<Rightarrow> Policy \<Rightarrow> string \<Rightarrow> VerifiedAttestation list \<Rightarrow> vsaOutcome \<Rightarrow> vsaOutcome" where
  "vsa_loop env ctxErr now pol digestRef [] outc = outc"
| "vsa_loop env ctxErr now pol digestRef (att # atts) outc =
     (let (outc', rejected) = vsaOutcome_add env ctxErr now pol digestRef att outc
      in if rejected then outc' else vsa_loop env ctxErr now pol digestRef atts outc')"

definition digestRefFromParsed :: "Reference option \<Rightarrow> string \<Rightarrow> string \<Rightarrow> string" where
  "digestRefFromParsed parsedRef imageRef digest =
     (if digest = [] \<or> CHR ''@'' \<in> set imageRef then imageRef
      else (case parsedRef of None \<Rightarrow> imageRef | Some r \<Rightarrow> ref_Name r @ ''@'' @ digest))"

definition checkVSA ::
  "vsa_env \<Rightarrow> goerr option \<Rightarrow> time \<Rightarrow> VerifiedAttestation list \<Rightarrow> Policy \<Rightarrow> string \<Rightarrow> string \<Rightarrow> Reference option \<Rightarrow> vsaOutcome" where
  "checkVSA env ctxErr now vsaAttestations pol imageRef digest parsedRef =
     (let outc = \<lparr>vo_passed = None, vo_rejected = None, vo_failures = []\<rparr>
      in if vsaAttestations = [] then outc
         else vsa_loop env ctxErr now pol (digestRefFromParsed parsedRef imageRef digest) vsaAttestations outc)"

section \<open>Provenance and its builder\<close>

fun bind_loop :: "SignerIdentity \<Rightarrow> TrustedBuilder list \<Rightarrow> string \<Rightarrow> bool \<Rightarrow> (string \<times> bool) option" where
  "bind_loop signer [] unbound anyBound = Some (unbound, anyBound)"
| "bind_loop signer (b # bs) unbound anyBound =
     (if \<not> builder_Bound b then bind_loop signer bs (tb_ID b) anyBound
      else if MatchesAny signer (builder_MatchesSigner b) then None
      else bind_loop signer bs unbound True)"

definition bindBuilderSigner :: "VerifiedAttestation \<Rightarrow> TrustedBuilder list \<Rightarrow> goerr option" where
  "bindBuilderSigner att matched =
     (case bind_loop (va_Signer att) matched [] False of
        None \<Rightarrow> None
      | Some (unbound, anyBound) \<Rightarrow>
          if unbound \<noteq> [] \<and> \<not> anyBound then None
          else Some (errors_New (''provenance is not signed by a key or identity bound to its builder: key ''
                 @ quoted (si_KeyPath (va_Signer att)) @ '', issuer '' @ quoted (si_Issuer (va_Signer att))
                 @ '', SAN '' @ quoted (si_SAN (va_Signer att))) [ErrBuilderSignerMismatch]))"


section \<open>A verdict needs its verifier's signature\<close>

definition trusted_verifiers :: "Policy \<Rightarrow> TrustedVerifier list" where
  "trusted_verifiers pol = (case s_Trust (pl_Sections pol) of None \<Rightarrow> [] | Some t \<Rightarrow> items (tp_Verifiers t))"

text \<open>The verdict \<open>r\<close> of a summary is vouched for: it is signed with a key or identity that the policy binds to the verifier
  the summary names.\<close>

definition vouched ::
  "vsa_env \<Rightarrow> goerr option \<Rightarrow> time \<Rightarrow> Policy \<Rightarrow> string \<Rightarrow> VerifiedAttestation \<Rightarrow> VerifyResult \<Rightarrow> bool" where
  "vouched env ctxErr now pol digestRef att r =
     (vsa_Verify env ctxErr now (va_Payload att) pol digestRef None = Inr r \<and>
      (\<exists>stmt v. ve_decode env (va_Payload att) = Some stmt \<and> v \<in> set (trusted_verifiers pol) \<and>
         tv_ID v = vp_VerifierID (vst_Predicate stmt) \<and> MatchesAny (va_Signer att) (verifier_MatchesSigner v)))"

definition conclusive :: "VerifyResult \<Rightarrow> bool" where
  "conclusive r = (vr_HardReject r \<or> cr_Passed (vr_Check r) \<and> cr_Status (vr_Check r) = StatusPass)"

lemma vsa_Verify_passed_status:
  "vsa_Verify env ctxErr now att pol ref parsed = Inr r \<Longrightarrow> cr_Passed (vr_Check r) \<Longrightarrow> cr_Status (vr_Check r) = StatusPass \<and> \<not> vr_HardReject r"
  by (auto simp: vsa_Verify_def vsa_result_defs Let_def split: option.splits sum.splits if_splits)

lemma vsa_Verify_conclusive:
  assumes "vsa_Verify env ctxErr now att pol ref parsed = Inr r" "conclusive r"
  obtains stmt where "ve_decode env att = Some stmt"
    "verifyTrustedVerifier (vp_VerifierID (vst_Predicate stmt)) pol = Inr (vr_MatchedVerifiers r)"
  using assms
  by (auto simp: vsa_Verify_def vsa_result_defs conclusive_def Let_def split: option.splits sum.splits if_splits)

lemma verifyTrustedVerifier_set:
  "verifyTrustedVerifier i pol = Inr ms \<Longrightarrow> set ms = {v \<in> set (trusted_verifiers pol). tv_ID v = i}"
  by (auto simp: verifyTrustedVerifier_Inr trusted_verifiers_def)

lemma vouched_iff:
  assumes "conclusive r"
  shows "vouched env ctxErr now pol digestRef att r \<longleftrightarrow>
    vsa_Verify env ctxErr now (va_Payload att) pol digestRef None = Inr r \<and>
    signerBoundToVerifiers (va_Signer att) (vr_MatchedVerifiers r)"
proof (cases "vsa_Verify env ctxErr now (va_Payload att) pol digestRef None = Inr r")
  case False
  then show ?thesis by (simp add: vouched_def)
next
  case True
  then obtain stmt where "ve_decode env (va_Payload att) = Some stmt"
    "verifyTrustedVerifier (vp_VerifierID (vst_Predicate stmt)) pol = Inr (vr_MatchedVerifiers r)"
    using assms by (rule vsa_Verify_conclusive)
  then show ?thesis using True
    by (auto simp: vouched_def signerBoundToVerifiers_def list_ex_iff dest: verifyTrustedVerifier_set)
qed

text \<open>One summary rejects, or passes, when its verdict does and is vouched for.\<close>

definition vsa_rejects :: "vsa_env \<Rightarrow> goerr option \<Rightarrow> time \<Rightarrow> Policy \<Rightarrow> string \<Rightarrow> VerifiedAttestation \<Rightarrow> bool" where
  "vsa_rejects env ctxErr now pol ref att = (\<exists>r. vouched env ctxErr now pol ref att r \<and> vr_HardReject r)"

definition vsa_passes :: "vsa_env \<Rightarrow> goerr option \<Rightarrow> time \<Rightarrow> Policy \<Rightarrow> string \<Rightarrow> VerifiedAttestation \<Rightarrow> bool" where
  "vsa_passes env ctxErr now pol ref att = (\<exists>r. vouched env ctxErr now pol ref att r \<and> cr_Passed (vr_Check r))"

lemma vsaOutcome_add_cases:
  assumes "vsaOutcome_add env ctxErr now pol ref att outc = (outc', stop)"
  shows "stop = vsa_rejects env ctxErr now pol ref att \<and>
    (vo_rejected outc' \<noteq> None \<longleftrightarrow> stop \<or> vo_rejected outc \<noteq> None) \<and>
    (\<not> stop \<longrightarrow> (vo_passed outc' \<noteq> None \<longleftrightarrow> vsa_passes env ctxErr now pol ref att \<or> vo_passed outc \<noteq> None))"
proof (cases "vsa_Verify env ctxErr now (va_Payload att) pol ref None")
  case (Inl e)
  then have "\<not> vsa_rejects env ctxErr now pol ref att" "\<not> vsa_passes env ctxErr now pol ref att"
    by (simp_all add: vsa_rejects_def vsa_passes_def vouched_def)
  moreover have "outc' = outc\<lparr>vo_failures := vo_failures outc @ [err_msg e]\<rparr>" "\<not> stop"
    using assms(1) Inl by (simp_all add: vsaOutcome_add_def)
  ultimately show ?thesis by simp
next
  case (Inr r)
  have st: "cr_Passed (vr_Check r) \<Longrightarrow> cr_Status (vr_Check r) = StatusPass \<and> \<not> vr_HardReject r"
    using vsa_Verify_passed_status [OF Inr] .
  have only: "r' = r" if "vouched env ctxErr now pol ref att r'" for r'
    using that Inr by (simp add: vouched_def)
  have rej: "vsa_rejects env ctxErr now pol ref att \<longleftrightarrow>
      vr_HardReject r \<and> signerBoundToVerifiers (va_Signer att) (vr_MatchedVerifiers r)"
    using only Inr vouched_iff [of r] unfolding vsa_rejects_def conclusive_def by blast
  have pas: "vsa_passes env ctxErr now pol ref att \<longleftrightarrow>
      cr_Passed (vr_Check r) \<and> signerBoundToVerifiers (va_Signer att) (vr_MatchedVerifiers r)"
    using only Inr vouched_iff [of r] st unfolding vsa_passes_def conclusive_def by blast
  show ?thesis using assms(1) Inr st unfolding rej pas by (auto simp: vsaOutcome_add_def split: if_splits)
qed

lemma vsa_loop_verdict:
  "(vo_rejected (vsa_loop env ctxErr now pol ref atts outc) \<noteq> None \<longleftrightarrow>
      vo_rejected outc \<noteq> None \<or> list_ex (vsa_rejects env ctxErr now pol ref) atts) \<and>
   (\<not> list_ex (vsa_rejects env ctxErr now pol ref) atts \<longrightarrow>
      (vo_passed (vsa_loop env ctxErr now pol ref atts outc) \<noteq> None \<longleftrightarrow>
        vo_passed outc \<noteq> None \<or> list_ex (vsa_passes env ctxErr now pol ref) atts))"
proof (induction env ctxErr now pol ref atts outc rule: vsa_loop.induct)
  case (1 env ctxErr now pol ref outc)
  show ?case by simp
next
  case (2 env ctxErr now pol ref att atts outc)
  obtain outc' stop where add: "vsaOutcome_add env ctxErr now pol ref att outc = (outc', stop)" by (rule prod.exhaust)
  note step = vsaOutcome_add_cases [OF add]
  show ?case
  proof (cases stop)
    case True
    then show ?thesis using step by (simp add: add)
  next
    case False
    note ih = 2 [OF add [symmetric] refl False]
    show ?thesis using False step ih by (simp add: add) blast
  qed
qed

text \<open>C3: a verdict needs its verifier's signature, and a rejection cannot be outvoted.  The summaries of an image reject it exactly
  when one of them reports FAILED for it and is signed by a key or identity the policy binds to the verifier it names, whatever
  other summaries are attached and in whatever order; and when none rejects, verification is skipped exactly when such a
  summary passes.  A signer trusted for something else can do neither.\<close>

theorem vsa_verdict_authentic:
  "(vo_rejected (checkVSA env ctxErr now atts pol imageRef digest parsedRef) \<noteq> None \<longleftrightarrow>
      list_ex (vsa_rejects env ctxErr now pol (digestRefFromParsed parsedRef imageRef digest)) atts) \<and>
   (vo_rejected (checkVSA env ctxErr now atts pol imageRef digest parsedRef) = None \<longrightarrow>
      (vo_passed (checkVSA env ctxErr now atts pol imageRef digest parsedRef) \<noteq> None \<longleftrightarrow>
        list_ex (vsa_passes env ctxErr now pol (digestRefFromParsed parsedRef imageRef digest)) atts))"
proof -
  let ?init = "\<lparr>vo_passed = None, vo_rejected = None, vo_failures = []\<rparr>"
  have "checkVSA env ctxErr now atts pol imageRef digest parsedRef =
      vsa_loop env ctxErr now pol (digestRefFromParsed parsedRef imageRef digest) atts ?init"
    by (cases atts) (simp_all only: checkVSA_def Let_def vsa_loop.simps if_True if_False list.simps simp_thms)
  then show ?thesis
    using vsa_loop_verdict [of env ctxErr now pol "digestRefFromParsed parsedRef imageRef digest" atts ?init] by auto
qed

definition sample_vsa_att :: VerifiedAttestation where
  "sample_vsa_att = \<lparr>va_PredicateType = PredicateVSA, va_Payload = ''att'', va_Digest = sample_digest,
     va_SignatureType = SignatureTypeSigstore,
     va_Signer = \<lparr>si_KeyPath = ''k.pub'', si_KeyPaths = [''k.pub''], si_Issuer = [], si_SAN = []\<rparr>, va_Bundle = [],
     va_NotationMediaType = [], va_NotationSubjectDigest = [], va_NotationSubjectSize = 0, va_NotationSubjectMediaType = []\<rparr>"

theorem vsa_verdict_authentic_witness:
  "list_ex (vsa_passes sample_vsa_env None minutes sample_vsa_policy (digestRefFromParsed None ''img'' sample_digest)) [sample_vsa_att]"
proof -
  have "vo_rejected (checkVSA sample_vsa_env None minutes [sample_vsa_att] sample_vsa_policy ''img'' sample_digest None) = None"
    by code_simp
  moreover have "\<not> Option.is_none (vo_passed (checkVSA sample_vsa_env None minutes [sample_vsa_att] sample_vsa_policy
      ''img'' sample_digest None))"
    by code_simp
  ultimately show ?thesis
    using vsa_verdict_authentic [of sample_vsa_env None minutes "[sample_vsa_att]" sample_vsa_policy "''img''" sample_digest None]
    by (simp add: Option.is_none_def)
qed

section \<open>What a builder may sign\<close>

definition key_paths :: "SignerIdentity \<Rightarrow> string set" where
  "key_paths s = (if si_KeyPaths s = [] then {si_KeyPath s} - {[]} else set (si_KeyPaths s))"

lemma set_builderOnlyKeys:
  "set (builderOnlyKeys (s_Trust (pl_Sections pol))) =
     {k. (\<exists>b \<in> set (Builders pol). k \<in> set (tb_Keys b)) \<and>
         \<not> (\<exists>v \<in> set (trusted_verifiers pol). \<exists>k' \<in> set (tv_Keys v). filepath_Clean k = filepath_Clean k')}"
proof (cases "s_Trust (pl_Sections pol)")
  case None
  then show ?thesis by (simp add: builderOnlyKeys_def Builders_def)
next
  case (Some t)
  then show ?thesis
    unfolding builderOnlyKeys_def Builders_def trusted_verifiers_def option.case Let_def set_filter set_concat set_map image_image
    by (auto simp: image_iff)
qed

lemma scopeBuilderKeys_filter:
  "scopeBuilderKeys atts pol =
     filter (\<lambda>att. isProvenancePredicate (va_PredicateType att) \<or>
       key_paths (va_Signer att) = {} \<or>
       \<not> key_paths (va_Signer att) \<subseteq> set (builderOnlyKeys (s_Trust (pl_Sections pol)))) atts"
proof -
  have signed: "signedOnlyWithBuilderKeys s ks \<longleftrightarrow> key_paths s \<noteq> {} \<and> key_paths s \<subseteq> set ks" for s ks
    by (auto simp: key_paths_def signedOnlyWithBuilderKeys_def list_all_iff)
  show ?thesis
  proof (cases "builderOnlyKeys (s_Trust (pl_Sections pol)) = []")
    case True
    then have "filter (\<lambda>att. isProvenancePredicate (va_PredicateType att) \<or> key_paths (va_Signer att) = {} \<or>
        \<not> key_paths (va_Signer att) \<subseteq> set (builderOnlyKeys (s_Trust (pl_Sections pol)))) atts = atts"
      by (simp add: filter_id_conv)
    then show ?thesis using True by (simp add: scopeBuilderKeys_def)
  next
    case False
    then show ?thesis unfolding scopeBuilderKeys_def Let_def signed by (auto intro: filter_cong)
  qed
qed

lemma bind_loop_Some:
  assumes "bind_loop s bs u a = Some (u', a')" "\<forall>b \<in> set bs. tb_ID b \<noteq> []"
  shows "(a' \<longleftrightarrow> a \<or> (\<exists>b \<in> set bs. builder_Bound b)) \<and>
     (\<forall>b \<in> set bs. builder_Bound b \<longrightarrow> \<not> MatchesAny s (builder_MatchesSigner b)) \<and>
     (u' = [] \<longleftrightarrow> u = [] \<and> (\<forall>b \<in> set bs. builder_Bound b))"
  using assms
proof (induction bs arbitrary: u a)
  case (Cons b bs)
  show ?case
  proof (cases "builder_Bound b")
    case True
    then show ?thesis using Cons.prems Cons.IH [of u True] by (simp split: if_splits)
  next
    case False
    then show ?thesis using Cons.prems Cons.IH [of "tb_ID b" a] by simp
  qed
qed simp

lemma bind_loop_None:
  "bind_loop s bs u a = None \<longleftrightarrow> (\<exists>b \<in> set bs. builder_Bound b \<and> MatchesAny s (builder_MatchesSigner b))"
  by (induction s bs u a rule: bind_loop.induct) auto

text \<open>Provenance is accepted for a builder exactly when the signer is bound to one of its entries, or none of its entries is
  bound.\<close>

lemma bindBuilderSigner_None:
  assumes "matched \<noteq> []" "\<forall>b \<in> set matched. tb_ID b \<noteq> []"
  shows "bindBuilderSigner att matched = None \<longleftrightarrow>
    (\<exists>b \<in> set matched. builder_Bound b \<and> MatchesAny (va_Signer att) (builder_MatchesSigner b)) \<or>
    (\<forall>b \<in> set matched. \<not> builder_Bound b)"
proof (cases "bind_loop (va_Signer att) matched [] False")
  case None
  then show ?thesis using bind_loop_None [of "va_Signer att" matched "[]" False] by (simp add: bindBuilderSigner_def)
next
  case (Some p)
  obtain u a where p: "p = (u, a)" by (rule prod.exhaust)
  note s = bind_loop_Some [OF Some [unfolded p] assms(2)]
  show ?thesis
  proof (cases a)
    case True
    then show ?thesis using s Some p by (auto simp: bindBuilderSigner_def)
  next
    case False
    then have "u \<noteq> []" using s assms(1) by (cases matched) auto
    then show ?thesis using False s Some p by (auto simp: bindBuilderSigner_def)
  qed
qed

end
