(* ===== verification/Guac.thy ===== *)
theory Guac
  imports Result_Types
begin

text \<open>
  Queries to GUAC (src/internal/guac/guac.go, and the result types of types.go): the three queries of an image, which of them
  succeeded, and the metadata rules may read.

  The HTTP client is the record \<open>guac_client\<close>.  The queries run concurrently and store their outcome under a mutex; the
  argument \<open>order\<close> is the order in which they do so.
\<close>

record Vulnerability =
  vn_ID :: string
  vn_Package :: string

record ScorecardResult =
  sr_Aggregate :: float64
  sr_Checks :: "(string \<times> float64) list"
  sr_Source :: string
  sr_Truncated :: bool

record DependencyInfo =
  di_Dependencies :: "string list"
  di_DependencyCount :: "64 word"

record QueryResult =
  qr_Available :: bool
  qr_Vulnerabilities :: "Vulnerability list"
  qr_TransitiveVulns :: "Vulnerability list"
  qr_VulnerabilitiesAvailable :: bool
  qr_Scorecard :: "ScorecardResult option"
  qr_ScorecardAvailable :: bool
  qr_DependencyInfo :: "DependencyInfo option"
  qr_DependenciesAvailable :: bool
  qr_Err :: "goerr option"

record guac_client =
  gc_QueryVulnerabilities :: "string \<Rightarrow> goerr + Vulnerability list \<times> Vulnerability list"
  gc_QueryScorecard :: "string \<Rightarrow> goerr + ScorecardResult"
  gc_QueryDependencies :: "string \<Rightarrow> int \<Rightarrow> goerr + DependencyInfo"

abbreviation CheckCertifyVuln :: string where "CheckCertifyVuln \<equiv> ''certify_vuln''"
abbreviation CheckCertifyScorecard :: string where "CheckCertifyScorecard \<equiv> ''certify_scorecard''"
abbreviation CheckIsDependency :: string where "CheckIsDependency \<equiv> ''is_dependency''"

abbreviation MetaKeyAvailable :: string where "MetaKeyAvailable \<equiv> ''available''"
abbreviation MetaKeyVulnerabilities :: string where "MetaKeyVulnerabilities \<equiv> ''vulnerabilities''"
abbreviation MetaKeyTransitiveVulns :: string where "MetaKeyTransitiveVulns \<equiv> ''transitive_vulns''"
abbreviation MetaKeyVulnerabilitiesAvailable :: string where "MetaKeyVulnerabilitiesAvailable \<equiv> ''vulnerabilities_available''"
abbreviation MetaKeyScorecard :: string where "MetaKeyScorecard \<equiv> ''scorecard''"
abbreviation MetaKeyScorecardAvailable :: string where "MetaKeyScorecardAvailable \<equiv> ''scorecard_available''"
abbreviation MetaKeyDependencies :: string where "MetaKeyDependencies \<equiv> ''dependencies''"
abbreviation MetaKeyDependencyCount :: string where "MetaKeyDependencyCount \<equiv> ''dependency_count''"
abbreviation MetaKeyDependenciesAvailable :: string where "MetaKeyDependenciesAvailable \<equiv> ''dependencies_available''"

section \<open>Metadata\<close>

definition vulnsToSlice :: "Vulnerability list \<Rightarrow> meta" where
  "vulnsToSlice vulns =
     MAnys (map (\<lambda>v. MNested [(''id'', MStr (vn_ID v)), (''package'', MStr (vn_Package v))]) vulns)"

definition scorecardToMap :: "ScorecardResult option \<Rightarrow> meta" where
  "scorecardToMap scorecard =
     (let sc = (case scorecard of
                  None \<Rightarrow> \<lparr>sr_Aggregate = Fin 0, sr_Checks = [], sr_Source = [], sr_Truncated = False\<rparr>
                | Some s \<Rightarrow> s)
      in MNested [(''aggregate'', MFloat (sr_Aggregate sc)),
                  (''checks'', MNested (map (\<lambda>(k, v). (k, MFloat v)) (sr_Checks sc))),
                  (''source'', MStr (sr_Source sc)), (''truncated'', MBool (sr_Truncated sc))])"

definition dependencyData :: "DependencyInfo option \<Rightarrow> meta \<times> meta" where
  "dependencyData info =
     (case info of
        None \<Rightarrow> (MAnys [], MInt 0)
      | Some i \<Rightarrow> (MAnys (map MStr (di_Dependencies i)), MInt (di_DependencyCount i)))"

definition UnavailableMetadata :: metadata where
  "UnavailableMetadata =
     [MetaKeyAvailable \<mapsto> MBool False, MetaKeyVulnerabilitiesAvailable \<mapsto> MBool False,
      MetaKeyScorecardAvailable \<mapsto> MBool False, MetaKeyDependenciesAvailable \<mapsto> MBool False]"

definition AvailabilityKey :: "string \<Rightarrow> string option" where
  "AvailabilityKey dataKey =
     (if dataKey = MetaKeyVulnerabilities \<or> dataKey = MetaKeyTransitiveVulns then Some MetaKeyVulnerabilitiesAvailable
      else if dataKey = MetaKeyScorecard then Some MetaKeyScorecardAvailable
      else if dataKey = MetaKeyDependencies \<or> dataKey = MetaKeyDependencyCount then Some MetaKeyDependenciesAvailable
      else None)"

definition MetadataSchema :: metadata where
  "MetadataSchema = UnavailableMetadata
     (MetaKeyVulnerabilities \<mapsto> MAnys [], MetaKeyTransitiveVulns \<mapsto> MAnys [], MetaKeyScorecard \<mapsto> scorecardToMap None,
      MetaKeyDependencies \<mapsto> MAnys [], MetaKeyDependencyCount \<mapsto> MInt 0)"

definition BuildMetadata :: "QueryResult \<Rightarrow> metadata" where
  "BuildMetadata q =
     (let m0 = UnavailableMetadata(MetaKeyAvailable \<mapsto> MBool (qr_Available q));
          m1 = (if qr_VulnerabilitiesAvailable q then
                  m0(MetaKeyVulnerabilities \<mapsto> vulnsToSlice (qr_Vulnerabilities q),
                     MetaKeyTransitiveVulns \<mapsto> vulnsToSlice (qr_TransitiveVulns q),
                     MetaKeyVulnerabilitiesAvailable \<mapsto> MBool True)
                else m0);
          m2 = (if qr_ScorecardAvailable q then
                  m1(MetaKeyScorecard \<mapsto> scorecardToMap (qr_Scorecard q), MetaKeyScorecardAvailable \<mapsto> MBool True)
                else m1)
      in if qr_DependenciesAvailable q then
           let (deps, depCount) = dependencyData (qr_DependencyInfo q)
           in m2(MetaKeyDependencies \<mapsto> deps, MetaKeyDependencyCount \<mapsto> depCount, MetaKeyDependenciesAvailable \<mapsto> MBool True)
         else m2)"

section \<open>Queries\<close>

text \<open>\<open>errors.Join\<close> of an optional error and an error.\<close>

definition errors_Join :: "goerr option \<Rightarrow> goerr \<Rightarrow> goerr" where
  "errors_Join e1 e2 =
     (case e1 of
        None \<Rightarrow> e2
      | Some e \<Rightarrow> \<lparr>err_msg = err_msg e @ [CHR 0x0A] @ err_msg e2, err_wraps = err_wraps e @ err_wraps e2\<rparr>)"

definition guac_recordFailure :: "QueryResult \<Rightarrow> goerr \<Rightarrow> QueryResult" where
  "guac_recordFailure result err = result\<lparr>qr_Available := False, qr_Err := Some (errors_Join (qr_Err result) err)\<rparr>"

definition queryVulns :: "guac_client \<Rightarrow> string \<Rightarrow> QueryResult \<Rightarrow> QueryResult" where
  "queryVulns client digest result =
     (case gc_QueryVulnerabilities client digest of
        Inl err \<Rightarrow> guac_recordFailure result err
      | Inr (direct, transitive) \<Rightarrow>
          result\<lparr>qr_Vulnerabilities := direct, qr_TransitiveVulns := transitive, qr_VulnerabilitiesAvailable := True\<rparr>)"

definition queryScorecard :: "guac_client \<Rightarrow> string \<Rightarrow> QueryResult \<Rightarrow> QueryResult" where
  "queryScorecard client digest result =
     (case gc_QueryScorecard client digest of
        Inl err \<Rightarrow> guac_recordFailure result err
      | Inr sc \<Rightarrow> result\<lparr>qr_Scorecard := Some sc, qr_ScorecardAvailable := True\<rparr>)"

definition queryDeps :: "guac_client \<Rightarrow> string \<Rightarrow> int \<Rightarrow> QueryResult \<Rightarrow> QueryResult" where
  "queryDeps client digest maxDeps result =
     (case gc_QueryDependencies client digest maxDeps of
        Inl err \<Rightarrow> guac_recordFailure result err
      | Inr deps \<Rightarrow> result\<lparr>qr_DependencyInfo := Some deps, qr_DependenciesAvailable := True\<rparr>)"

definition guac_buildCheckResult :: "QueryResult \<Rightarrow> CheckResult" where
  "guac_buildCheckResult q =
     (if \<not> qr_Available q then
        (SoftFailResult CheckTypeGUAC ''GUAC queries partially failed''
           (Some (case qr_Err q of
                    None \<Rightarrow> errors_New ''one or more GUAC queries failed'' []
                  | Some e \<Rightarrow> Errorf_w ''one or more GUAC queries failed'' e)))\<lparr>cr_Metadata := Some (BuildMetadata q)\<rparr>
      else
        (PassResult CheckTypeGUAC
           (''GUAC: '' @ Itoa (int (length (qr_Vulnerabilities q))) @ '' direct vulns, ''
            @ Itoa (int (length (qr_TransitiveVulns q))) @ '' transitive vulns''))\<lparr>cr_Metadata := Some (BuildMetadata q)\<rparr>)"

definition run_query :: "guac_client \<Rightarrow> string \<Rightarrow> int \<Rightarrow> string \<Rightarrow> QueryResult \<Rightarrow> QueryResult" where
  "run_query client digest maxDeps check result =
     (if check = CheckCertifyVuln then queryVulns client digest result
      else if check = CheckCertifyScorecard then queryScorecard client digest result
      else if check = CheckIsDependency then queryDeps client digest maxDeps result
      else result)"

definition empty_query :: QueryResult where
  "empty_query = \<lparr>qr_Available = True, qr_Vulnerabilities = [], qr_TransitiveVulns = [], qr_VulnerabilitiesAvailable = False,
     qr_Scorecard = None, qr_ScorecardAvailable = False, qr_DependencyInfo = None, qr_DependenciesAvailable = False, qr_Err = None\<rparr>"

definition guac_Query :: "string list \<Rightarrow> guac_client \<Rightarrow> string \<Rightarrow> string list \<Rightarrow> int \<Rightarrow> CheckResult" where
  "guac_Query order client digest checks maxDeps =
     guac_buildCheckResult
       (fold (run_query client digest maxDeps) (filter (\<lambda>check. check \<in> set checks) order) empty_query)"

section \<open>Only data of successful queries\<close>

definition query_succeeds :: "guac_client \<Rightarrow> string \<Rightarrow> int \<Rightarrow> string \<Rightarrow> bool" where
  "query_succeeds client digest maxDeps flag =
     (if flag = MetaKeyVulnerabilitiesAvailable then \<not> isl (gc_QueryVulnerabilities client digest)
      else if flag = MetaKeyScorecardAvailable then \<not> isl (gc_QueryScorecard client digest)
      else \<not> isl (gc_QueryDependencies client digest maxDeps))"

definition query_of :: "string \<Rightarrow> string" where
  "query_of flag =
     (if flag = MetaKeyVulnerabilitiesAvailable then CheckCertifyVuln
      else if flag = MetaKeyScorecardAvailable then CheckCertifyScorecard else CheckIsDependency)"

lemma BuildMetadata_flags:
  "BuildMetadata q MetaKeyVulnerabilitiesAvailable = Some (MBool (qr_VulnerabilitiesAvailable q))"
  "BuildMetadata q MetaKeyScorecardAvailable = Some (MBool (qr_ScorecardAvailable q))"
  "BuildMetadata q MetaKeyDependenciesAvailable = Some (MBool (qr_DependenciesAvailable q))"
  "BuildMetadata q MetaKeyAvailable = Some (MBool (qr_Available q))"
  by (simp_all add: BuildMetadata_def UnavailableMetadata_def Let_def case_prod_beta)

lemma BuildMetadata_data:
  "BuildMetadata q MetaKeyVulnerabilities \<noteq> None \<longleftrightarrow> qr_VulnerabilitiesAvailable q"
  "BuildMetadata q MetaKeyTransitiveVulns \<noteq> None \<longleftrightarrow> qr_VulnerabilitiesAvailable q"
  "BuildMetadata q MetaKeyScorecard \<noteq> None \<longleftrightarrow> qr_ScorecardAvailable q"
  "BuildMetadata q MetaKeyDependencies \<noteq> None \<longleftrightarrow> qr_DependenciesAvailable q"
  "BuildMetadata q MetaKeyDependencyCount \<noteq> None \<longleftrightarrow> qr_DependenciesAvailable q"
  by (simp_all add: BuildMetadata_def UnavailableMetadata_def Let_def case_prod_beta)

lemma BuildMetadata_key:
  assumes "AvailabilityKey key = Some flag"
  shows "BuildMetadata q key \<noteq> None \<longleftrightarrow> BuildMetadata q flag = Some (MBool True)"
proof -
  consider "key = MetaKeyVulnerabilities" "flag = MetaKeyVulnerabilitiesAvailable"
    | "key = MetaKeyTransitiveVulns" "flag = MetaKeyVulnerabilitiesAvailable"
    | "key = MetaKeyScorecard" "flag = MetaKeyScorecardAvailable"
    | "key = MetaKeyDependencies" "flag = MetaKeyDependenciesAvailable"
    | "key = MetaKeyDependencyCount" "flag = MetaKeyDependenciesAvailable"
    using assms unfolding AvailabilityKey_def by (metis option.inject option.distinct(1))
  then show ?thesis by cases (simp_all only: BuildMetadata_data BuildMetadata_flags option.inject meta.inject simp_thms)
qed

lemma run_query_flags:
  "qr_VulnerabilitiesAvailable (run_query c d n check q) \<longleftrightarrow>
     qr_VulnerabilitiesAvailable q \<or> check = CheckCertifyVuln \<and> \<not> isl (gc_QueryVulnerabilities c d)"
  "qr_ScorecardAvailable (run_query c d n check q) \<longleftrightarrow>
     qr_ScorecardAvailable q \<or> check = CheckCertifyScorecard \<and> \<not> isl (gc_QueryScorecard c d)"
  "qr_DependenciesAvailable (run_query c d n check q) \<longleftrightarrow>
     qr_DependenciesAvailable q \<or> check = CheckIsDependency \<and> \<not> isl (gc_QueryDependencies c d n)"
  by (auto simp: run_query_def queryVulns_def queryScorecard_def queryDeps_def guac_recordFailure_def split: sum.split)

lemma run_query_available:
  "qr_Available (run_query c d n check q) \<longleftrightarrow> qr_Available q \<and>
     (check = CheckCertifyVuln \<longrightarrow> \<not> isl (gc_QueryVulnerabilities c d)) \<and>
     (check = CheckCertifyScorecard \<longrightarrow> \<not> isl (gc_QueryScorecard c d)) \<and>
     (check = CheckIsDependency \<longrightarrow> \<not> isl (gc_QueryDependencies c d n))"
  by (auto simp: run_query_def queryVulns_def queryScorecard_def queryDeps_def guac_recordFailure_def split: sum.split)

lemma fold_query_flags:
  "qr_VulnerabilitiesAvailable (fold (run_query c d n) cs q) \<longleftrightarrow>
     qr_VulnerabilitiesAvailable q \<or> CheckCertifyVuln \<in> set cs \<and> \<not> isl (gc_QueryVulnerabilities c d)"
  "qr_ScorecardAvailable (fold (run_query c d n) cs q) \<longleftrightarrow>
     qr_ScorecardAvailable q \<or> CheckCertifyScorecard \<in> set cs \<and> \<not> isl (gc_QueryScorecard c d)"
  "qr_DependenciesAvailable (fold (run_query c d n) cs q) \<longleftrightarrow>
     qr_DependenciesAvailable q \<or> CheckIsDependency \<in> set cs \<and> \<not> isl (gc_QueryDependencies c d n)"
  by (induction cs arbitrary: q) (auto simp: run_query_flags)

lemma fold_query_available:
  "qr_Available (fold (run_query c d n) cs q) \<longleftrightarrow> qr_Available q \<and>
     (CheckCertifyVuln \<in> set cs \<longrightarrow> \<not> isl (gc_QueryVulnerabilities c d)) \<and>
     (CheckCertifyScorecard \<in> set cs \<longrightarrow> \<not> isl (gc_QueryScorecard c d)) \<and>
     (CheckIsDependency \<in> set cs \<longrightarrow> \<not> isl (gc_QueryDependencies c d n))"
  by (induction cs arbitrary: q) (auto simp: run_query_available)

lemma guac_metadata: "cr_Metadata (guac_buildCheckResult q) = Some (BuildMetadata q)" "cr_Passed (guac_buildCheckResult q) \<longleftrightarrow> qr_Available q"
  by (simp_all add: guac_buildCheckResult_def check_result_defs)

text \<open>The result of a query has a data key exactly when the query behind it is enabled and succeeded, and it passes exactly when
  every enabled query succeeded; the order in which the queries finish does not matter.\<close>

lemma guac_Query_exact:
  assumes "set order = {CheckCertifyVuln, CheckCertifyScorecard, CheckIsDependency}"
  shows "cr_Passed (guac_Query order client digest checks n) \<longleftrightarrow>
      (\<forall>flag \<in> {MetaKeyVulnerabilitiesAvailable, MetaKeyScorecardAvailable, MetaKeyDependenciesAvailable}.
         query_of flag \<in> set checks \<longrightarrow> query_succeeds client digest n flag)"
    and "AvailabilityKey key = Some flag \<Longrightarrow>
      \<exists>m. cr_Metadata (guac_Query order client digest checks n) = Some m \<and>
        (m key \<noteq> None \<longleftrightarrow> query_of flag \<in> set checks \<and> query_succeeds client digest n flag)"
proof -
  let ?q = "fold (run_query client digest n) (filter (\<lambda>check. check \<in> set checks) order) empty_query"
  show "cr_Passed (guac_Query order client digest checks n) \<longleftrightarrow>
      (\<forall>flag \<in> {MetaKeyVulnerabilitiesAvailable, MetaKeyScorecardAvailable, MetaKeyDependenciesAvailable}.
         query_of flag \<in> set checks \<longrightarrow> query_succeeds client digest n flag)"
    using assms
    by (simp add: guac_Query_def guac_metadata fold_query_available query_of_def query_succeeds_def empty_query_def)
  assume key: "AvailabilityKey key = Some flag"
  then have "flag \<in> {MetaKeyVulnerabilitiesAvailable, MetaKeyScorecardAvailable, MetaKeyDependenciesAvailable}"
    by (auto simp: AvailabilityKey_def split: if_splits)
  then have "BuildMetadata ?q flag = Some (MBool True) \<longleftrightarrow>
      query_of flag \<in> set checks \<and> query_succeeds client digest n flag"
    using assms
    by (elim insertE) (simp_all add: BuildMetadata_flags fold_query_flags query_of_def query_succeeds_def empty_query_def)
  then show "\<exists>m. cr_Metadata (guac_Query order client digest checks n) = Some m \<and>
      (m key \<noteq> None \<longleftrightarrow> query_of flag \<in> set checks \<and> query_succeeds client digest n flag)"
    using BuildMetadata_key [OF key, of ?q] by (simp add: guac_Query_def guac_metadata)
qed

end
