(* ===== verification/Cel.thy ===== *)
theory Cel
  imports Policy Guac "HOL-Library.AList"
begin

text \<open>
  Rules written in the Common Expression Language (src/internal/cel/cel.go and cel_vars.go): the variables rules can read,
  the checks on the fields they select, compiling and evaluating the rules of a policy.

  The language itself is the library cel-go, represented by the record \<open>cel_lib\<close>: checking an expression gives its syntax tree
  and output type, and a program maps variables to a value or an error text.  A compiled rule is represented by the rule.
  A variable is the association list of its fields.  The list of available fields at the end of an error text is left out.
\<close>

section \<open>Variables\<close>

type_synonym cel_var = "(string \<times> meta) list"
type_synonym cel_vars = "string \<rightharpoonup> cel_var"

abbreviation varVerified :: string where "varVerified \<equiv> ''verified''"
abbreviation varPresent :: string where "varPresent \<equiv> ''present''"
abbreviation varImage :: string where "varImage \<equiv> ''image''"
abbreviation varGUAC :: string where "varGUAC \<equiv> ''guac''"
abbreviation fieldSource :: string where "fieldSource \<equiv> ''source''"

record attestationVariable =
  av_name :: string
  av_checkType :: CheckType
  av_fields :: cel_var
  av_extendSource :: bool

abbreviation (input) text_field :: "string \<Rightarrow> string \<times> meta" where "text_field k \<equiv> (k, MStr [])"
abbreviation (input) int_field :: "string \<Rightarrow> string \<times> meta" where "int_field k \<equiv> (k, MInt 0)"
abbreviation (input) float_field :: "string \<Rightarrow> string \<times> meta" where "float_field k \<equiv> (k, MFloat (Fin 0))"
abbreviation (input) bool_field :: "string \<Rightarrow> string \<times> meta" where "bool_field k \<equiv> (k, MBool False)"

definition attestation_variable :: "string \<Rightarrow> CheckType \<Rightarrow> cel_var \<Rightarrow> attestationVariable" where
  "attestation_variable name ct flds =
     \<lparr>av_name = name, av_checkType = ct, av_fields = flds, av_extendSource = False\<rparr>"

definition attestationVariables :: "attestationVariable list" where
  "attestationVariables =
     [attestation_variable ''slsa'' CheckTypeSLSA
        [text_field ''builderID'', text_field ''buildType'', text_field fieldSource, text_field ''sourceRef'',
         text_field ''sourceDigest'', bool_field ''trustConfigured''],
      attestation_variable ''vex'' CheckTypeVEX [text_field ''status''],
      attestation_variable ''vsa'' CheckTypeVSA [text_field ''verifierID'', text_field ''result'', int_field ''level''],
      attestation_variable ''sbom'' CheckTypeSBOM
        [text_field ''format'', int_field ''componentCount'', int_field ''licenseCount'', float_field ''cvssMax'',
         int_field ''cvssCriticalCount'', int_field ''cvssHighCount'', int_field ''cvssMediumCount'',
         (''drift'', MNested [bool_field ''detected'', int_field ''addedCount'', int_field ''removedCount'',
            int_field ''modifiedCount'', (''addedPackages'', MStrs []), float_field ''score''])],
      attestation_variable ''notation'' CheckTypeNotation [text_field ''signerDN'', text_field ''trustPolicy''],
      attestation_variable ''scai'' CheckTypeSCAI
        [text_field ''attributes'', int_field ''attributeCount'', bool_field ''hasEvidence''],
      \<lparr>av_name = fieldSource, av_checkType = CheckTypeSource,
       av_fields = [text_field fieldSource, text_field ''branch'', (''locations'', MMaps []), int_field ''level''],
       av_extendSource = True\<rparr>,
      attestation_variable ''buildenv'' CheckTypeBuildEnv
        [text_field ''properties'', int_field ''propertyCount'', (''propertyValues'', MStrMap []), (''conflicts'', MStrs [])],
      attestation_variable ''vulnscan'' CheckTypeVulnScan
        [text_field ''scanner'', int_field ''vulnCount'', float_field ''maxScore'', text_field ''maxSeverity'',
         int_field ''criticalCount'', int_field ''highCount'', int_field ''unknownCount''],
      attestation_variable ''testresult'' CheckTypeTestResult
        [text_field ''result'', int_field ''suiteCount'', text_field ''suites'', int_field ''passed'', int_field ''failed'',
         int_field ''warned''],
      attestation_variable ''release'' CheckTypeRelease [text_field ''purl'', text_field ''packageId''],
      attestation_variable ''runtimetrace'' CheckTypeRuntimeTrace
        [text_field ''monitorType'', int_field ''processCount'', int_field ''networkCount'', int_field ''fileAccessCount'',
         text_field ''fileNames''],
      attestation_variable ''scorecard'' CheckTypeScorecard
        [text_field ''repo'', text_field ''version'', float_field ''score'', (''checks'', MIntMap [])]]"

definition MetadataFields :: "CheckType \<Rightarrow> cel_var option" where
  "MetadataFields ct = map_option av_fields (find (\<lambda>v. av_checkType v = ct) attestationVariables)"

text \<open>The dynamic type of a value, \<open>reflect.TypeOf\<close>.\<close>

fun type_name :: "meta \<Rightarrow> string" where
  "type_name (MInt _) = ''int64''"
| "type_name (MFloat _) = ''float64''"
| "type_name (MStr _) = ''string''"
| "type_name (MBool _) = ''bool''"
| "type_name (MStrs _) = ''[]string''"
| "type_name (MStrMap _) = ''map[string]string''"
| "type_name (MIntMap _) = ''map[string]int64''"
| "type_name (MConflict _ _) = ''ConflictingMap''"
| "type_name (MMaps _) = ''[]map[string]string''"
| "type_name (MNested _) = ''map[string]any''"
| "type_name (MAnys _) = ''[]any''"

definition same_type :: "meta \<Rightarrow> meta \<Rightarrow> bool" where
  "same_type a b = (type_name a = type_name b)"

function copyFields :: "metadata \<Rightarrow> cel_var \<Rightarrow> cel_var \<Rightarrow> cel_var" where
  "copyFields meta vars [] = vars"
| "copyFields meta vars ((key, def) # flds) =
     copyFields meta
       (case meta key of
          None \<Rightarrow> vars
        | Some value \<Rightarrow>
            (case def of
               MNested nested \<Rightarrow>
                 (case value of
                    MNested src \<Rightarrow> AList.update key (MNested (copyFields (map_of src) nested nested)) vars
                  | _ \<Rightarrow> vars)
             | _ \<Rightarrow> if same_type value def then AList.update key value vars else vars)) flds"
  by pat_completeness auto
termination
  by (relation "measure (\<lambda>(_, _, flds). size_list (size_prod (\<lambda>_. 0) size) flds)") auto

definition string_of :: "meta option \<Rightarrow> string" where
  "string_of v = (case v of Some (MStr t) \<Rightarrow> t | _ \<Rightarrow> [])"

definition extendSourceVars :: "metadata \<Rightarrow> cel_var \<Rightarrow> cel_var" where
  "extendSourceVars meta vars =
     (if (case meta ''locations'' of Some (MMaps _) \<Rightarrow> True | _ \<Rightarrow> False) then vars
      else
        let source = string_of (map_of vars fieldSource)
        in if source \<noteq> [] then
             AList.update ''locations'' (MMaps [[(''uri'', source), (''branch'', string_of (map_of vars ''branch''))]]) vars
           else vars)"

definition metadata_of :: "CheckResult \<Rightarrow> metadata" where
  "metadata_of result = (case cr_Metadata result of None \<Rightarrow> Map.empty | Some m \<Rightarrow> m)"

definition build_variable :: "attestationVariable \<Rightarrow> CheckResult option \<Rightarrow> cel_var" where
  "build_variable v result =
     (let vars = AList.update varVerified (MBool False) (av_fields v)
      in (case result of
            None \<Rightarrow> vars
          | Some r \<Rightarrow>
              let vars = copyFields (metadata_of r) (AList.update varVerified (MBool (cr_Passed r)) vars) (av_fields v)
              in if av_extendSource v then extendSourceVars (metadata_of r) vars else vars))"

definition buildImageVars :: "string \<Rightarrow> string \<Rightarrow> string \<Rightarrow> string \<Rightarrow> string \<Rightarrow> cel_var" where
  "buildImageVars imageRef registry repository digest namespace =
     [(''ref'', MStr imageRef), (''registry'', MStr registry), (''repository'', MStr repository), (''digest'', MStr digest),
      (''namespace'', MStr namespace)]"

definition buildAttestationVars :: "CheckResult option \<Rightarrow> attestationVariable \<Rightarrow> cel_var" where
  "buildAttestationVars result v =
     (case result of
        None \<Rightarrow> [(varVerified, MBool False), (varPresent, MBool False)]
      | Some r \<Rightarrow>
          if cr_Missing r then [(varVerified, MBool False), (varPresent, MBool False)]
          else AList.update varPresent (MBool True) (build_variable v (Some r)))"

definition guac_unavailable :: cel_var where
  "guac_unavailable = [(MetaKeyDependenciesAvailable, MBool False), (MetaKeyScorecardAvailable, MBool False),
     (MetaKeyVulnerabilitiesAvailable, MBool False), (MetaKeyAvailable, MBool False)]"

lemma map_of_guac_unavailable: "map_of guac_unavailable = UnavailableMetadata"
  by (simp only: guac_unavailable_def UnavailableMetadata_def map_of.simps fst_conv snd_conv)

fun copyMeta :: "(meta \<Rightarrow> bool) \<Rightarrow> metadata \<Rightarrow> string list \<Rightarrow> cel_var \<Rightarrow> cel_var" where
  "copyMeta is_type meta [] vars = vars"
| "copyMeta is_type meta (key # keys) vars =
     copyMeta is_type meta keys
       (case meta key of
          None \<Rightarrow> vars
        | Some value \<Rightarrow> if is_type value then AList.update key value vars else vars)"

definition guac_group :: "metadata \<Rightarrow> string \<Rightarrow> (cel_var \<Rightarrow> cel_var) \<Rightarrow> cel_var \<Rightarrow> cel_var" where
  "guac_group meta flag copy vars =
     (if meta flag = Some (MBool True) then copy (AList.update flag (MBool True) vars) else vars)"

definition buildGUACVars :: "CheckResult option \<Rightarrow> cel_var" where
  "buildGUACVars result =
     (case result of
        None \<Rightarrow> guac_unavailable
      | Some r \<Rightarrow>
          (case cr_Metadata r of
             None \<Rightarrow> guac_unavailable
           | Some m \<Rightarrow>
               guac_group m MetaKeyDependenciesAvailable
                 (\<lambda>vars. copyMeta (same_type (MInt 0)) m [MetaKeyDependencyCount]
                            (copyMeta (same_type (MAnys [])) m [MetaKeyDependencies] vars))
                 (guac_group m MetaKeyScorecardAvailable (copyMeta (same_type (MNested [])) m [MetaKeyScorecard])
                   (guac_group m MetaKeyVulnerabilitiesAvailable
                      (copyMeta (same_type (MAnys [])) m [MetaKeyVulnerabilities, MetaKeyTransitiveVulns])
                      (copyMeta (same_type (MBool False)) m [MetaKeyAvailable] guac_unavailable)))))"

definition BuildVars ::
  "string \<Rightarrow> string \<Rightarrow> string \<Rightarrow> string \<Rightarrow> string \<Rightarrow> (CheckType \<rightharpoonup> CheckResult) \<Rightarrow> cel_vars" where
  "BuildVars imageRef registry repository digest namespace results =
     [varImage \<mapsto> buildImageVars imageRef registry repository digest namespace,
      varGUAC \<mapsto> buildGUACVars (results CheckTypeGUAC)]
     ++ map_of (map (\<lambda>v. (av_name v, buildAttestationVars (results (av_checkType v)) v)) attestationVariables)"

section \<open>Fields a rule may select\<close>

definition guac_schema :: cel_var where
  "guac_schema = guac_unavailable @
     [(MetaKeyVulnerabilities, MAnys []), (MetaKeyTransitiveVulns, MAnys []), (MetaKeyScorecard, scorecardToMap None),
      (MetaKeyDependencies, MAnys []), (MetaKeyDependencyCount, MInt 0)]"

definition variableSchemas :: cel_vars where
  "variableSchemas =
     [varImage \<mapsto> buildImageVars [] [] [] [] [], varGUAC \<mapsto> guac_schema]
     ++ map_of (map (\<lambda>v. (av_name v, AList.update varPresent (MBool False) (build_variable v None))) attestationVariables)"


text \<open>The syntax trees of checked expressions.  A call has a target when it is a member function.\<close>

datatype expr =
    EUnspecified
  | EIdent string
  | EString string
  | ELiteral
  | ESelect expr string
  | ECall "expr option" string "expr list"
  | EList "expr list"
  | EMap "(expr \<times> expr) list"
  | EStruct "expr list"
  | EComprehension string string "string option" expr expr expr expr expr

abbreviation indexFunction :: string where "indexFunction \<equiv> ''_[_]''"
abbreviation optionalIndexFunction :: string where "optionalIndexFunction \<equiv> ''_[?_]''"

definition constantIndex :: "string \<Rightarrow> expr list \<Rightarrow> (string \<times> expr) option" where
  "constantIndex name args =
     (if name \<noteq> indexFunction \<and> name \<noteq> optionalIndexFunction then None
      else (case args of [operand, EString key] \<Rightarrow> Some (key, operand) | _ \<Rightarrow> None))"

text \<open>The chain of selections down to an identifier; \<open>fs\<close> are the fields selected so far, innermost first.\<close>

lemma constantIndex_size [termination_simp]:
  "constantIndex name args = Some (key, operand) \<Longrightarrow> size operand < Suc (size_option size t + size_list size args)"
  by (auto simp: constantIndex_def split: if_splits list.splits expr.splits)

fun selection_walk :: "expr \<Rightarrow> string list \<Rightarrow> (string \<times> string list) option" where
  "selection_walk (ESelect operand f) fs = selection_walk operand (f # fs)"
| "selection_walk (ECall t name args) fs =
     (case constantIndex name args of
        None \<Rightarrow> None
      | Some (key, operand) \<Rightarrow> selection_walk operand (key # fs))"
| "selection_walk (EIdent r) fs = (if fs = [] then None else Some (r, fs))"
| "selection_walk _ fs = None"

definition selectionPath :: "expr \<Rightarrow> (string \<times> string list) option" where
  "selectionPath e = selection_walk e []"

fun validate_fields :: "cel_var \<Rightarrow> string \<Rightarrow> string list \<Rightarrow> string option" where
  "validate_fields current path [] = None"
| "validate_fields current path (f # fs) =
     (case map_of current f of
        None \<Rightarrow> Some (''CEL expression references unknown field: '' @ quoted path @ '' has no field '' @ quoted f)
      | Some (MNested nested) \<Rightarrow> if nested = [] then None else validate_fields nested (path @ ''.'' @ f) fs
      | Some _ \<Rightarrow> None)"

definition validateSelection :: "string \<Rightarrow> string list \<Rightarrow> string option" where
  "validateSelection r fs =
     (case variableSchemas r of None \<Rightarrow> None | Some schema \<Rightarrow> validate_fields schema r fs)"

fun checkFieldSelections :: "string list \<Rightarrow> expr \<Rightarrow> string list" where
  "checkFieldSelections shadowed (ESelect operand f) =
     (case selectionPath (ESelect operand f) of
        Some (r, fs) \<Rightarrow> if r \<in> set shadowed then [] else (case validateSelection r fs of None \<Rightarrow> [] | Some e \<Rightarrow> [e])
      | None \<Rightarrow> checkFieldSelections shadowed operand)"
| "checkFieldSelections shadowed (ECall t name args) =
     (case selectionPath (ECall t name args) of
        Some (r, fs) \<Rightarrow> if r \<in> set shadowed then [] else (case validateSelection r fs of None \<Rightarrow> [] | Some e \<Rightarrow> [e])
      | None \<Rightarrow>
          (case t of None \<Rightarrow> [] | Some target \<Rightarrow> checkFieldSelections shadowed target)
          @ concat (map (checkFieldSelections shadowed) args))"
| "checkFieldSelections shadowed (EComprehension iter accu iter2 iterRange accuInit cond loopStep result) =
     (let inner = shadowed @ [iter, accu] @ (case iter2 of None \<Rightarrow> [] | Some i \<Rightarrow> [i])
      in checkFieldSelections shadowed iterRange @ checkFieldSelections shadowed accuInit @ checkFieldSelections inner cond
         @ checkFieldSelections inner loopStep @ checkFieldSelections inner result)"
| "checkFieldSelections shadowed (EList es) = concat (map (checkFieldSelections shadowed) es)"
| "checkFieldSelections shadowed (EStruct es) = concat (map (checkFieldSelections shadowed) es)"
| "checkFieldSelections shadowed (EMap entries) =
     concat (map (\<lambda>(k, v). checkFieldSelections shadowed k @ checkFieldSelections shadowed v) entries)"
| "checkFieldSelections shadowed _ = []"

section \<open>Compiling and evaluating\<close>

record cel_lib =
  cl_Compile :: "string \<Rightarrow> (expr \<times> string) option"
  cl_EstimateCostMin :: "string \<Rightarrow> nat option"
  cl_Program :: "string \<Rightarrow> bool"
  cl_Eval :: "string \<Rightarrow> cel_vars \<Rightarrow> string + meta"

definition MaxExpressionSize :: nat where "MaxExpressionSize = 4096"
definition MaxRules :: nat where "MaxRules = 64"
definition costLimit :: nat where "costLimit = 100000"

definition compileExpression :: "cel_lib \<Rightarrow> string \<Rightarrow> string \<Rightarrow> string list" where
  "compileExpression lib e label =
     (case cl_Compile lib e of
        None \<Rightarrow> [label @ '': CEL expression compilation failed'']
      | Some (checked, outputType) \<Rightarrow>
          if outputType \<noteq> ''bool'' \<and> outputType \<noteq> ''dyn'' then
            [label @ '': CEL expression must evaluate to a boolean, got '' @ outputType]
          else
            let fieldErrs = checkFieldSelections [] checked
            in if fieldErrs \<noteq> [] then [label @ '': '' @ Join fieldErrs [CHR 0x0A]]
               else
                 (case cl_EstimateCostMin lib e of
                    None \<Rightarrow> [label @ '': estimating cost'']
                  | Some m \<Rightarrow>
                      if m > costLimit then [label @ '': CEL expression exceeded cost limit'']
                      else if \<not> cl_Program lib e then [label @ '': CEL expression compilation failed: creating program'']
                      else []))"

definition rule_label :: "nat \<Rightarrow> string \<Rightarrow> string" where
  "rule_label idx field = ''rules['' @ Itoa (int idx) @ '']'' @ field"

definition compileRule :: "cel_lib \<Rightarrow> nat \<Rightarrow> CELRule \<Rightarrow> string list" where
  "compileRule lib idx rule =
     (if cel_Require rule = [] then [rule_label idx '': CEL rule require expression is empty'']
      else
        let sizeErrs =
              (if length (cel_Require rule) > MaxExpressionSize
               then [rule_label idx ''.require: CEL expression exceeds maximum size''] else [])
              @ (if length (cel_Match rule) > MaxExpressionSize
                 then [rule_label idx ''.match: CEL expression exceeds maximum size''] else [])
        in if sizeErrs \<noteq> [] then sizeErrs
           else (if cel_Match rule \<noteq> [] then compileExpression lib (cel_Match rule) (rule_label idx ''.match'') else [])
                @ compileExpression lib (cel_Require rule) (rule_label idx ''.require''))"

text \<open>The errors of compiling the rules; the compiled policy is the rules themselves when there are none.\<close>

definition cel_Compile :: "cel_lib \<Rightarrow> CELRule list \<Rightarrow> string list" where
  "cel_Compile lib rules =
     (if length rules > MaxRules then [''CEL policy exceeds maximum number of rules'']
      else concat (map (\<lambda>(idx, rule). compileRule lib idx rule) (enumerate 0 rules)))"

definition cut_key :: "string \<Rightarrow> string option" where
  "cut_key err =
     (let sep = ''no such key: ''
      in case Index err sep of None \<Rightarrow> None | Some i \<Rightarrow> Some (TrimSpace (drop (i + length sep) err)))"

definition absentVariablesWithKey :: "string \<Rightarrow> cel_vars \<Rightarrow> string list" where
  "absentVariablesWithKey err vars =
     (case cut_key err of
        None \<Rightarrow> []
      | Some key \<Rightarrow>
          concat (map (\<lambda>v.
            (case vars (av_name v) of
               None \<Rightarrow> []
             | Some values \<Rightarrow>
                 if map_of values varPresent = Some (MBool True) then []
                 else (case variableSchemas (av_name v) of
                         None \<Rightarrow> []
                       | Some schema \<Rightarrow> if map_of schema key \<noteq> None then [av_name v @ ''.'' @ varPresent] else [])))
            attestationVariables))"

definition unavailableGUACGuard :: "string \<Rightarrow> cel_vars \<Rightarrow> string" where
  "unavailableGUACGuard err vars =
     (case cut_key err of
        None \<Rightarrow> []
      | Some key \<Rightarrow>
          (case vars varGUAC of
             None \<Rightarrow> []
           | Some guacVars \<Rightarrow>
               if map_of guacVars key \<noteq> None then []
               else (case AvailabilityKey key of None \<Rightarrow> [] | Some flag \<Rightarrow> varGUAC @ ''.'' @ flag)))"

definition isCostError :: "string \<Rightarrow> bool" where
  "isCostError err = Contains err ''actual cost limit exceeded''"

definition evalBool :: "cel_lib \<Rightarrow> string \<Rightarrow> cel_vars \<Rightarrow> string + bool" where
  "evalBool lib e vars =
     (case cl_Eval lib e vars of
        Inl err \<Rightarrow>
          Inl (if isCostError err then ''CEL expression exceeded cost limit: '' @ err
               else if absentVariablesWithKey err vars \<noteq> [] then
                 ''evaluating expression (attestation data is not available when the attestation is missing; guard with ''
                 @ Join (absentVariablesWithKey err vars) '' or '' @ ''): '' @ err
               else if unavailableGUACGuard err vars \<noteq> [] then
                 ''evaluating expression (GUAC data is not available when its query did not succeed; guard with ''
                 @ unavailableGUACGuard err vars @ ''): '' @ err
               else ''evaluating expression: '' @ err)
      | Inr (MBool b) \<Rightarrow> Inr b
      | Inr v \<Rightarrow> Inl (''CEL expression must evaluate to a boolean, got '' @ type_name v))"

fun evaluate_from :: "cel_lib \<Rightarrow> cel_vars \<Rightarrow> nat \<Rightarrow> CELRule list \<Rightarrow> CheckResult" where
  "evaluate_from lib vars idx [] = PassResult CheckTypeCEL ''all CEL rules passed''"
| "evaluate_from lib vars idx (rule # rules) =
     (case (if cel_Match rule = [] then Inr True else evalBool lib (cel_Match rule) vars) of
        Inl e \<Rightarrow>
          FailResult CheckTypeCEL (''CEL match evaluation error in rule '' @ Itoa (int idx) @ '': '' @ e) (Some (errors_New e []))
      | Inr matched \<Rightarrow>
          if \<not> matched then evaluate_from lib vars (Suc idx) rules
          else
            (case evalBool lib (cel_Require rule) vars of
               Inl e \<Rightarrow>
                 FailResult CheckTypeCEL (''CEL require evaluation error in rule '' @ Itoa (int idx) @ '': '' @ e)
                   (Some (errors_New e []))
             | Inr passed \<Rightarrow>
                 if \<not> passed then
                   FailResult CheckTypeCEL
                     (if cel_Message rule \<noteq> [] then cel_Message rule else ''CEL rule '' @ Itoa (int idx) @ '' failed'') None
                 else evaluate_from lib vars (Suc idx) rules))"

definition cel_Evaluate :: "cel_lib \<Rightarrow> CELPolicy \<Rightarrow> cel_vars \<Rightarrow> CheckResult" where
  "cel_Evaluate lib compiled vars =
     (if compiled = [] then PassResult CheckTypeCEL ''no CEL rules to evaluate''
      else evaluate_from lib vars 0 compiled)"


section \<open>Rules decide on all or nothing\<close>

definition rule_holds :: "cel_lib \<Rightarrow> cel_vars \<Rightarrow> CELRule \<Rightarrow> bool" where
  "rule_holds lib vars rule =
     (let matched = (if cel_Match rule = [] then Inr True else evalBool lib (cel_Match rule) vars)
      in matched = Inr False \<or> (matched = Inr True \<and> evalBool lib (cel_Require rule) vars = Inr True))"

lemma evaluate_from_passed: "cr_Passed (evaluate_from lib vars idx rules) \<longleftrightarrow> (\<forall>rule \<in> set rules. rule_holds lib vars rule)"
  by (induction lib vars idx rules rule: evaluate_from.induct)
    (auto simp: rule_holds_def Let_def check_result_defs split: sum.split)

lemma cel_Evaluate_passed: "cr_Passed (cel_Evaluate lib rules vars) \<longleftrightarrow> (\<forall>rule \<in> set rules. rule_holds lib vars rule)"
  by (simp add: cel_Evaluate_def evaluate_from_passed) (simp add: check_result_defs)

section \<open>Types of the variables\<close>

text \<open>A value fits a declared default: it has its type, and a nested object only has declared fields that fit in turn.\<close>

inductive fits :: "meta \<Rightarrow> meta \<Rightarrow> bool" where
  fits_nested: "(\<forall>k x. map_of v k = Some x \<longrightarrow> (\<exists>d. map_of s k = Some d \<and> fits d x)) \<Longrightarrow> fits (MNested s) (MNested v)"
| fits_leaf: "same_type d x \<Longrightarrow> \<forall>s. d \<noteq> MNested s \<Longrightarrow> fits d x"

definition conforms :: "cel_var \<Rightarrow> cel_var \<Rightarrow> bool" where
  "conforms schema var = (\<forall>k x. map_of var k = Some x \<longrightarrow> (\<exists>d. map_of schema k = Some d \<and> fits d x))"

fun distinct_keys :: "meta \<Rightarrow> bool" where
  "distinct_keys (MNested s) = (distinct (map fst s) \<and> (\<forall>p \<in> set s. distinct_keys (snd p)))"
| "distinct_keys _ = True"

lemma fits_refl: "fits d d"
proof (induction d)
  case (MNested s)
  show ?case
  proof (rule fits_nested, intro allI impI)
    fix k x assume k: "map_of s k = Some x"
    then have "(k, x) \<in> set s" by (rule map_of_SomeD)
    then have "fits x x" using MNested by auto
    with k show "\<exists>d. map_of s k = Some d \<and> fits d x" by blast
  qed
qed (auto intro!: fits_leaf simp: same_type_def)

lemma fits_nested_iff: "fits (MNested s) (MNested v) \<longleftrightarrow> conforms s v"
  by (auto simp: conforms_def elim: fits.cases intro: fits_nested)

lemma conforms_refl: "conforms s s"
  using fits_refl by (auto simp: conforms_def)

lemma conforms_update: "conforms S vars \<Longrightarrow> map_of S k = Some d \<Longrightarrow> fits d x \<Longrightarrow> conforms S (AList.update k x vars)"
  by (simp add: conforms_def update_conv')

lemma copyFields_conforms:
  "conforms S vars \<Longrightarrow> \<forall>p \<in> set flds. map_of S (fst p) = Some (snd p) \<and> distinct_keys (snd p) \<Longrightarrow>
   conforms S (copyFields meta vars flds)"
proof (induction meta vars flds arbitrary: S rule: copyFields.induct)
  case (2 meta vars key d flds)
  let ?v = "case meta key of None \<Rightarrow> vars
    | Some val \<Rightarrow> (case d of
        MNested nested \<Rightarrow> (case val of
             MNested src \<Rightarrow> AList.update key (MNested (copyFields (map_of src) nested nested)) vars | _ \<Rightarrow> vars)
      | _ \<Rightarrow> if same_type val d then AList.update key val vars else vars)"
  have d: "map_of S key = Some d" "distinct_keys d" using "2.prems"(2) by auto
  have "conforms S ?v"
  proof (cases "meta key")
    case None
    then show ?thesis using "2.prems"(1) by simp
  next
    case (Some val)
    show ?thesis
    proof (cases "\<exists>nested. d = MNested nested")
      case True
      then obtain nested where n: "d = MNested nested" by blast
      have "conforms nested (copyFields (map_of src) nested nested)" if "val = MNested src" for src
        using "2.IH"(1) [OF Some n that, of nested] d(2) conforms_refl
        by (auto simp: n intro: map_of_is_SomeI)
      then have "fits d (MNested (copyFields (map_of src) nested nested))" if "val = MNested src" for src
        using that by (simp add: n fits_nested_iff)
      then show ?thesis using "2.prems"(1) d(1) by (cases val) (simp_all add: Some n conforms_update)
    next
      case False
      then have "same_type val d \<Longrightarrow> fits d val" by (auto intro: fits_leaf simp: same_type_def)
      then show ?thesis using "2.prems"(1) d(1) False by (auto simp: Some conforms_update split: meta.split)
    qed
  qed
  then show ?case using "2.IH"(2) "2.prems"(2) by simp
qed simp


lemma extendSourceVars_cases:
  "extendSourceVars meta vars = vars \<or> (\<exists>xs. extendSourceVars meta vars = AList.update ''locations'' (MMaps xs) vars)"
  unfolding extendSourceVars_def Let_def by (simp only: split: if_split) blast

lemma extendSourceVars_conforms:
  assumes "conforms S vars" "map_of S ''locations'' = Some (MMaps ls)"
  shows "conforms S (extendSourceVars meta vars)"
proof -
  have "fits (MMaps ls) (MMaps xs)" for xs by (rule fits_leaf) (simp_all add: same_type_def)
  then have "conforms S (AList.update ''locations'' (MMaps xs) vars)" for xs
    by (rule conforms_update [OF assms])
  then show ?thesis using assms(1) extendSourceVars_cases [of meta vars] by metis
qed

text \<open>What every entry of the table of variables satisfies.\<close>

definition variable_ok :: "attestationVariable \<Rightarrow> bool" where
  "variable_ok v =
     (distinct (map fst (av_fields v)) \<and> list_all (\<lambda>(k, d). distinct_keys d \<and> k \<noteq> varVerified \<and> k \<noteq> varPresent) (av_fields v) \<and>
      (av_extendSource v \<longrightarrow> map_of (av_fields v) ''locations'' = Some (MMaps [])))"

lemma variables_ok: "v \<in> set attestationVariables \<Longrightarrow> variable_ok v"
proof -
  have "list_all variable_ok attestationVariables" by code_simp
  then show "v \<in> set attestationVariables \<Longrightarrow> variable_ok v" by (simp add: list_all_iff)
qed

definition variable_schema :: "attestationVariable \<Rightarrow> cel_var" where
  "variable_schema v = AList.update varPresent (MBool False) (build_variable v None)"

lemma map_of_variable_schema:
  "map_of (variable_schema v) k =
     (if k = varPresent \<or> k = varVerified then Some (MBool False) else map_of (av_fields v) k)"
  by (simp add: variable_schema_def build_variable_def update_conv')

lemma fits_bool: "fits (MBool a) (MBool b)"
  by (rule fits_leaf) (simp_all add: same_type_def)

lemma build_variable_conforms:
  assumes "variable_ok v"
  shows "conforms (variable_schema v) (build_variable v (Some r))"
proof -
  let ?S = "variable_schema v"
  have flds: "\<forall>p \<in> set (av_fields v). map_of ?S (fst p) = Some (snd p) \<and> distinct_keys (snd p)"
    using assms by (auto simp: variable_ok_def map_of_variable_schema list_all_iff intro: map_of_is_SomeI)
  have "conforms ?S (av_fields v)"
    using flds fits_refl by (fastforce simp: conforms_def dest: map_of_SomeD)
  then have "conforms ?S (AList.update varVerified (MBool (cr_Passed r)) (AList.update varVerified (MBool False) (av_fields v)))"
    by (intro conforms_update [where d = "MBool False"] fits_bool) (simp_all add: map_of_variable_schema)
  from copyFields_conforms [OF this flds] show ?thesis
    using assms extendSourceVars_conforms [of ?S]
    by (auto simp: build_variable_def Let_def variable_ok_def map_of_variable_schema)
qed

lemma copyFields_other: "k \<notin> fst ` set flds \<Longrightarrow> map_of (copyFields meta vars flds) k = map_of vars k"
  by (induction meta vars flds rule: copyFields.induct)
    (auto simp: update_conv' split: option.split meta.split)

lemma copyFields_keeps: "map_of vars k \<noteq> None \<Longrightarrow> map_of (copyFields meta vars flds) k \<noteq> None"
proof (induction meta vars flds rule: copyFields.induct)
  case (2 meta vars key d flds)
  show ?case
    unfolding copyFields.simps
    by (rule "2.IH"(2)) (use "2.prems" in \<open>auto simp: update_conv' split: option.split meta.split\<close>)
qed simp

lemma extendSourceVars_other: "k \<noteq> ''locations'' \<Longrightarrow> map_of (extendSourceVars meta vars) k = map_of vars k"
  using extendSourceVars_cases [of meta vars] by (elim disjE exE) (simp_all only: update_conv' fun_upd_other not_False_eq_True)

lemma extendSourceVars_keeps: "map_of vars k \<noteq> None \<Longrightarrow> map_of (extendSourceVars meta vars) k \<noteq> None"
  using extendSourceVars_cases [of meta vars] by (elim disjE exE) (simp_all add: update_conv')

lemma build_variable_verified:
  assumes "variable_ok v"
  shows "map_of (build_variable v (Some r)) varVerified = Some (MBool (cr_Passed r))"
proof -
  have "varVerified \<notin> fst ` set (av_fields v)" using assms by (auto simp: variable_ok_def list_all_iff)
  then show ?thesis
    by (simp add: build_variable_def Let_def copyFields_other extendSourceVars_other update_conv')
qed

lemma build_variable_keeps:
  assumes "map_of (av_fields v) k \<noteq> None"
  shows "map_of (build_variable v (Some r)) k \<noteq> None"
proof -
  let ?vars = "copyFields (metadata_of r) (AList.update varVerified (MBool (cr_Passed r))
      (AList.update varVerified (MBool False) (av_fields v))) (av_fields v)"
  have "map_of ?vars k \<noteq> None"
    using assms by (intro copyFields_keeps) (simp add: update_conv')
  moreover have "build_variable v (Some r) = (if av_extendSource v then extendSourceVars (metadata_of r) ?vars else ?vars)"
    by (simp only: build_variable_def Let_def option.case)
  ultimately show ?thesis by (cases "av_extendSource v") (simp_all only: extendSourceVars_keeps if_True if_False not_False_eq_True)
qed

text \<open>C38: what rules see of an attestation.  Whatever a check reports, the variable of its type only has declared fields, each of its
  declared type; it says verified exactly when the attestation was present and its check passed; and data fields exist
  exactly when the attestation was present, so a rule that reads data of a missing attestation fails instead of seeing
  defaults.\<close>

theorem cel_variables_typed:
  assumes "v \<in> set attestationVariables"
  shows "conforms (variable_schema v) (buildAttestationVars res v) \<and>
    map_of (buildAttestationVars res v) varPresent = Some (MBool (\<exists>r. res = Some r \<and> \<not> cr_Missing r)) \<and>
    map_of (buildAttestationVars res v) varVerified = Some (MBool (\<exists>r. res = Some r \<and> \<not> cr_Missing r \<and> cr_Passed r)) \<and>
    (\<forall>k \<in> fst ` set (av_fields v). map_of (buildAttestationVars res v) k \<noteq> None \<longleftrightarrow> (\<exists>r. res = Some r \<and> \<not> cr_Missing r))"
proof (cases "\<exists>r. res = Some r \<and> \<not> cr_Missing r")
  case False
  then have eq: "buildAttestationVars res v = [(varVerified, MBool False), (varPresent, MBool False)]"
    by (auto simp: buildAttestationVars_def split: option.split)
  have "k \<noteq> varVerified \<and> k \<noteq> varPresent" if "k \<in> fst ` set (av_fields v)" for k
    using that variables_ok [OF assms] by (auto simp: variable_ok_def list_all_iff)
  then have "\<forall>k \<in> fst ` set (av_fields v). map_of (buildAttestationVars res v) k = None" by (simp add: eq)
  moreover have "conforms (variable_schema v) (buildAttestationVars res v)"
    by (simp add: eq conforms_def map_of_variable_schema fits_bool)
  moreover have "map_of (buildAttestationVars res v) varPresent = Some (MBool False)"
    "map_of (buildAttestationVars res v) varVerified = Some (MBool False)" by (simp_all add: eq)
  ultimately show ?thesis using False by auto
next
  case True
  then obtain r where r: "res = Some r" "\<not> cr_Missing r" by blast
  then have eq: "buildAttestationVars res v = AList.update varPresent (MBool True) (build_variable v (Some r))"
    by (simp add: buildAttestationVars_def)
  note ok = variables_ok [OF assms]
  have "conforms (variable_schema v) (buildAttestationVars res v)" unfolding eq
    by (rule conforms_update [OF build_variable_conforms [OF ok], where d = "MBool False"])
      (simp_all add: map_of_variable_schema fits_bool)
  moreover have "map_of (buildAttestationVars res v) k \<noteq> None" if "k \<in> fst ` set (av_fields v)" for k
  proof -
    have "map_of (av_fields v) k \<noteq> None" using that by (simp add: map_of_eq_None_iff)
    then have "map_of (build_variable v (Some r)) k \<noteq> None" by (rule build_variable_keeps)
    then show ?thesis unfolding eq by (simp add: update_conv')
  qed
  moreover have "map_of (buildAttestationVars res v) varVerified = Some (MBool (cr_Passed r))"
    using build_variable_verified [OF ok, of r] by (simp add: eq update_conv')
  moreover have "map_of (buildAttestationVars res v) varPresent = Some (MBool True)" by (simp add: eq update_conv')
  ultimately show ?thesis using r by auto
qed

theorem cel_variables_typed_witness:
  "conforms (variable_schema (hd attestationVariables)) (buildAttestationVars (Some (PassResult CheckTypeSLSA [])) (hd attestationVariables)) \<and>
   map_of (buildAttestationVars (Some (PassResult CheckTypeSLSA [])) (hd attestationVariables)) varVerified = Some (MBool True)"
proof -
  have "attestationVariables \<noteq> []" unfolding attestationVariables_def by (rule list.distinct(2))
  then have "hd attestationVariables \<in> set attestationVariables" by (rule hd_in_set)
  note typed = cel_variables_typed [OF this, of "Some (PassResult CheckTypeSLSA [])"]
  have "\<exists>r. Some (PassResult CheckTypeSLSA []) = Some r \<and> \<not> cr_Missing r \<and> cr_Passed r"
    by (simp add: check_result_defs)
  from eqTrueI [OF this] typed show ?thesis by (elim conjE) (simp only: simp_thms)
qed

end
