(* ===== verification/Checks.thy ===== *)
theory Checks
  imports Attestations Cel Circuit
begin

text \<open>
  The checks of one verification (check.go, check_results.go, check_runners.go, check_guac.go of src/internal/verifier):
  fetching the attestations of an image, the circuit breaker around the fetch, routing attestations to checks, running the
  checks, and combining their results under a mode.

  The record \<open>check_env\<close> holds what this code calls: the fetcher, the verification function of each attestation type (\<open>None\<close>
  stands for a panic), the CEL library and the GUAC client (\<open>None\<close> when GUAC is not configured).  Checks run in goroutines of their own and share
  nothing, so running them is mapping over the list of checks.  Other verifications use the circuit breakers while an image is
  fetched; \<open>ce_others\<close> is what they do to the registry of breakers in the meantime.
  Metrics, log messages and the semaphores behind \<open>ce_slots\<close> are left out.
\<close>

section \<open>Results\<close>

definition resultHasFailures :: "Result \<Rightarrow> bool" where
  "resultHasFailures result = (\<not> r_Allowed result \<or> list_ex (\<lambda>c. \<not> cr_Passed c) (r_CheckResults result))"

definition resultShouldUseShorterTTL :: "Result \<Rightarrow> bool" where
  "resultShouldUseShorterTTL result =
     (resultHasFailures result \<or> list_ex (\<lambda>c. cr_Type c = CheckTypeFetch) (r_CheckResults result))"

definition applyEnforcement :: "VerificationMode \<Rightarrow> Result \<Rightarrow> string \<Rightarrow> Result \<times> goerr option" where
  "applyEnforcement mode result imageRef =
     (let result = result\<lparr>r_Verified := \<not> resultHasFailures result \<and> \<not> Incomplete result, r_Mode := mode\<rparr>
      in if r_Allowed result then (result, None)
         else if mode = ModeEnforce then
           (result, Some (errors_New (''supply chain verification failed: '' @ imageRef @ '': '' @ r_Reason result)
                            [ErrVerificationFailed]))
         else (result\<lparr>r_Allowed := True\<rparr>, None))"

definition handleMissingAttestation :: "Action \<Rightarrow> CheckType \<Rightarrow> string \<Rightarrow> CheckResult" where
  "handleMissingAttestation pol checkType detail =
     (let result = (if pol = ActionDeny then FailResult checkType detail None
                    else if pol = ActionWarn then WarnResult checkType detail
                    else if pol = ActionAllow then PassResult checkType detail
                    else FailResult checkType detail None)
      in result\<lparr>cr_Missing := checkType \<noteq> CheckTypeFetch\<rparr>)"

definition handleFetchError :: "goerr \<Rightarrow> string \<Rightarrow> Action \<Rightarrow> Result" where
  "handleFetchError fetchErr imageRef fetchFailurePolicy =
     (let detail = ''attestation fetch failed for '' @ imageRef
                   @ (if errors_Is fetchErr ErrCircuitBreakerOpen then '' (circuit breaker open)'' else [])
      in resultFromCheck (handleMissingAttestation fetchFailurePolicy CheckTypeFetch detail))"

definition checkVSAMissing :: "Policy \<Rightarrow> string \<Rightarrow> Result option" where
  "checkVSAMissing pol detail =
     (let missing = MissingPolicyFor pol CheckTypeVSA
      in if missing = ActionAllow \<or> missing = ActionWarn then None
         else Some (resultFromCheck (handleMissingAttestation missing CheckTypeVSA detail)))"

definition appendReason :: "Result \<Rightarrow> string \<Rightarrow> Result" where
  "appendReason result detail =
     (if r_Reason result = [] then result\<lparr>r_Reason := detail\<rparr>
      else result\<lparr>r_Reason := r_Reason result @ ''; '' @ detail\<rparr>)"

definition applyCheckResult :: "Result \<Rightarrow> CheckResult \<Rightarrow> Result" where
  "applyCheckResult result check =
     (if \<not> cr_Passed check then appendReason (result\<lparr>r_Allowed := False\<rparr>) (cr_Detail check)
      else if cr_Status check = StatusWarn then appendReason result (cr_Detail check)
      else result)"

text \<open>Appending a check to the results and applying it, which the source repeats wherever it adds a check.\<close>

definition add_check :: "Result \<Rightarrow> CheckResult \<Rightarrow> Result" where
  "add_check result check = applyCheckResult (result\<lparr>r_CheckResults := r_CheckResults result @ [check]\<rparr>) check"

definition appendVSAWarning :: "Result \<Rightarrow> Policy \<Rightarrow> string \<Rightarrow> Result" where
  "appendVSAWarning result pol detail =
     (if MissingPolicyFor pol CheckTypeVSA \<noteq> ActionWarn then result
      else add_check result (handleMissingAttestation ActionWarn CheckTypeVSA detail))"

fun appendOptionalChecks :: "Result \<Rightarrow> CheckResult option list \<Rightarrow> Result" where
  "appendOptionalChecks result [] = result"
| "appendOptionalChecks result (None # opts) = appendOptionalChecks result opts"
| "appendOptionalChecks result (Some check # opts) = appendOptionalChecks (add_check result check) opts"

definition combineResults :: "CheckResult option list \<Rightarrow> Result" where
  "combineResults checks =
     appendOptionalChecks \<lparr>r_Allowed = True, r_Verified = False, r_Mode = [], r_Reason = [], r_CheckResults = []\<rparr> checks"

definition resultCacheTTL :: "Config \<Rightarrow> Result \<Rightarrow> duration" where
  "resultCacheTTL cfg result =
     (if resultShouldUseShorterTTL result \<and> cf_CacheFailureTTL cfg > 0 then cf_CacheFailureTTL cfg else cf_CacheTTL cfg)"

definition fetchErrorCacheTTL :: "Config \<Rightarrow> duration" where
  "fetchErrorCacheTTL cfg =
     (let ttl = (if cf_CacheFailureTTL cfg \<le> 0 then cf_CacheTTL cfg else cf_CacheFailureTTL cfg)
      in if cf_CircuitBreakerCooldown cfg > 0 then min ttl (cf_CircuitBreakerCooldown cfg) else ttl)"

section \<open>Routing attestations to checks\<close>

record checkSpec =
  cs_checkType :: CheckType
  cs_label :: string
  cs_missingNoun :: string
  cs_predicates :: "string list"

abbreviation checkTypeBaselineSBOM :: CheckType where "checkTypeBaselineSBOM \<equiv> ''baseline-sbom''"

definition payloadCheckSpec :: "CheckType \<Rightarrow> string \<Rightarrow> string list \<Rightarrow> checkSpec" where
  "payloadCheckSpec ct label predicates =
     \<lparr>cs_checkType = ct, cs_label = label, cs_missingNoun = label @ '' attestation'', cs_predicates = predicates\<rparr>"

definition checkSpecs :: "checkSpec list" where
  "checkSpecs =
     [\<lparr>cs_checkType = CheckTypeSLSA, cs_label = ''SLSA'', cs_missingNoun = ''provenance attestation'',
       cs_predicates = [PredicateSLSAProvenanceV1, PredicateSLSAProvenanceV02]\<rparr>,
      \<lparr>cs_checkType = CheckTypeVEX, cs_label = ''VEX'', cs_missingNoun = ''VEX attestation'',
       cs_predicates = [PredicateOpenVEX, PredicateCycloneDX]\<rparr>,
      \<lparr>cs_checkType = CheckTypeNotation, cs_label = ''Notation'', cs_missingNoun = ''Notation signature'', cs_predicates = []\<rparr>,
      \<lparr>cs_checkType = CheckTypeSBOM, cs_label = ''SBOM'', cs_missingNoun = ''SBOM attestation'',
       cs_predicates = [PredicateSPDX, PredicateCycloneDX]\<rparr>,
      payloadCheckSpec CheckTypeSCAI ''SCAI'' [PredicateSCAI],
      payloadCheckSpec CheckTypeSource ''source'' [PredicateSLSASourceV1],
      payloadCheckSpec CheckTypeBuildEnv ''build environment'' [PredicateBuildEnv],
      payloadCheckSpec CheckTypeVulnScan ''vulnerability scan'' [PredicateVulnScan, PredicateVulnScanV02],
      payloadCheckSpec CheckTypeTestResult ''test result'' [PredicateTestResult],
      payloadCheckSpec CheckTypeRelease ''release'' [PredicateRelease],
      payloadCheckSpec CheckTypeRuntimeTrace ''runtime trace'' [PredicateRuntimeTrace],
      payloadCheckSpec CheckTypeScorecard ''OpenSSF Scorecard'' [PredicateScorecard]]"

definition add_route :: "CheckType \<Rightarrow> string \<Rightarrow> (string \<rightharpoonup> CheckType list) \<Rightarrow> string \<rightharpoonup> CheckType list" where
  "add_route ct predicate lookup =
     lookup(predicate \<mapsto> (case lookup predicate of None \<Rightarrow> [] | Some cts \<Rightarrow> cts) @ [ct])"

definition buildPredicateCheckTypes :: "string \<rightharpoonup> CheckType list" where
  "buildPredicateCheckTypes =
     fold (\<lambda>spec. fold (add_route (cs_checkType spec)) (cs_predicates spec)) checkSpecs
       [PredicateVSA \<mapsto> [CheckTypeVSA], PredicateBaselineSBOM \<mapsto> [checkTypeBaselineSBOM]]"

type_synonym attestationBins = "CheckType \<Rightarrow> VerifiedAttestation list"

definition add_to_bin :: "VerifiedAttestation \<Rightarrow> CheckType \<Rightarrow> attestationBins \<Rightarrow> attestationBins" where
  "add_to_bin att ct bins = bins(ct := bins ct @ [att])"

fun bin_loop :: "attestationBins \<Rightarrow> VerifiedAttestation list \<Rightarrow> attestationBins" where
  "bin_loop bins [] = bins"
| "bin_loop bins (att # atts) =
     bin_loop
       (if va_SignatureType att = SignatureTypeNotation then add_to_bin att CheckTypeNotation bins
        else (case buildPredicateCheckTypes (va_PredicateType att) of
                None \<Rightarrow> bins
              | Some checkTypes \<Rightarrow> fold (add_to_bin att) checkTypes bins)) atts"

definition binAttestations :: "VerifiedAttestation list \<Rightarrow> attestationBins" where
  "binAttestations attestations = bin_loop (\<lambda>_. []) attestations"

section \<open>Running the checks\<close>

record checkInput =
  ci_bins :: attestationBins
  ci_pol :: Policy
  ci_imageRef :: string
  ci_digest :: string
  ci_relatedDigests :: "string list"
  ci_parsedRef :: "Reference option"

type_synonym fetcher = "string \<Rightarrow> FetchOptions \<Rightarrow> VerifiedAttestation list \<times> goerr option"

record check_env =
  ce_vsa :: vsa_env
  ce_vsaCtxErr :: "goerr option"
  ce_fetcher :: "fetcher option"
  ce_fetchCtxErr :: "goerr option"
  ce_fetchPanics :: bool
  ce_unreachable :: "goerr \<Rightarrow> bool"
  ce_slots :: "string \<Rightarrow> goerr option"
  ce_guac :: "guac_client option"
  ce_guacOrder :: "string list"
  ce_guacPanics :: bool
  ce_verify :: "CheckType \<Rightarrow> checkInput \<Rightarrow> (goerr + CheckResult option) option"
  ce_cel :: cel_lib
  ce_now :: time
  ce_hosts :: "string list"
  ce_others :: "Registry \<Rightarrow> Registry"

definition missingAttestationResult :: "checkSpec \<Rightarrow> checkInput \<Rightarrow> CheckResult" where
  "missingAttestationResult spec input =
     handleMissingAttestation (MissingPolicyFor (ci_pol input) (cs_checkType spec)) (cs_checkType spec)
       (''no '' @ cs_missingNoun spec @ '' found for image '' @ ci_imageRef input)"

definition runAttestationCheck :: "check_env \<Rightarrow> checkSpec \<Rightarrow> checkInput \<Rightarrow> CheckResult option" where
  "runAttestationCheck env spec input =
     (if ci_bins input (cs_checkType spec) = [] then Some (missingAttestationResult spec input)
      else
        (case ce_verify env (cs_checkType spec) input of
           None \<Rightarrow> None
         | Some (Inl err) \<Rightarrow>
             if errors_Is err ErrNotApplicable \<or> errors_Is err ErrNotationNotConfigured then
               Some (missingAttestationResult spec input)
             else
               Some (FailResult (cs_checkType spec)
                 (cs_label spec @ '' verification error for '' @ ci_imageRef input @ '': '' @ err_msg err) (Some err))
         | Some (Inr None) \<Rightarrow>
             Some (FailResult (cs_checkType spec)
               (cs_label spec @ '' verification returned no result for '' @ ci_imageRef input) None)
         | Some (Inr (Some result)) \<Rightarrow> Some result))"

definition runParallelCheck :: "CheckType \<Rightarrow> CheckResult option \<Rightarrow> CheckResult" where
  "runParallelCheck checkType outcome =
     (case outcome of
        None \<Rightarrow> FailResult checkType (''internal error during '' @ checkType @ '' check'') None
      | Some result \<Rightarrow> result)"

definition runParallelChecks :: "check_env \<Rightarrow> checkInput \<Rightarrow> Result" where
  "runParallelChecks env input =
     combineResults
       (map (\<lambda>spec. Some (runParallelCheck (cs_checkType spec) (runAttestationCheck env spec input))) checkSpecs)"

definition extractRegistryRepo :: "Reference option \<Rightarrow> string \<Rightarrow> string \<times> string" where
  "extractRegistryRepo parsedRef imageRef =
     (case parsedRef of None \<Rightarrow> (imageRef, imageRef) | Some r \<Rightarrow> (ref_Registry r, ref_Repository r))"

definition runCELCheck ::
  "check_env \<Rightarrow> Policy \<Rightarrow> string \<Rightarrow> string \<Rightarrow> string \<Rightarrow> Reference option \<Rightarrow> Result \<Rightarrow> CheckResult option" where
  "runCELCheck env pol imageRef digest namespace parsedRef result =
     (case pl_CompiledCEL pol of
        None \<Rightarrow> None
      | Some cel \<Rightarrow>
          let (registry, repository) = extractRegistryRepo parsedRef imageRef;
              checkResults = fold (\<lambda>c m. m(cr_Type c \<mapsto> c)) (r_CheckResults result) Map.empty
          in Some (cel_Evaluate (ce_cel env) cel (BuildVars imageRef registry repository digest namespace checkResults)))"

definition appendCELCheck ::
  "check_env \<Rightarrow> Policy \<Rightarrow> string \<Rightarrow> string \<Rightarrow> string \<Rightarrow> Reference option \<Rightarrow> Result \<Rightarrow> Result" where
  "appendCELCheck env pol imageRef digest namespace parsedRef result =
     (case runCELCheck env pol imageRef digest namespace parsedRef result of
        None \<Rightarrow> result
      | Some c \<Rightarrow> add_check result c)"

definition runVSAAndParallelChecks ::
  "check_env \<Rightarrow> attestationBins \<Rightarrow> Policy \<Rightarrow> string \<Rightarrow> string \<Rightarrow> string \<Rightarrow> Reference option \<Rightarrow> CheckResult option list
     \<Rightarrow> string list \<Rightarrow> Result" where
  "runVSAAndParallelChecks env bins pol imageRef digest namespace parsedRef opts related =
     (let outc = checkVSA (ce_vsa env) (ce_vsaCtxErr env) (ce_now env) (bins CheckTypeVSA) pol imageRef digest parsedRef
      in (case vo_rejected outc of
            Some r \<Rightarrow> r
          | None \<Rightarrow>
         (case vo_passed outc of
            Some c \<Rightarrow>
              appendCELCheck env pol imageRef digest namespace parsedRef
                (appendOptionalChecks
                   \<lparr>r_Allowed = True, r_Verified = False, r_Mode = [],
                    r_Reason = ''VSA verification passed, skipping direct verification'', r_CheckResults = [c]\<rparr> opts)
          | None \<Rightarrow>
              let detail = missingDetail outc imageRef
              in (case checkVSAMissing pol detail of
                    Some denied \<Rightarrow> denied
                  | None \<Rightarrow>
                      let result = runParallelChecks env
                            \<lparr>ci_bins = bins, ci_pol = pol, ci_imageRef = imageRef, ci_digest = digest,
                             ci_relatedDigests = related, ci_parsedRef = parsedRef\<rparr>
                      in appendCELCheck env pol imageRef digest namespace parsedRef
                           (appendVSAWarning (appendOptionalChecks result opts) pol detail)))))"


section \<open>GUAC\<close>

definition applyGUACFallback :: "Config \<Rightarrow> string \<Rightarrow> goerr option \<Rightarrow> CheckResult option" where
  "applyGUACFallback cfg imageRef err =
     (let detail = ''GUAC query failed for '' @ imageRef @ '': '' @ (case err of None \<Rightarrow> ''%!s(<nil>)'' | Some e \<Rightarrow> err_msg e);
          fallback = gc_FallbackPolicy (cf_Guac cfg)
      in if fallback = ActionAllow then None
         else if fallback = ActionDeny then Some (FailResult CheckTypeGUAC detail err)
         else Some (WarnResult CheckTypeGUAC detail))"

text \<open>The outer \<open>None\<close> is a panic of the query.\<close>

definition fetchGUACData ::
  "check_env \<Rightarrow> Config \<Rightarrow> guac_client \<Rightarrow> string \<Rightarrow> string \<Rightarrow> Breaker option \<Rightarrow> CheckResult option option \<times> Breaker option" where
  "fetchGUACData env cfg client digest imageRef breaker =
     (let (breaker, allowed) =
            (case breaker of None \<Rightarrow> (None, True) | Some b \<Rightarrow> let (b', ok) = Allow (ce_now env) b in (Some b', ok))
      in if \<not> allowed then
           (Some (applyGUACFallback cfg imageRef (Some (errors_New ''GUAC circuit breaker open'' []))), breaker)
         else if ce_guacPanics env then (None, breaker)
         else
           let result = guac_Query (ce_guacOrder env) client digest (gc_Checks (cf_Guac cfg)) (gc_MaxDependencies (cf_Guac cfg))
           in if \<not> cr_Passed result then
                let breaker = (case breaker of
                                 None \<Rightarrow> None
                               | Some b \<Rightarrow>
                                   if (case cr_Err result of None \<Rightarrow> False | Some e \<Rightarrow> errors_Is e ErrGUACAuthError)
                                   then Some b else Some (fst (RecordFailure (ce_now env) b)));
                    fallback = applyGUACFallback cfg imageRef (cr_Err result)
                in (case cr_Metadata result of
                      None \<Rightarrow> (Some fallback, breaker)
                    | Some m \<Rightarrow>
                        let fallback = (case fallback of
                              None \<Rightarrow> PassResult CheckTypeGUAC
                                        (''GUAC query failed for '' @ imageRef @ '', allowed by fallback policy'')
                            | Some r \<Rightarrow> r)
                        in (Some (Some (fallback\<lparr>cr_Metadata := Some m\<rparr>)), breaker))
              else (Some (Some result), map_option RecordSuccess breaker))"

definition startGUACQuery ::
  "check_env \<Rightarrow> Config \<Rightarrow> string \<Rightarrow> string \<Rightarrow> Breaker option \<Rightarrow> CheckResult option \<times> Breaker option" where
  "startGUACQuery env cfg digest imageRef breaker =
     (case ce_guac env of
        None \<Rightarrow> (None, breaker)
      | Some client \<Rightarrow>
          (case fetchGUACData env cfg client digest imageRef breaker of
             (None, breaker) \<Rightarrow> (applyGUACFallback cfg imageRef (Some (errors_New ''GUAC query panicked'' [])), breaker)
           | (Some r, breaker) \<Rightarrow> (r, breaker)))"

section \<open>Fetching\<close>

record fetchOutcome =
  ft_attestations :: "VerifiedAttestation list"
  ft_digest :: string
  ft_err :: "goerr option"
  ft_transportErr :: "goerr option"

definition isIgnorableVerificationFailure :: "goerr \<Rightarrow> bool" where
  "isIgnorableVerificationFailure err =
     (errors_Is err ErrAttestationVerificationFailed \<and> \<not> errors_Is err ErrIncompleteAttestationSet)"

definition isFetchTransportFailure :: "check_env \<Rightarrow> goerr \<Rightarrow> bool" where
  "isFetchTransportFailure env err =
     (if errors_Is err ErrAttestationVerificationFailed then False
      else if (case ce_fetchCtxErr env of None \<Rightarrow> False | Some e \<Rightarrow> errors_Is e ErrContextCanceled) then False
      else ce_unreachable env err \<or> errors_Is err ErrDeadlineExceeded)"

definition recordTransport :: "check_env \<Rightarrow> goerr \<Rightarrow> fetchOutcome \<Rightarrow> fetchOutcome" where
  "recordTransport env err outc =
     (if ft_transportErr outc = None \<and> isFetchTransportFailure env err then outc\<lparr>ft_transportErr := Some err\<rparr> else outc)"

definition keepPartial ::
  "VerifiedAttestation list \<Rightarrow> string \<Rightarrow> VerifiedAttestation list \<Rightarrow> string \<Rightarrow> fetchOutcome \<Rightarrow> fetchOutcome" where
  "keepPartial platform platformDigest index indexDigest outc =
     (if platform \<noteq> [] then outc\<lparr>ft_attestations := platform, ft_digest := platformDigest\<rparr>
      else if index \<noteq> [] then outc\<lparr>ft_attestations := index, ft_digest := indexDigest\<rparr>
      else outc)"

definition platformError ::
  "VerifyRequest \<Rightarrow> goerr \<Rightarrow> VerifiedAttestation list \<Rightarrow> goerr option \<Rightarrow> VerifiedAttestation list \<Rightarrow> fetchOutcome \<Rightarrow> fetchOutcome" where
  "platformError req err partial indexErr indexPartial outc =
     (let ignorable = isIgnorableVerificationFailure err
      in (case indexErr of
            Some ie \<Rightarrow>
              if ignorable \<and> \<not> isIgnorableVerificationFailure ie then outc\<lparr>ft_err := Some ie\<rparr>
              else
                let outc = outc\<lparr>ft_err := Some \<lparr>err_msg = ''fetching attestations: '' @ err_msg err @ '' (index digest: ''
                                                          @ err_msg ie @ '')'', err_wraps = err_wraps err\<rparr>\<rparr>
                in if ignorable then keepPartial partial (rq_Digest req) indexPartial (rq_IndexDigest req) outc else outc
          | None \<Rightarrow>
              let outc = outc\<lparr>ft_err := Some (Errorf_w ''fetching attestations'' err)\<rparr>
              in if ignorable then keepPartial partial (rq_Digest req) indexPartial (rq_IndexDigest req) outc else outc))"

definition fetchIndexAttestations ::
  "check_env \<Rightarrow> fetcher \<Rightarrow> Config \<Rightarrow> VerifyRequest \<Rightarrow> Policy \<Rightarrow> Reference option \<Rightarrow> fetchOutcome
     \<Rightarrow> VerifiedAttestation list \<times> goerr option \<times> fetchOutcome" where
  "fetchIndexAttestations env fetch cfg req pol parsedRef outc =
     (if rq_IndexDigest req = [] then ([], None, outc)
      else
        (case fetch (rq_ImageRef req) (buildFetchOpts pol (rq_IndexDigest req) (cf_FetchTimeout cfg) parsedRef) of
           (atts, Some err) \<Rightarrow>
             (if isIgnorableVerificationFailure err then atts else [],
              Some (Errorf_w (''fetching attestations for index digest '' @ rq_IndexDigest req) err),
              recordTransport env err outc)
         | (atts, None) \<Rightarrow>
             if atts = [] then ([], None, outc)
             else ([], None, outc\<lparr>ft_attestations := atts, ft_digest := rq_IndexDigest req\<rparr>)))"

definition fetchAttestations ::
  "check_env \<Rightarrow> fetcher \<Rightarrow> Config \<Rightarrow> VerifyRequest \<Rightarrow> Policy \<Rightarrow> Reference option \<Rightarrow> fetchOutcome" where
  "fetchAttestations env fetch cfg req pol parsedRef =
     (let (indexPartial, indexErr, outc) =
            fetchIndexAttestations env fetch cfg req pol parsedRef
              \<lparr>ft_attestations = [], ft_digest = rq_Digest req, ft_err = None, ft_transportErr = None\<rparr>
      in if ft_attestations outc \<noteq> [] then outc
         else
           (case fetch (rq_ImageRef req) (buildFetchOpts pol (rq_Digest req) (cf_FetchTimeout cfg) parsedRef) of
              (atts, Some err) \<Rightarrow> platformError req err atts indexErr indexPartial (recordTransport env err outc)
            | (atts, None) \<Rightarrow>
                (case indexErr of
                   Some ie \<Rightarrow>
                     if atts = [] then
                       keepPartial [] (rq_Digest req) indexPartial (rq_IndexDigest req) (outc\<lparr>ft_err := Some ie\<rparr>)
                     else if \<not> isIgnorableVerificationFailure ie then outc\<lparr>ft_err := Some ie\<rparr>
                     else outc\<lparr>ft_attestations := atts\<rparr>
                 | None \<Rightarrow> outc\<lparr>ft_attestations := atts\<rparr>)))"

section \<open>One verification\<close>

definition emptyDigestResult :: "string \<Rightarrow> Result" where
  "emptyDigestResult imageRef =
     resultFromCheck (FailResult CheckTypeInternal (''cannot verify '' @ imageRef @ '': image digest is empty'')
       (Some (errors_New ''image digest is empty'' [ErrEmptyDigest])))"

definition unverifiedAttestationsCheck :: "goerr option \<Rightarrow> string \<Rightarrow> CheckResult option" where
  "unverifiedAttestationsCheck fetchErr imageRef =
     (case fetchErr of
        None \<Rightarrow> None
      | Some e \<Rightarrow>
          if \<not> isIgnorableVerificationFailure e then None
          else Some (WarnResult CheckTypeAttestation
                 (''ignored attestations of '' @ imageRef @ '' that failed verification: '' @ err_msg e)))"

definition fetchErrorResult :: "goerr \<Rightarrow> string \<Rightarrow> Action \<Rightarrow> Result" where
  "fetchErrorResult fetchErr imageRef fetchPolicy =
     (if \<not> errors_Is fetchErr ErrAttestationVerificationFailed then handleFetchError fetchErr imageRef fetchPolicy
      else resultFromCheck (FailResult CheckTypeAttestation
             (''attestation verification failed for '' @ imageRef @ '': '' @ err_msg fetchErr) (Some fetchErr)))"

definition relatedDigests :: "VerifyRequest \<Rightarrow> string \<Rightarrow> string list" where
  "relatedDigests req attestDigest =
     filter (\<lambda>candidate. candidate \<noteq> [] \<and> candidate \<noteq> attestDigest) [rq_Digest req, rq_IndexDigest req]"

definition maxRegistryHostLen :: nat where "maxRegistryHostLen = 253"

definition registryHost :: "Reference option \<Rightarrow> string \<Rightarrow> string" where
  "registryHost parsed imageRef =
     (case parsed of
        None \<Rightarrow> if length imageRef > maxRegistryHostLen then take maxRegistryHostLen imageRef else imageRef
      | Some r \<Rightarrow> ref_Registry r)"

definition runChecksWithoutFetcher :: "Policy \<Rightarrow> string \<Rightarrow> Result" where
  "runChecksWithoutFetcher pol imageRef =
     (let detail = ''no attestation fetcher configured for image '' @ imageRef;
          vsaMissing = MissingPolicyFor pol CheckTypeVSA
      in if vsaMissing \<noteq> ActionAllow \<and> vsaMissing \<noteq> ActionWarn then
           resultFromCheck (handleMissingAttestation vsaMissing CheckTypeVSA detail)
         else
           let cts = filter (\<lambda>ct. ct \<noteq> CheckTypeVSA \<and> \<not> (ct = CheckTypeNotation \<and> s_Notation (pl_Sections pol) = None))
                       AttestationCheckTypes
           in appendVSAWarning
                (combineResults (map (\<lambda>ct. Some (handleMissingAttestation (MissingPolicyFor pol ct) ct detail)) cts)) pol detail)"

text \<open>The state the verifications share: the breakers of the registries and the breaker of GUAC.\<close>

record shared =
  sh_breakers :: "Registry option"
  sh_guacBreaker :: "Breaker option"

definition registryBreakerByHost :: "string list \<Rightarrow> Registry option \<Rightarrow> string \<Rightarrow> Registry option \<times> nat option" where
  "registryBreakerByHost hosts registry host =
     (case registry of
        None \<Rightarrow> (None, None)
      | Some r \<Rightarrow> let (r', addr) = registry_Get hosts host r in (Some r', Some addr))"

definition on_registry :: "nat option \<Rightarrow> (Breaker \<Rightarrow> Breaker) \<Rightarrow> Registry option \<Rightarrow> Registry option" where
  "on_registry breaker f registry =
     (case breaker of None \<Rightarrow> registry | Some addr \<Rightarrow> map_option (on_breaker addr f) registry)"

definition acquireRegistryAccess ::
  "check_env \<Rightarrow> nat option \<Rightarrow> Registry option \<Rightarrow> string \<Rightarrow> string \<Rightarrow> Action \<Rightarrow> Registry option \<times> Permit \<times> Result option" where
  "acquireRegistryAccess env breaker registry host imageRef fetchPolicy =
     (let (registry, permit, allowed) =
            (case (breaker, registry) of
               (Some addr, Some r) \<Rightarrow>
                 let (b, permit, allowed) = Acquire (ce_now env) (rg_store r addr)
                 in (Some (on_breaker addr (\<lambda>_. b) r), permit, allowed)
             | _ \<Rightarrow> (registry, 0, True))
      in if \<not> allowed then
           (registry, permit,
            Some (handleFetchError (errors_New (''circuit breaker open for image: '' @ imageRef) [ErrCircuitBreakerOpen])
                    imageRef fetchPolicy))
         else
           (case ce_slots env host of
              Some err \<Rightarrow> (on_registry breaker (Release permit) registry, permit, Some (handleFetchError err imageRef fetchPolicy))
            | None \<Rightarrow> (registry, permit, None)))"

definition recordBreakerOutcome ::
  "check_env \<Rightarrow> nat option \<Rightarrow> Permit \<Rightarrow> fetchOutcome \<Rightarrow> Registry option \<Rightarrow> Registry option" where
  "recordBreakerOutcome env breaker permit fetched registry =
     on_registry breaker
       (if ft_transportErr fetched = None then Succeeded permit else (\<lambda>b. fst (Failed (ce_now env) permit b))) registry"

text \<open>What \<open>runChecks\<close> does with the outcome of fetching.\<close>

definition evaluateFetched ::
  "check_env \<Rightarrow> Config \<Rightarrow> Policy \<Rightarrow> Action \<Rightarrow> VerifyRequest \<Rightarrow> Reference option \<Rightarrow> CheckResult option \<Rightarrow> fetchOutcome
     \<Rightarrow> Result \<times> duration" where
  "evaluateFetched env cfg pol fetchPolicy req parsedRef guacResult fetched =
     (case ft_transportErr fetched of
        Some e \<Rightarrow> (handleFetchError e (rq_ImageRef req) fetchPolicy, fetchErrorCacheTTL cfg)
      | None \<Rightarrow>
          let unverified = unverifiedAttestationsCheck (ft_err fetched) (rq_ImageRef req)
          in (case (ft_err fetched, unverified) of
                (Some e, None) \<Rightarrow> (fetchErrorResult e (rq_ImageRef req) fetchPolicy, fetchErrorCacheTTL cfg)
              | _ \<Rightarrow>
                  let bins = binAttestations (scopeBuilderKeys (ft_attestations fetched) pol);
                      result = runVSAAndParallelChecks env bins pol (rq_ImageRef req) (ft_digest fetched)
                                 (rq_Namespace req) parsedRef [guacResult, unverified]
                                 (relatedDigests req (ft_digest fetched))
                  in (result, resultCacheTTL cfg result)))"

text \<open>\<open>None\<close> is a panic while fetching.  When the function returns or panics, the permit of the breaker is released.\<close>

definition runChecks ::
  "check_env \<Rightarrow> Config \<Rightarrow> Policy \<Rightarrow> VerificationMode \<Rightarrow> VerifyRequest \<Rightarrow> shared \<Rightarrow> (Result \<times> duration) option \<times> shared" where
  "runChecks env cfg pol mode req sh =
     (case ce_fetcher env of
        None \<Rightarrow> let result = runChecksWithoutFetcher pol (rq_ImageRef req) in (Some (result, resultCacheTTL cfg result), sh)
      | Some fetch \<Rightarrow>
          if rq_Digest req = [] then (Some (emptyDigestResult (rq_ImageRef req), 0), sh)
          else
            let parsedRef = ve_parse (ce_vsa env) (rq_ImageRef req);
                host = registryHost parsedRef (rq_ImageRef req);
                (registry0, breaker) = registryBreakerByHost (ce_hosts env) (sh_breakers sh) host;
                fetchPolicy = EffectiveFetchFailurePolicy cfg mode;
                (registry1, permit, blocked) =
                  acquireRegistryAccess env breaker registry0 host (rq_ImageRef req) fetchPolicy
            in (case blocked of
                  Some r \<Rightarrow> (Some (r, 0), sh\<lparr>sh_breakers := registry1\<rparr>)
                | None \<Rightarrow>
                    let (guacResult, guacBreaker) =
                          startGUACQuery env cfg (rq_Digest req) (rq_ImageRef req) (sh_guacBreaker sh);
                        registry2 = map_option (ce_others env) registry1;
                        fetched = fetchAttestations env fetch cfg req pol parsedRef;
                        registry3 = (if ce_fetchPanics env then registry2
                                     else recordBreakerOutcome env breaker permit fetched registry2);
                        outcome = (if ce_fetchPanics env then None
                                   else Some (evaluateFetched env cfg pol fetchPolicy req parsedRef guacResult fetched))
                    in (outcome, \<lparr>sh_breakers = on_registry breaker (Release permit) registry3, sh_guacBreaker = guacBreaker\<rparr>)))"

section \<open>Results and their checks\<close>

definition all_passed :: "CheckResult option list \<Rightarrow> bool" where
  "all_passed opts = (\<forall>c. Some c \<in> set opts \<longrightarrow> cr_Passed c)"

lemma all_passed_simps [simp]:
  "all_passed []" "all_passed (None # opts) = all_passed opts"
  "all_passed (Some c # opts) = (cr_Passed c \<and> all_passed opts)"
  by (auto simp: all_passed_def)

lemma all_passed_map_Some: "all_passed (map (\<lambda>x. Some (f x)) xs) \<longleftrightarrow> (\<forall>x \<in> set xs. cr_Passed (f x))"
  by (auto simp: all_passed_def)

definition consistent :: "Result \<Rightarrow> bool" where
  "consistent r = (r_Allowed r \<longleftrightarrow> (\<forall>c \<in> set (r_CheckResults r). cr_Passed c))"

lemma add_check_fields [simp]:
  "r_Allowed (add_check r c) \<longleftrightarrow> r_Allowed r \<and> cr_Passed c"
  "r_CheckResults (add_check r c) = r_CheckResults r @ [c]"
  by (simp_all add: add_check_def applyCheckResult_def appendReason_def)

lemma consistent_add [simp]: "consistent r \<Longrightarrow> consistent (add_check r c)"
  by (auto simp: consistent_def)

lemma appendOptionalChecks_allowed:
  "r_Allowed (appendOptionalChecks r opts) \<longleftrightarrow> r_Allowed r \<and> all_passed opts"
  "r_CheckResults (appendOptionalChecks r opts) = r_CheckResults r @ List.map_filter id opts"
  by (induction r opts rule: appendOptionalChecks.induct) (auto simp: List.map_filter_simps)

lemma consistent_append [simp]: "consistent r \<Longrightarrow> consistent (appendOptionalChecks r opts)"
  by (induction r opts rule: appendOptionalChecks.induct) simp_all

lemma combineResults_allowed: "r_Allowed (combineResults checks) \<longleftrightarrow> all_passed checks"
  by (simp add: combineResults_def appendOptionalChecks_allowed)

lemma consistent_combine [simp]: "consistent (combineResults checks)"
  unfolding combineResults_def by (rule consistent_append) (simp add: consistent_def)

lemma consistent_resultFromCheck [simp]: "consistent (resultFromCheck c)"
  by (simp add: consistent_def resultFromCheck_def)

lemma appendVSAWarning_fields:
  "consistent r \<Longrightarrow> consistent (appendVSAWarning r pol detail)"
  "r_Allowed (appendVSAWarning r pol detail) = r_Allowed r"
  by (simp_all add: appendVSAWarning_def handleMissingAttestation_def check_result_defs)

lemma handleMissing_passed: "cr_Passed (handleMissingAttestation pol ct detail) \<longleftrightarrow> pol = ActionWarn \<or> pol = ActionAllow"
  by (simp add: handleMissingAttestation_def check_result_defs)

text \<open>CEL rules hold on the checks of a result.\<close>

definition cel_ok :: "check_env \<Rightarrow> Policy \<Rightarrow> string \<Rightarrow> string \<Rightarrow> string \<Rightarrow> Reference option \<Rightarrow> Result \<Rightarrow> bool" where
  "cel_ok env pol imageRef digest namespace parsedRef result =
     (case runCELCheck env pol imageRef digest namespace parsedRef result of None \<Rightarrow> True | Some c \<Rightarrow> cr_Passed c)"

lemma cel_ok_rules:
  assumes "pl_CompiledCEL pol = Some rules" "cel_ok env pol imageRef digest namespace parsedRef result"
  shows "\<exists>vars. \<forall>rule \<in> set rules. rule_holds (ce_cel env) vars rule"
  using assms by (auto simp: cel_ok_def runCELCheck_def cel_Evaluate_passed Let_def split: prod.splits)

lemma appendCELCheck_fields:
  "consistent r \<Longrightarrow> consistent (appendCELCheck env pol ref d ns parsed r)"
  "r_Allowed (appendCELCheck env pol ref d ns parsed r) \<longleftrightarrow> r_Allowed r \<and> cel_ok env pol ref d ns parsed r"
  by (auto simp: appendCELCheck_def cel_ok_def split: option.split)

definition outcome_ok :: "vsaOutcome \<Rightarrow> bool" where
  "outcome_ok outc =
     ((\<forall>r. vo_rejected outc = Some r \<longrightarrow> consistent r \<and> \<not> r_Allowed r) \<and> (\<forall>c. vo_passed outc = Some c \<longrightarrow> cr_Passed c))"

lemma vsaOutcome_add_ok:
  assumes "outcome_ok outc"
  shows "outcome_ok (fst (vsaOutcome_add env ctxErr now pol ref att outc))"
proof (cases "vsa_Verify env ctxErr now (va_Payload att) pol ref None")
  case (Inl e)
  then show ?thesis using assms by (simp add: vsaOutcome_add_def outcome_ok_def)
next
  case (Inr r)
  have rejected: "consistent (resultFromCheck (vr_Check r)) \<and> \<not> r_Allowed (resultFromCheck (vr_Check r))" if "vr_HardReject r"
    using that vsa_Verify_passed_status [OF Inr] by (auto simp: resultFromCheck_def consistent_def)
  show ?thesis using assms Inr rejected by (auto simp: vsaOutcome_add_def outcome_ok_def)
qed

lemma vsa_loop_ok: "outcome_ok outc \<Longrightarrow> outcome_ok (vsa_loop env ctxErr now pol ref atts outc)"
proof (induction env ctxErr now pol ref atts outc rule: vsa_loop.induct)
  case (2 env ctxErr now pol ref att atts outc)
  obtain outc' stop where add: "vsaOutcome_add env ctxErr now pol ref att outc = (outc', stop)" by (rule prod.exhaust)
  have ok: "outcome_ok outc'" using vsaOutcome_add_ok [OF 2(2), of env ctxErr now pol ref att] by (simp add: add)
  show ?case using ok 2(1) [OF add [symmetric] refl _ ok] by (cases stop) (simp_all add: add)
qed simp

lemma checkVSA_outcome: "outcome_ok (checkVSA env ctxErr now atts pol ref d parsed)"
proof -
  have init: "outcome_ok \<lparr>vo_passed = None, vo_rejected = None, vo_failures = []\<rparr>" by (simp add: outcome_ok_def)
  then show ?thesis unfolding checkVSA_def Let_def by (simp add: vsa_loop_ok)
qed

text \<open>A check of an attestation type is satisfied: what was found verifies, or nothing applicable was found and the policy does not
  insist on it.\<close>

definition tolerated :: "Policy \<Rightarrow> CheckType \<Rightarrow> bool" where
  "tolerated pol ct = (MissingPolicyFor pol ct = ActionWarn \<or> MissingPolicyFor pol ct = ActionAllow)"

definition check_satisfied :: "check_env \<Rightarrow> checkInput \<Rightarrow> CheckType \<Rightarrow> bool" where
  "check_satisfied env input ct =
     (if ci_bins input ct = [] then tolerated (ci_pol input) ct
      else
        (case ce_verify env ct input of
           Some (Inr (Some c)) \<Rightarrow> cr_Passed c
         | Some (Inl e) \<Rightarrow> (errors_Is e ErrNotApplicable \<or> errors_Is e ErrNotationNotConfigured) \<and> tolerated (ci_pol input) ct
         | _ \<Rightarrow> False))"

lemma runParallelCheck_passed:
  "cr_Passed (runParallelCheck (cs_checkType spec) (runAttestationCheck env spec input)) \<longleftrightarrow>
     check_satisfied env input (cs_checkType spec)"
  by (auto simp: runParallelCheck_def runAttestationCheck_def check_satisfied_def missingAttestationResult_def
        handleMissing_passed tolerated_def FailResult_def split: option.split sum.split)

lemma runParallelChecks_allowed:
  "r_Allowed (runParallelChecks env input) \<longleftrightarrow> (\<forall>spec \<in> set checkSpecs. check_satisfied env input (cs_checkType spec))"
  by (simp add: runParallelChecks_def combineResults_allowed all_passed_map_Some runParallelCheck_passed)

lemma consistent_parallel [simp]: "consistent (runParallelChecks env input)"
  by (simp add: runParallelChecks_def)


text \<open>The result the CEL rules are evaluated on.\<close>

definition before_rules ::
  "check_env \<Rightarrow> checkInput \<Rightarrow> vsaOutcome \<Rightarrow> CheckResult option list \<Rightarrow> Result" where
  "before_rules env input outc opts =
     (case vo_passed outc of
        Some c \<Rightarrow>
          appendOptionalChecks
            \<lparr>r_Allowed = True, r_Verified = False, r_Mode = [],
             r_Reason = ''VSA verification passed, skipping direct verification'', r_CheckResults = [c]\<rparr> opts
      | None \<Rightarrow>
          appendVSAWarning (appendOptionalChecks (runParallelChecks env input) opts) (ci_pol input)
            (missingDetail outc (ci_imageRef input)))"

lemma checkVSAMissing_None: "checkVSAMissing pol detail = None \<longleftrightarrow> tolerated pol CheckTypeVSA"
  by (auto simp: checkVSAMissing_def tolerated_def Let_def)

lemma checkVSAMissing_Some:
  "checkVSAMissing pol detail = Some r \<Longrightarrow> \<not> tolerated pol CheckTypeVSA \<and> consistent r \<and> \<not> r_Allowed r"
  by (auto simp: checkVSAMissing_def tolerated_def Let_def resultFromCheck_def handleMissing_passed consistent_def split: if_splits)

lemma runVSAAndParallelChecks_cases:
  fixes env bins pol ref d ns parsed opts related
  defines "outc \<equiv> checkVSA (ce_vsa env) (ce_vsaCtxErr env) (ce_now env) (bins CheckTypeVSA) pol ref d parsed"
  defines "input \<equiv> \<lparr>ci_bins = bins, ci_pol = pol, ci_imageRef = ref, ci_digest = d, ci_relatedDigests = related, ci_parsedRef = parsed\<rparr>"
  shows "runVSAAndParallelChecks env bins pol ref d ns parsed opts related =
    (case vo_rejected outc of
       Some r \<Rightarrow> r
     | None \<Rightarrow>
         if vo_passed outc = None \<and> \<not> tolerated pol CheckTypeVSA then the (checkVSAMissing pol (missingDetail outc ref))
         else appendCELCheck env pol ref d ns parsed (before_rules env input outc opts))"
proof (cases "vo_rejected outc")
  case (Some r)
  then show ?thesis by (simp add: runVSAAndParallelChecks_def Let_def outc_def [symmetric])
next
  case None
  then show ?thesis
    using checkVSAMissing_None [of pol "missingDetail outc ref"]
    by (auto simp: runVSAAndParallelChecks_def Let_def outc_def [symmetric] input_def before_rules_def split: option.split)
qed

text \<open>C2: when an image is admitted by the checks.  The result is positive exactly when no bound verification summary rejects the image, the
  additional checks pass, the rules of the policy hold, and either a bound summary passes or summaries may be missing and
  every one of the twelve attestation checks is satisfied.  A check that panics, returns an error or returns nothing is not satisfied.\<close>

theorem checks_decide:
  fixes env bins pol ref d ns parsed opts related
  defines "outc \<equiv> checkVSA (ce_vsa env) (ce_vsaCtxErr env) (ce_now env) (bins CheckTypeVSA) pol ref d parsed"
  defines "input \<equiv> \<lparr>ci_bins = bins, ci_pol = pol, ci_imageRef = ref, ci_digest = d, ci_relatedDigests = related, ci_parsedRef = parsed\<rparr>"
  shows "r_Allowed (runVSAAndParallelChecks env bins pol ref d ns parsed opts related) \<longleftrightarrow>
    vo_rejected outc = None \<and> all_passed opts \<and>
    (vo_passed outc \<noteq> None \<or>
     tolerated pol CheckTypeVSA \<and> (\<forall>spec \<in> set checkSpecs. check_satisfied env input (cs_checkType spec))) \<and>
    cel_ok env pol ref d ns parsed (before_rules env input outc opts)"
proof -
  have ok: "outcome_ok outc" unfolding outc_def by (rule checkVSA_outcome)
  note cases = runVSAAndParallelChecks_cases [of env bins pol ref d ns parsed opts related, folded outc_def input_def]
  show ?thesis
  proof (cases "vo_rejected outc")
    case (Some r)
    then show ?thesis using ok by (simp add: cases outcome_ok_def)
  next
    case None
    show ?thesis
    proof (cases "vo_passed outc = None \<and> \<not> tolerated pol CheckTypeVSA")
      case True
      then obtain r where "checkVSAMissing pol (missingDetail outc ref) = Some r"
        using checkVSAMissing_None by fastforce
      then show ?thesis using True None checkVSAMissing_Some by (fastforce simp: cases)
    next
      case False
      have before: "r_Allowed (before_rules env input outc opts) \<longleftrightarrow> all_passed opts \<and>
          (vo_passed outc \<noteq> None \<or> (\<forall>spec \<in> set checkSpecs. check_satisfied env input (cs_checkType spec)))"
        by (auto simp: before_rules_def appendOptionalChecks_allowed appendVSAWarning_fields runParallelChecks_allowed
            split: option.split)
      show ?thesis using None False unfolding cases by (auto simp: appendCELCheck_fields before)
    qed
  qed
qed

lemma runVSAAndParallelChecks_consistent: "consistent (runVSAAndParallelChecks env bins pol ref d ns parsed opts related)"
proof -
  let ?outc = "checkVSA (ce_vsa env) (ce_vsaCtxErr env) (ce_now env) (bins CheckTypeVSA) pol ref d parsed"
  have ok: "outcome_ok ?outc" by (rule checkVSA_outcome)
  have "consistent (before_rules env input ?outc opts)" for input
    using ok by (auto simp: before_rules_def outcome_ok_def appendVSAWarning_fields consistent_def [of "\<lparr>r_Allowed = True, r_Verified = V,
        r_Mode = M, r_Reason = R, r_CheckResults = C\<rparr>" for V M R C] split: option.split)
  then show ?thesis
    using ok checkVSAMissing_None checkVSAMissing_Some unfolding runVSAAndParallelChecks_cases
    by (fastforce simp: outcome_ok_def appendCELCheck_fields split: option.split)
qed


definition sample_lib :: cel_lib where
  "sample_lib = \<lparr>cl_Compile = \<lambda>_. None, cl_EstimateCostMin = \<lambda>_. None, cl_Program = \<lambda>_. False, cl_Eval = \<lambda>_ _. Inl []\<rparr>"

definition sample_env :: "fetcher option \<Rightarrow> check_env" where
  "sample_env fetch = \<lparr>ce_vsa = sample_vsa_env, ce_vsaCtxErr = None, ce_fetcher = fetch, ce_fetchCtxErr = None, ce_fetchPanics = False,
     ce_unreachable = \<lambda>_. False, ce_slots = \<lambda>_. None, ce_guac = None, ce_guacOrder = [], ce_guacPanics = False,
     ce_verify = \<lambda>_ _. None, ce_cel = sample_lib, ce_now = minutes, ce_hosts = [], ce_others = id\<rparr>"

theorem checks_decide_witness:
  "r_Allowed (runVSAAndParallelChecks (sample_env None) ((\<lambda>_. [])(CheckTypeVSA := [sample_vsa_att])) sample_vsa_policy ''img''
     sample_digest ''ns'' None [] [])"
proof -
  let ?outc = "checkVSA (ce_vsa (sample_env None)) (ce_vsaCtxErr (sample_env None)) (ce_now (sample_env None))
    (((\<lambda>_. [])(CheckTypeVSA := [sample_vsa_att])) CheckTypeVSA) sample_vsa_policy ''img'' sample_digest None"
  have "vo_rejected ?outc = None" "\<not> Option.is_none (vo_passed ?outc)" by code_simp+
  moreover have "pl_CompiledCEL sample_vsa_policy = None" by code_simp
  ultimately show ?thesis unfolding checks_decide
    by (simp add: cel_ok_def runCELCheck_def Option.is_none_def)
qed

section \<open>Nothing is dropped silently\<close>

definition hard_error :: "goerr option \<Rightarrow> bool" where
  "hard_error e = (case e of None \<Rightarrow> False | Some err \<Rightarrow> \<not> isIgnorableVerificationFailure err)"

lemma ignorable_Errorf [simp]: "isIgnorableVerificationFailure (Errorf_w p e) = isIgnorableVerificationFailure e"
  by (simp add: isIgnorableVerificationFailure_def)

lemma ignorable_wraps: "err_wraps e = err_wraps e' \<Longrightarrow> isIgnorableVerificationFailure e = isIgnorableVerificationFailure e'"
  by (simp add: isIgnorableVerificationFailure_def errors_Is_def)

lemma recordTransport_other [simp]:
  "ft_attestations (recordTransport env e outc) = ft_attestations outc" "ft_err (recordTransport env e outc) = ft_err outc"
  "ft_digest (recordTransport env e outc) = ft_digest outc"
  by (simp_all add: recordTransport_def)

lemma keepPartial_err [simp]: "ft_err (keepPartial a b c d outc) = ft_err outc"
  by (simp add: keepPartial_def)

lemma platformError_hard:
  "hard_error (ft_err (platformError req err partial indexErr indexPartial outc)) \<longleftrightarrow>
     \<not> isIgnorableVerificationFailure err \<or> hard_error indexErr"
  using ignorable_wraps [of "\<lparr>err_msg = m, err_wraps = err_wraps err\<rparr>" err for m]
  by (auto simp: platformError_def hard_error_def Let_def split: option.split)

definition index_fetch :: "fetcher \<Rightarrow> Config \<Rightarrow> VerifyRequest \<Rightarrow> Policy \<Rightarrow> Reference option \<Rightarrow> VerifiedAttestation list \<times> goerr option" where
  "index_fetch fetch cfg req pol parsedRef =
     fetch (rq_ImageRef req) (buildFetchOpts pol (rq_IndexDigest req) (cf_FetchTimeout cfg) parsedRef)"

definition platform_fetch :: "fetcher \<Rightarrow> Config \<Rightarrow> VerifyRequest \<Rightarrow> Policy \<Rightarrow> Reference option \<Rightarrow> VerifiedAttestation list \<times> goerr option" where
  "platform_fetch fetch cfg req pol parsedRef =
     fetch (rq_ImageRef req) (buildFetchOpts pol (rq_Digest req) (cf_FetchTimeout cfg) parsedRef)"

lemma fetchIndexAttestations_cases:
  assumes "fetchIndexAttestations env fetch cfg req pol parsed outc = (partial, indexErr, outc')" "ft_attestations outc = []" "ft_err outc = None"
  shows "hard_error indexErr \<longleftrightarrow> rq_IndexDigest req \<noteq> [] \<and> hard_error (snd (index_fetch fetch cfg req pol parsed))"
    "ft_attestations outc' \<noteq> [] \<longleftrightarrow>
       rq_IndexDigest req \<noteq> [] \<and> snd (index_fetch fetch cfg req pol parsed) = None \<and> fst (index_fetch fetch cfg req pol parsed) \<noteq> []"
    "ft_err outc' = None"
  using assms
  by (auto simp: fetchIndexAttestations_def index_fetch_def hard_error_def split: if_splits prod.splits option.splits)

text \<open>The outcome of fetching has an error that is more than a failed verification exactly when one of the fetches has; the platform
  digest is not looked up when attestations are found at the index digest.\<close>

lemma fetchAttestations_hard:
  "hard_error (ft_err (fetchAttestations env fetch cfg req pol parsed)) \<longleftrightarrow>
     (rq_IndexDigest req \<noteq> [] \<and> hard_error (snd (index_fetch fetch cfg req pol parsed))) \<or>
     (\<not> (rq_IndexDigest req \<noteq> [] \<and> snd (index_fetch fetch cfg req pol parsed) = None \<and>
         fst (index_fetch fetch cfg req pol parsed) \<noteq> []) \<and>
      hard_error (snd (platform_fetch fetch cfg req pol parsed)))"
proof -
  let ?init = "\<lparr>ft_attestations = [], ft_digest = rq_Digest req, ft_err = None, ft_transportErr = None\<rparr>"
  obtain partial indexErr outc where idx: "fetchIndexAttestations env fetch cfg req pol parsed ?init = (partial, indexErr, outc)"
    by (rule prod_cases3)
  note c = fetchIndexAttestations_cases [OF idx, simplified]
  obtain atts err where pf: "platform_fetch fetch cfg req pol parsed = (atts, err)" by (rule prod.exhaust)
  show ?thesis
  proof (cases "ft_attestations outc \<noteq> []")
    case True
    then show ?thesis using c by (auto simp: fetchAttestations_def idx hard_error_def)
  next
    case False
    have "hard_error (ft_err (fetchAttestations env fetch cfg req pol parsed)) \<longleftrightarrow> hard_error indexErr \<or> hard_error err"
    proof (cases err)
      case (Some e)
      then show ?thesis using False pf
        by (simp add: fetchAttestations_def idx platform_fetch_def platformError_hard) (auto simp: hard_error_def)
    next
      case None
      then show ?thesis using False pf c(3)
        by (auto simp: fetchAttestations_def idx platform_fetch_def hard_error_def split: option.split)
    qed
    then show ?thesis using False c(1,2) pf by simp
  qed
qed


definition lookup_failed :: "fetcher \<Rightarrow> Config \<Rightarrow> VerifyRequest \<Rightarrow> Policy \<Rightarrow> Reference option \<Rightarrow> bool" where
  "lookup_failed fetch cfg req pol parsed =
     ((rq_IndexDigest req \<noteq> [] \<and> hard_error (snd (index_fetch fetch cfg req pol parsed))) \<or>
      (\<not> (rq_IndexDigest req \<noteq> [] \<and> snd (index_fetch fetch cfg req pol parsed) = None \<and>
          fst (index_fetch fetch cfg req pol parsed) \<noteq> []) \<and>
       hard_error (snd (platform_fetch fetch cfg req pol parsed))))"

text \<open>A result that stands for attestations that could not be looked up.\<close>

definition lookup_result :: "Action \<Rightarrow> Result \<Rightarrow> bool" where
  "lookup_result fetchPolicy r =
     (\<exists>c. r_CheckResults r = [c] \<and> r_Allowed r = cr_Passed c \<and>
        (cr_Type c = CheckTypeFetch \<and> (cr_Passed c \<longrightarrow> fetchPolicy = ActionWarn \<or> fetchPolicy = ActionAllow) \<or>
         cr_Type c = CheckTypeAttestation \<and> \<not> cr_Passed c))"

lemma handleMissing_type: "cr_Type (handleMissingAttestation pol ct detail) = ct"
  by (simp add: handleMissingAttestation_def check_result_defs)

lemma lookup_result_fetch [simp]: "lookup_result fetchPolicy (handleFetchError e ref fetchPolicy)"
  by (simp add: lookup_result_def handleFetchError_def resultFromCheck_def handleMissing_type handleMissing_passed Let_def)

lemma lookup_result_error [simp]: "lookup_result fetchPolicy (fetchErrorResult e ref fetchPolicy)"
proof (cases "errors_Is e ErrAttestationVerificationFailed")
  case True
  then show ?thesis by (simp add: fetchErrorResult_def lookup_result_def resultFromCheck_def check_result_defs)
next
  case False
  then show ?thesis by (simp add: fetchErrorResult_def)
qed

lemma acquireRegistryAccess_blocked:
  assumes "acquireRegistryAccess env breaker registry host ref fetchPolicy = (registry', permit, Some r)"
  shows "lookup_result fetchPolicy r"
  using assms
  by (auto simp: acquireRegistryAccess_def Let_def split: prod.splits option.splits if_splits)

lemma hard_error_unverified: "hard_error e \<Longrightarrow> unverifiedAttestationsCheck e ref = None \<and> (\<exists>err. e = Some err)"
  by (auto simp: hard_error_def unverifiedAttestationsCheck_def split: option.splits)


lemma runChecks_fetching:
  assumes "ce_fetcher env = Some fetch" "rq_Digest req \<noteq> []" "runChecks env cfg pol mode req sh = (Some (r, ttl), sh')"
  shows "lookup_result (EffectiveFetchFailurePolicy cfg mode) r \<and> ttl = 0 \<or>
    (\<exists>guacResult. (r, ttl) = evaluateFetched env cfg pol (EffectiveFetchFailurePolicy cfg mode) req
       (ve_parse (ce_vsa env) (rq_ImageRef req)) guacResult
       (fetchAttestations env fetch cfg req pol (ve_parse (ce_vsa env) (rq_ImageRef req))))"
proof -
  let ?parsed = "ve_parse (ce_vsa env) (rq_ImageRef req)"
  let ?host = "registryHost ?parsed (rq_ImageRef req)"
  let ?fp = "EffectiveFetchFailurePolicy cfg mode"
  obtain registry0 breaker where g: "registryBreakerByHost (ce_hosts env) (sh_breakers sh) ?host = (registry0, breaker)"
    by (rule prod.exhaust)
  obtain registry1 permit blocked where
    a: "acquireRegistryAccess env breaker registry0 ?host (rq_ImageRef req) ?fp = (registry1, permit, blocked)"
    by (rule prod_cases3)
  obtain guacResult guacBreaker where
    q: "startGUACQuery env cfg (rq_Digest req) (rq_ImageRef req) (sh_guacBreaker sh) = (guacResult, guacBreaker)"
    by (rule prod.exhaust)
  show ?thesis
  proof (cases blocked)
    case (Some b)
    then show ?thesis using assms a acquireRegistryAccess_blocked [of env breaker registry0 ?host "rq_ImageRef req" ?fp]
      by (simp add: runChecks_def Let_def g)
  next
    case None
    then have "(r, ttl) = evaluateFetched env cfg pol ?fp req ?parsed guacResult (fetchAttestations env fetch cfg req pol ?parsed)"
      using assms a by (simp add: runChecks_def Let_def g q split: if_splits)
    then show ?thesis by blast
  qed
qed

lemma runChecks_unguarded:
  assumes "ce_fetcher env = Some fetch" "rq_Digest req \<noteq> []" "sh_breakers sh = None" "\<not> ce_fetchPanics env" "\<And>host. ce_slots env host = None"
  shows "\<exists>r ttl sh'. runChecks env cfg pol mode req sh = (Some (r, ttl), sh')"
  using assms
  by (auto simp: runChecks_def Let_def registryBreakerByHost_def acquireRegistryAccess_def split: prod.splits)


definition sample_request :: VerifyRequest where
  "sample_request = \<lparr>rq_ImageRef = ''img'', rq_Digest = sample_digest, rq_IndexDigest = ''idx'', rq_Namespace = ''ns'', rq_ServiceAccount = []\<rparr>"

text \<open>A fetcher that finds the attestation at the platform digest but an incomplete set at the index digest.\<close>

definition sample_fetch :: fetcher where
  "sample_fetch ref opts =
     (if fo_Digest opts = ''idx'' then
        ([], Some (errors_New ''limit'' [ErrAttestationVerificationFailed, ErrIncompleteAttestationSet]))
      else ([sample_vsa_att], None))"



section \<open>Breakers after a verification\<close>

lemma on_registry_store:
  "on_registry (Some addr) f (Some r) = Some (on_breaker addr f r)" "rg_store (on_breaker addr f r) addr = f (rg_store r addr)"
  by (simp_all add: on_registry_def on_breaker_def)

text \<open>A breaker that is not half-open admits a call once its cooldown has passed.\<close>

definition admits_eventually :: "Breaker \<Rightarrow> bool" where
  "admits_eventually b = (\<exists>t0. \<forall>t \<ge> t0. snd (snd (Acquire t b)))"

lemma not_half_open_admits:
  assumes "cb_state b \<noteq> circuitHalfOpen" "cb_cooldown b \<le> int64_max"
  shows "admits_eventually b"
proof -
  have "time_Sub t (cb_lastFailureTime b) \<ge> cb_cooldown b" if "t \<ge> cb_lastFailureTime b + cb_cooldown b" for t
    using that assms(2) by (auto simp: time_Sub_def)
  then have "snd (snd (Acquire t b))" if "t \<ge> cb_lastFailureTime b + cb_cooldown b" for t
    using that assms(1) by (cases "cb_state b") (auto simp: Acquire_def Acquire_from_def)
  then show ?thesis unfolding admits_eventually_def by blast
qed

lemma half_open_blocks: "cb_state b = circuitHalfOpen \<Longrightarrow> Allow t b = (b, False)"
  by (simp add: Allow_def Acquire_def Acquire_from_def)

text \<open>The permit of a call is 0, or the number of the probe it started.\<close>

lemma Acquire_state:
  assumes "Acquire now b = (b', permit, allowed)" "cb_state b \<noteq> circuitHalfOpen"
  shows "cb_state b' \<noteq> circuitHalfOpen \<or> (permit = cb_probe b' \<and> cb_probe b' = cb_probe b + 1)" "cb_cooldown b' = cb_cooldown b"
    "\<not> allowed \<Longrightarrow> cb_state b' \<noteq> circuitHalfOpen"
  using assms by (auto simp: Acquire_def Acquire_from_def split: if_splits circuitState.splits)

lemma Release_not_half_open:
  assumes "cb_state b \<noteq> circuitHalfOpen \<or> permit = cb_probe b \<and> permit \<noteq> 0"
  shows "cb_state (Release permit b) \<noteq> circuitHalfOpen"
  using assms by (auto simp: Release_def)

lemma Succeeded_Release:
  assumes "cb_state b \<noteq> circuitHalfOpen \<or> permit = cb_probe b \<and> permit \<noteq> 0"
  shows "cb_state (Release permit (Succeeded permit b)) \<noteq> circuitHalfOpen"
  using assms by (intro Release_not_half_open) (auto simp: Succeeded_def recordSuccessLocked_def decidesLocked_def)

lemma Failed_Release:
  assumes "cb_state b \<noteq> circuitHalfOpen \<or> permit = cb_probe b \<and> permit \<noteq> 0"
  shows "cb_state (Release permit (fst (Failed now permit b))) \<noteq> circuitHalfOpen"
  using assms by (intro Release_not_half_open) (auto simp: Failed_def recordFailureLocked_def decidesLocked_def Let_def)

lemma breaker_cooldowns [simp]:
  "cb_cooldown (Release permit b) = cb_cooldown b" "cb_cooldown (Succeeded permit b) = cb_cooldown b"
  "cb_cooldown (fst (Failed now permit b)) = cb_cooldown b"
  by (simp_all add: Release_def Succeeded_def Failed_def recordSuccessLocked_def recordFailureLocked_def Let_def)



definition sample_registry :: Registry where
  "sample_registry = \<lparr>rg_breakers = [[] \<mapsto> \<lparr>re_breaker = 0, re_lastUsed = 0\<rparr>],
     rg_store = \<lambda>_. \<lparr>cb_state = circuitOpen, cb_consecutiveFailures = 5, cb_lastFailureTime = 0, cb_threshold = 5,
       cb_cooldown = seconds, cb_probe = 0\<rparr>,
     rg_next = 1, rg_threshold = 5, rg_cooldown = seconds, rg_clock = 0\<rparr>"


text \<open>C37: GUAC, in contrast, can be cut off for good.  When the breaker of GUAC lets a probe through and the probe ends in an authentication error or
  a panic, nothing is recorded: the breaker stays half-open, and from then on, at every time, every query is refused and answered by the
  fallback policy, although the code means to retry after the cooldown.\<close>

theorem guac_probe_lost:
  assumes "cb_state b = circuitOpen" "time_Sub (ce_now env) (cb_lastFailureTime b) \<ge> cb_cooldown b"
    and "ce_guacPanics env \<or>
      (\<exists>e. cr_Err (guac_Query (ce_guacOrder env) client digest (gc_Checks (cf_Guac cfg)) (gc_MaxDependencies (cf_Guac cfg))) = Some e \<and>
        errors_Is e ErrGUACAuthError) \<and>
      \<not> cr_Passed (guac_Query (ce_guacOrder env) client digest (gc_Checks (cf_Guac cfg)) (gc_MaxDependencies (cf_Guac cfg)))"
  shows "\<exists>b' res. fetchGUACData env cfg client digest ref (Some b) = (res, Some b') \<and>
    (\<forall>env' digest' ref'. fetchGUACData env' cfg client digest' ref' (Some b') =
       (Some (applyGUACFallback cfg ref' (Some (errors_New ''GUAC circuit breaker open'' []))), Some b'))"
proof -
  let ?b = "b\<lparr>cb_state := circuitHalfOpen, cb_probe := cb_probe b + 1\<rparr>"
  let ?r = "guac_Query (ce_guacOrder env) client digest (gc_Checks (cf_Guac cfg)) (gc_MaxDependencies (cf_Guac cfg))"
  have allow: "Allow (ce_now env) b = (?b, True)" using assms(1,2) by (simp add: Allow_def Acquire_def Acquire_from_def)
  have "cb_state ?b = circuitHalfOpen" by simp
  then have blocked: "fetchGUACData env' cfg client digest' ref' (Some ?b) =
      (Some (applyGUACFallback cfg ref' (Some (errors_New ''GUAC circuit breaker open'' []))), Some ?b)" for env' digest' ref'
    using half_open_blocks [of ?b] by (simp add: fetchGUACData_def)
  have "\<exists>res. fetchGUACData env cfg client digest ref (Some b) = (res, Some ?b)"
  proof (cases "ce_guacPanics env")
    case True
    then show ?thesis by (simp add: fetchGUACData_def allow)
  next
    case False
    then obtain e where "cr_Err ?r = Some e" "errors_Is e ErrGUACAuthError" "\<not> cr_Passed ?r" using assms(3) by blast
    then show ?thesis using False by (simp add: fetchGUACData_def allow Let_def split: option.split)
  qed
  then show ?thesis using blocked by blast
qed

definition sample_client :: guac_client where
  "sample_client = \<lparr>gc_QueryVulnerabilities = \<lambda>_. Inl (errors_New ''token'' [ErrGUACAuthError]),
     gc_QueryScorecard = \<lambda>_. Inl (errors_New [] []), gc_QueryDependencies = \<lambda>_ _. Inl (errors_New [] [])\<rparr>"

theorem guac_probe_lost_witness:
  "\<exists>b' res. fetchGUACData ((sample_env None)\<lparr>ce_guacOrder := GUACValidChecks\<rparr>) DefaultConfig sample_client ''d'' ''img''
      (Some (rg_store sample_registry 0)) = (res, Some b') \<and>
    (\<forall>env' digest' ref'. fetchGUACData env' DefaultConfig sample_client digest' ref' (Some b') =
       (Some (applyGUACFallback DefaultConfig ref' (Some (errors_New ''GUAC circuit breaker open'' []))), Some b'))"
proof -
  let ?env = "(sample_env None)\<lparr>ce_guacOrder := GUACValidChecks\<rparr>"
  let ?q = "guac_Query (ce_guacOrder ?env) sample_client ''d'' (gc_Checks (cf_Guac DefaultConfig)) (gc_MaxDependencies (cf_Guac DefaultConfig))"
  have q: "case cr_Err ?q of None \<Rightarrow> False | Some e \<Rightarrow> errors_Is e ErrGUACAuthError" "\<not> cr_Passed ?q" by code_simp+
  obtain e where "cr_Err ?q = Some e" "errors_Is e ErrGUACAuthError" using q(1) by (cases "cr_Err ?q") simp_all
  moreover have "cb_state (rg_store sample_registry 0) = circuitOpen"
    "time_Sub (ce_now ?env) (cb_lastFailureTime (rg_store sample_registry 0)) \<ge> cb_cooldown (rg_store sample_registry 0)" by code_simp+
  ultimately show ?thesis using q(2) by (intro guac_probe_lost) blast+
qed


section \<open>Which check sees which attestation\<close>

definition routed :: "CheckType \<Rightarrow> VerifiedAttestation \<Rightarrow> bool" where
  "routed ct att =
     (if va_SignatureType att = SignatureTypeNotation then ct = CheckTypeNotation
      else (case buildPredicateCheckTypes (va_PredicateType att) of None \<Rightarrow> False | Some cts \<Rightarrow> ct \<in> set cts))"

lemma fold_add_to_bin: "x \<in> set (fold (add_to_bin att) cts bins ct) \<longleftrightarrow> x \<in> set (bins ct) \<or> x = att \<and> ct \<in> set cts"
  by (induction cts arbitrary: bins) (auto simp: add_to_bin_def)

lemma bin_loop_set: "x \<in> set (bin_loop bins atts ct) \<longleftrightarrow> x \<in> set (bins ct) \<or> x \<in> set atts \<and> routed ct x"
proof (induction bins atts rule: bin_loop.induct)
  case (2 bins att atts)
  let ?bins = "if va_SignatureType att = SignatureTypeNotation then add_to_bin att CheckTypeNotation bins
    else (case buildPredicateCheckTypes (va_PredicateType att) of None \<Rightarrow> bins | Some cts \<Rightarrow> fold (add_to_bin att) cts bins)"
  have "x \<in> set (?bins ct) \<longleftrightarrow> x \<in> set (bins ct) \<or> x = att \<and> routed ct att"
    by (simp add: routed_def fold_add_to_bin split: option.split) (auto simp: add_to_bin_def)
  then show ?case using "2.IH" by auto
qed simp

lemma binAttestations_set: "x \<in> set (binAttestations atts ct) \<longleftrightarrow> x \<in> set atts \<and> routed ct x"
  by (simp add: binAttestations_def bin_loop_set)

lemma provenance_routes: "isProvenancePredicate p \<Longrightarrow> buildPredicateCheckTypes p = Some [CheckTypeSLSA]"
proof -
  have "buildPredicateCheckTypes PredicateSLSAProvenanceV1 = Some [CheckTypeSLSA]"
    "buildPredicateCheckTypes PredicateSLSAProvenanceV02 = Some [CheckTypeSLSA]" by code_simp+
  then show "isProvenancePredicate p \<Longrightarrow> buildPredicateCheckTypes p = Some [CheckTypeSLSA]"
    unfolding isProvenancePredicate_def by (elim disjE) simp_all
qed



end
