(* ===== verification/Verifier.thy ===== *)
theory Verifier
  imports Checks Result_Cache
begin

text \<open>
  The verifier (src/internal/verifier/verifier.go, with flightTracker of snapshot.go, handleMissingPolicy of policy_resolve.go
  and the audit entries of audit.go): what \<open>Verify\<close> decides for a request, its result cache, and the
  sharing of running verifications.

  The verifier's state is the record \<open>Verifier\<close>; a snapshot holds the configuration, the policies and the state that
  verifications share.  Running verifications are shared through the package singleflight: what the caller of one sees is the
  argument \<open>vn_flight\<close>, which says whether this call runs the checks, gets the outcome of another call with the same key, or is
  interrupted while waiting.  In the last case the checks run on without it, as a step \<open>runFlight\<close> of their own.  What other
  goroutines do to the result cache while a lookup is between its two locks, and while the checks run, are the arguments
  \<open>vn_between\<close> and \<open>vn_during\<close>.  The time at which a verification started is kept only while it runs.  Metrics and log messages
  are left out.
\<close>

section \<open>State\<close>

record flightTracker =
  fl_active :: int
  fl_closed :: bool

definition flight_begin :: "flightTracker \<Rightarrow> flightTracker \<times> bool" where
  "flight_begin t = (if fl_closed t then (t, False) else (t\<lparr>fl_active := fl_active t + 1\<rparr>, True))"

definition flight_reject :: "flightTracker \<Rightarrow> flightTracker" where
  "flight_reject t = t\<lparr>fl_closed := True\<rparr>"

definition flight_end :: "flightTracker \<Rightarrow> flightTracker" where
  "flight_end t = t\<lparr>fl_active := fl_active t - 1\<rparr>"

record auditEvent =
  ae_SchemaVersion :: string
  ae_Image :: string
  ae_Digest :: string
  ae_Namespace :: string
  ae_Allowed :: bool
  ae_Check :: CheckType
  ae_Status :: CheckStatus
  ae_Detail :: string
  ae_Decision :: string
  ae_Verified :: bool
  ae_Reason :: string
  ae_PolicyHash :: string
  ae_PodServiceAccount :: string
  ae_VerificationMode :: string
  ae_NodeName :: string
  ae_Origin :: string

record auditInfo =
  ai_policyHash :: string
  ai_nodeName :: string
  ai_podServiceAccount :: string
  ai_verificationMode :: string
  ai_origin :: string

record trustFingerprint =
  tf_policy :: string
  tf_sigstore :: string

record fetcherBasis =
  fb_config :: Config
  fb_sigstore :: string

text \<open>The pointers to the fetcher, the audit log and the GUAC client are natural numbers: a reload compares them.  The policies and their
  hashes are association lists, in the order in which their maps are iterated.\<close>

record snapshot =
  sn_generation :: "64 word"
  sn_policyRevision :: "64 word"
  sn_config :: Config
  sn_policies :: "(string \<times> Policy) list"
  sn_policyHashes :: "(string \<times> string) list"
  sn_trust :: trustFingerprint
  sn_fetcherBasis :: fetcherBasis
  sn_cache :: Cache
  sn_fetcher :: "nat option"
  sn_shared :: shared
  sn_auditLog :: "nat option"
  sn_allowlistDigests :: "string list"
  sn_guacClient :: "nat option"

text \<open>The OCI policy poller with its fetcher: the newest creation time the fetcher has accepted, or \<open>None\<close> for the zero time, the digest of the
  applied artifact and the time the policies were last known to be current.\<close>

record policyPoller =
  pp_ociRef :: string
  pp_newestCreated :: "time option"
  pp_cachedDigest :: string
  pp_lastSuccess :: time
  pp_maxStaleness :: duration

record Verifier =
  vf_state :: snapshot
  vf_nodeName :: string
  vf_generation :: "64 word"
  vf_policyRevision :: "64 word"
  vf_flights :: flightTracker
  vf_poller :: "policyPoller option"
  vf_flightStarts :: "string \<rightharpoonup> time"
  vf_stopped :: bool
  vf_audit :: "auditEvent list"

datatype flight = FlightLed | FlightShared "goerr + Result" | FlightInterrupted goerr

record verify_env =
  vn_check :: check_env
  vn_between :: "Cache \<Rightarrow> Cache"
  vn_during :: "Cache \<Rightarrow> Cache"
  vn_rnd :: "int \<Rightarrow> int"
  vn_deadline :: "time option"
  vn_flight :: flight
  vn_stopCancelled :: bool
  vn_origin :: string
  vn_parse_duration :: "string \<Rightarrow> duration option"

abbreviation vn_now :: "verify_env \<Rightarrow> time" where "vn_now env \<equiv> ce_now (vn_check env)"
abbreviation vn_parse :: "verify_env \<Rightarrow> ref_parser" where "vn_parse env \<equiv> ve_parse (ce_vsa (vn_check env))"

section \<open>Audit entries\<close>

definition audit_event :: "VerifyRequest \<Rightarrow> auditInfo \<Rightarrow> auditEvent" where
  "audit_event req info =
     \<lparr>ae_SchemaVersion = ''1'', ae_Image = rq_ImageRef req, ae_Digest = rq_Digest req, ae_Namespace = rq_Namespace req, ae_Allowed = False,
      ae_Check = [], ae_Status = [], ae_Detail = [], ae_Decision = [], ae_Verified = False, ae_Reason = [],
      ae_PolicyHash = ai_policyHash info, ae_PodServiceAccount = ai_podServiceAccount info,
      ae_VerificationMode = ai_verificationMode info, ae_NodeName = ai_nodeName info, ae_Origin = ai_origin info\<rparr>"

definition logAuditDecision :: "VerifyRequest \<Rightarrow> string \<Rightarrow> string \<Rightarrow> bool \<Rightarrow> auditInfo \<Rightarrow> auditEvent" where
  "logAuditDecision req decision reason verified info =
     (audit_event req info)\<lparr>ae_Allowed := decision = ''allowed'', ae_Decision := decision, ae_Verified := verified, ae_Reason := reason\<rparr>"

definition logResult :: "VerifyRequest \<Rightarrow> Result \<Rightarrow> auditInfo \<Rightarrow> auditEvent list" where
  "logResult req result info =
     map (\<lambda>c. (audit_event req info)\<lparr>ae_Allowed := r_Allowed result, ae_Check := cr_Type c, ae_Status := cr_Status c,
                                     ae_Detail := cr_Detail c\<rparr>) (r_CheckResults result)
     @ [logAuditDecision req (if r_Allowed result then ''allowed'' else ''denied'') (r_Reason result) (r_Verified result) info]"

definition logVerification :: "VerifyRequest \<Rightarrow> Result option \<Rightarrow> goerr option \<Rightarrow> auditInfo \<Rightarrow> auditEvent list" where
  "logVerification req result err info =
     (case result of
        Some r \<Rightarrow> logResult req r info
      | None \<Rightarrow>
          [logAuditDecision req ''denied''
             (case err of None \<Rightarrow> ''verification did not produce a result'' | Some e \<Rightarrow> err_msg e) False info])"

definition add_audit :: "auditEvent list \<Rightarrow> Verifier \<Rightarrow> Verifier" where
  "add_audit es v = v\<lparr>vf_audit := vf_audit v @ es\<rparr>"

section \<open>Which images are verified\<close>

definition buildAllowlistMap :: "string list \<Rightarrow> string list" where
  "buildAllowlistMap entries = filter (\<lambda>d. d \<noteq> []) (map ExtractDigest entries)"

definition policyHashForNamespace :: "(string \<rightharpoonup> string) \<Rightarrow> string \<Rightarrow> string" where
  "policyHashForNamespace hashes namespace =
     (case hashes namespace of Some h \<Rightarrow> h | None \<Rightarrow> (case hashes [] of None \<Rightarrow> [] | Some h \<Rightarrow> h))"

definition EffectiveModeForNamespace :: "Verifier \<Rightarrow> string \<Rightarrow> VerificationMode" where
  "EffectiveModeForNamespace v namespace =
     (let st = vf_state v
      in case policyForNamespace (map_of (sn_policies st)) namespace of
           None \<Rightarrow> cf_Verification (sn_config st)
         | Some pol \<Rightarrow> EffectiveMode pol (cf_Verification (sn_config st)))"

abbreviation reasonVerificationDisabled :: string where "reasonVerificationDisabled \<equiv> ''verification disabled''"
abbreviation reasonNotIncluded :: string where "reasonNotIncluded \<equiv> ''image is not included''"
abbreviation reasonExcluded :: string where "reasonExcluded \<equiv> ''image is excluded''"

definition ShouldVerify :: "ref_parser \<Rightarrow> Verifier \<Rightarrow> string \<Rightarrow> string \<Rightarrow> bool \<times> string" where
  "ShouldVerify parse v namespace imageRef =
     (let st = vf_state v
      in if \<not> config_Enabled (sn_config st) then (False, reasonVerificationDisabled)
         else
           (case policyForNamespace (map_of (sn_policies st)) namespace of
              None \<Rightarrow> (True, [])
            | Some pol \<Rightarrow>
                if EffectiveMode pol (cf_Verification (sn_config st)) = ModeDisabled then (False, reasonVerificationDisabled)
                else if \<not> isIncluded parse (items (pl_Include pol)) imageRef then (False, reasonNotIncluded)
                else if isExcluded parse (items (pl_Exclude pol)) imageRef then (False, reasonExcluded)
                else (True, [])))"

definition stateReady :: "snapshot \<Rightarrow> bool" where
  "stateReady st = (\<not> config_Enabled (sn_config st) \<or> sn_policies st \<noteq> [])"

definition policiesStale :: "time \<Rightarrow> Verifier \<Rightarrow> bool" where
  "policiesStale now v =
     (case vf_poller v of
        None \<Rightarrow> False
      | Some current \<Rightarrow> pp_maxStaleness current > 0 \<and> time_Sub now (pp_lastSuccess current) > pp_maxStaleness current)"

definition verifier_Ready :: "time \<Rightarrow> Verifier \<Rightarrow> bool" where
  "verifier_Ready now v = (stateReady (vf_state v) \<and> \<not> policiesStale now v)"

definition InvalidateCache :: "cache_key list \<Rightarrow> string \<Rightarrow> string \<Rightarrow> Verifier \<Rightarrow> Verifier" where
  "InvalidateCache order digest namespace v =
     v\<lparr>vf_state := (vf_state v)\<lparr>sn_cache := fst (DeleteAll digest namespace order (sn_cache (vf_state v)))\<rparr>\<rparr>"

definition allowlisted :: "snapshot \<Rightarrow> VerifyRequest \<Rightarrow> bool" where
  "allowlisted st req =
     list_ex (\<lambda>digest. digest \<in> set (sn_allowlistDigests st) \<and> digest \<noteq> []) [rq_Digest req, rq_IndexDigest req]"

definition allowResult :: "string \<Rightarrow> Result" where
  "allowResult reason = \<lparr>r_Allowed = True, r_Verified = True, r_Mode = [], r_Reason = reason, r_CheckResults = []\<rparr>"

definition skipResult :: "VerificationMode \<Rightarrow> string \<Rightarrow> Result" where
  "skipResult mode reason = (allowResult reason)\<lparr>r_Verified := True, r_Mode := mode\<rparr>"

definition handleMissingPolicy :: "Config \<Rightarrow> string \<Rightarrow> string \<Rightarrow> Result \<times> goerr option" where
  "handleMissingPolicy cfg imageRef namespace =
     applyEnforcement (cf_Verification cfg)
       \<lparr>r_Allowed = False, r_Verified = False, r_Mode = [],
        r_Reason = ''no policy found for namespace '' @ quoted namespace @ '' and no default policy configured'',
        r_CheckResults = [FailResult CheckTypePolicy ''no matching policy found'' None]\<rparr> imageRef"

section \<open>Verification\<close>

definition cacheNamespaceKey :: "string \<Rightarrow> string \<Rightarrow> int \<Rightarrow> string" where
  "cacheNamespaceKey namespace imageRef ruleIdx =
     (let key = namespace @ [CHR 0x00] @ imageRef
      in if ruleIdx < 0 then key else key @ [CHR 0x00] @ ''r'' @ Itoa ruleIdx)"

definition flightKey :: "64 word \<Rightarrow> 64 word \<Rightarrow> string \<Rightarrow> string \<Rightarrow> string" where
  "flightKey generation epoch digest cacheNS =
     Itoa (uint generation) @ [CHR 0x00] @ Itoa (uint epoch) @ [CHR 0x00] @ digest @ [CHR 0x00] @ cacheNS"

definition handleVerifyError :: "VerificationMode \<Rightarrow> goerr \<Rightarrow> Result option \<times> goerr option" where
  "handleVerifyError mode err =
     (if mode \<noteq> ModeEnforce then
        (Some ((allowResult (''verification error: '' @ err_msg err))\<lparr>r_Verified := False, r_Mode := mode,
           r_CheckResults := [\<lparr>cr_Type = CheckTypeInternal, cr_Passed = True, cr_Status = StatusWarn,
             cr_Detail = ''verification error (allowed in '' @ mode @ '' mode): '' @ err_msg err, cr_Err = None, cr_Metadata = None,
             cr_Missing = False\<rparr>]\<rparr>), None)
      else (None, Some (Errorf_w ''verification'' err)))"

definition cachedResult :: "verify_env \<Rightarrow> string \<Rightarrow> string \<Rightarrow> Verifier \<Rightarrow> Verifier \<times> Result option" where
  "cachedResult env digest cacheNS v =
     (let (c, r) = cache_Get digest cacheNS (vn_now env) (vn_between env) (vn_now env) (sn_cache (vf_state v))
      in (v\<lparr>vf_state := (vf_state v)\<lparr>sn_cache := c\<rparr>\<rparr>, r))"

definition runChecksRecovered ::
  "check_env \<Rightarrow> Config \<Rightarrow> Policy \<Rightarrow> VerificationMode \<Rightarrow> VerifyRequest \<Rightarrow> shared \<Rightarrow> (goerr + Result \<times> duration) \<times> shared" where
  "runChecksRecovered env cfg pol mode req sh =
     (case runChecks env cfg pol mode req sh of
        (None, sh') \<Rightarrow> (Inl (errors_New ''internal error during verification'' [ErrVerificationPanic]), sh')
      | (Some (result, ttl), sh') \<Rightarrow> (Inr (result, ttl), sh'))"

abbreviation stopped_error :: goerr where "stopped_error \<equiv> errors_New ''verifier is stopping'' [ErrVerifierStopped]"

text \<open>The function that runs once for all callers with the same key.\<close>

definition runFlight ::
  "verify_env \<Rightarrow> Policy \<Rightarrow> VerificationMode \<Rightarrow> VerifyRequest \<Rightarrow> string \<Rightarrow> 64 word \<Rightarrow> Verifier \<Rightarrow> Verifier \<times> (goerr + Result)" where
  "runFlight env pol mode req cacheNS epoch v =
     (let (flights, ok) = flight_begin (vf_flights v)
      in if \<not> ok then (v, Inl stopped_error)
         else
           let v = v\<lparr>vf_flights := flights\<rparr>;
               finish = (\<lambda>w. w\<lparr>vf_flights := flight_end (vf_flights w)\<rparr>);
               (v, cached) = cachedResult env (rq_Digest req) cacheNS v
           in (case cached of
                 Some r \<Rightarrow> (finish v, Inr r)
               | None \<Rightarrow>
                   let st = vf_state v;
                       (outcome, sh) = runChecksRecovered (vn_check env) (sn_config st) pol mode req (sn_shared st);
                       st = st\<lparr>sn_shared := sh\<rparr>
                   in (case outcome of
                         Inl e \<Rightarrow> (finish (v\<lparr>vf_state := st\<lparr>sn_cache := vn_during env (sn_cache st)\<rparr>\<rparr>), Inl e)
                       | Inr (result, ttl) \<Rightarrow>
                           if vn_stopCancelled env then (finish (v\<lparr>vf_state := st\<lparr>sn_cache := vn_during env (sn_cache st)\<rparr>\<rparr>), Inl stopped_error)
                           else
                             let c = fst (SetWithTTLAtEpoch (rq_Digest req) cacheNS result ttl epoch (vn_rnd env) (vn_now env)
                                            (vn_now env) (vn_during env (sn_cache st)))
                             in (finish (v\<lparr>vf_state := st\<lparr>sn_cache := c\<rparr>\<rparr>), Inr result))))"

definition checkJoinable :: "verify_env \<Rightarrow> Config \<Rightarrow> string \<Rightarrow> Verifier \<Rightarrow> goerr option" where
  "checkJoinable env cfg key v =
     (let budget = cf_AdmissionTimeout cfg
      in if budget \<le> 0 then None
         else
           (case vn_deadline env of
              None \<Rightarrow> None
            | Some deadline \<Rightarrow>
                if time_Sub deadline (vn_now env) > budget then None
                else
                  (case vf_flightStarts v key of
                     None \<Rightarrow> None
                   | Some started \<Rightarrow>
                       let age = time_Sub (vn_now env) started
                       in if age \<ge> budget then
                            Some (errors_New (''verification already in progress for '' @ Itoa age) [ErrVerificationInProgress])
                          else None)))"

definition handleFlightResult :: "goerr + Result \<Rightarrow> goerr + Result" where
  "handleFlightResult res =
     (case res of Inl e \<Rightarrow> Inl (Errorf_w ''inflight verification'' e) | Inr r \<Rightarrow> Inr r)"

definition verifyOnce ::
  "verify_env \<Rightarrow> Policy \<Rightarrow> VerificationMode \<Rightarrow> VerifyRequest \<Rightarrow> string \<Rightarrow> Verifier \<Rightarrow> Verifier \<times> (goerr + Result)" where
  "verifyOnce env pol mode req cacheNS v =
     (let st = vf_state v;
          epoch = cache_Epoch (sn_cache st) (rq_Digest req);
          key = flightKey (sn_generation st) epoch (rq_Digest req) cacheNS
      in (case checkJoinable env (sn_config st) key v of
            Some e \<Rightarrow> (v, Inl e)
          | None \<Rightarrow>
              (case vn_flight env of
                 FlightInterrupted e \<Rightarrow> (v, Inl (Errorf_w ''verification interrupted'' e))
               | FlightShared res \<Rightarrow> (v, handleFlightResult res)
               | FlightLed \<Rightarrow>
                   let (v, res) = runFlight env pol mode req cacheNS epoch v in (v, handleFlightResult res))))"

definition audited ::
  "VerifyRequest \<Rightarrow> auditInfo \<Rightarrow> Verifier \<Rightarrow> Result option \<times> goerr option \<Rightarrow> Verifier \<times> Result option \<times> goerr option" where
  "audited req info v res = (add_audit (logVerification req (fst res) (snd res) info) v, res)"

definition skip ::
  "VerifyRequest \<Rightarrow> auditInfo \<Rightarrow> VerificationMode \<Rightarrow> string \<Rightarrow> Verifier \<Rightarrow> Verifier \<times> Result option \<times> goerr option" where
  "skip req info mode reason v =
     (add_audit (logResult req (skipResult mode reason) info) v, Some (skipResult mode reason), None)"

text \<open>The part of \<open>Verify\<close> from the resolution of the image rule on.\<close>

definition verifyImage ::
  "verify_env \<Rightarrow> VerifyRequest \<Rightarrow> auditInfo \<Rightarrow> Policy \<Rightarrow> Verifier \<Rightarrow> Verifier \<times> Result option \<times> goerr option" where
  "verifyImage env req info pol v =
     (let globalMode = cf_Verification (sn_config (vf_state v));
          (resolvedPol, ruleIdx) = ResolveImagePolicy (vn_parse_duration env) (vn_parse env) pol (rq_ImageRef req);
          effectiveMode = EffectiveMode resolvedPol globalMode;
          info = info\<lparr>ai_verificationMode := effectiveMode\<rparr>;
          cacheNS = cacheNamespaceKey (rq_Namespace req) (rq_ImageRef req) ruleIdx;
          (v, cached) = cachedResult env (rq_Digest req) cacheNS v;
          (v, outcome) = (case cached of
                            Some r \<Rightarrow> (v, Inr r)
                          | None \<Rightarrow> verifyOnce env resolvedPol effectiveMode req cacheNS v)
      in audited req info v
           (case outcome of
              Inl e \<Rightarrow> handleVerifyError effectiveMode e
            | Inr r \<Rightarrow> (let (r', err) = applyEnforcement effectiveMode r (rq_ImageRef req) in (Some r', err))))"

definition verifier_Verify :: "verify_env \<Rightarrow> VerifyRequest \<Rightarrow> Verifier \<Rightarrow> Verifier \<times> Result option \<times> goerr option" where
  "verifier_Verify env req v =
     (let st = vf_state v;
          globalMode = cf_Verification (sn_config st);
          info = \<lparr>ai_policyHash = [], ai_nodeName = vf_nodeName v, ai_podServiceAccount = rq_ServiceAccount req,
                  ai_verificationMode = globalMode, ai_origin = vn_origin env\<rparr>
      in if \<not> config_Enabled (sn_config st) then skip req info globalMode reasonVerificationDisabled v
         else if allowlisted st req then skip req info globalMode ''image digest is allowlisted'' v
         else
           (case policyForNamespace (map_of (sn_policies st)) (rq_Namespace req) of
              None \<Rightarrow>
                let (r, err) = handleMissingPolicy (sn_config st) (rq_ImageRef req) (rq_Namespace req)
                in audited req info v (Some r, err)
            | Some pol \<Rightarrow>
                let namespaceMode = EffectiveMode pol globalMode;
                    info = info\<lparr>ai_policyHash := policyHashForNamespace (map_of (sn_policyHashes st)) (rq_Namespace req),
                                ai_verificationMode := namespaceMode\<rparr>
                in if \<not> isIncluded (vn_parse env) (items (pl_Include pol)) (rq_ImageRef req) then
                     skip req info namespaceMode reasonNotIncluded v
                   else if isExcluded (vn_parse env) (items (pl_Exclude pol)) (rq_ImageRef req) then
                     skip req info namespaceMode reasonExcluded v
                   else if rq_Digest req = [] then
                     (v, None, Some (errors_New (''image digest required for verification: '' @ rq_ImageRef req) [ErrDigestRequired]))
                   else verifyImage env req info pol v))"

section \<open>Keys of results and of running verifications\<close>

definition nul_free :: "string \<Rightarrow> bool" where
  "nul_free s = (CHR 0x00 \<notin> set s)"

lemma nul_split:
  "nul_free a \<Longrightarrow> nul_free a' \<Longrightarrow> a @ CHR 0x00 # b = a' @ CHR 0x00 # b' \<longleftrightarrow> a = a' \<and> b = b'"
proof (induction a arbitrary: a')
  case Nil
  then show ?case by (cases a') (auto simp: nul_free_def)
next
  case (Cons c a)
  then show ?case by (cases a') (auto simp: nul_free_def)
qed

lemma nul_free_Itoa [simp]: "nul_free (Itoa n)"
proof -
  have "\<not> is_digit (CHR 0x00)" by code_simp
  then show ?thesis using Itoa_chars [of n] by (auto simp: nul_free_def)
qed

lemma cacheNamespaceKey_inject:
  assumes "cacheNamespaceKey ns ref i = cacheNamespaceKey ns' ref' i'"
    and "nul_free ns" "nul_free ns'" "nul_free ref" "nul_free ref'"
  shows "ns = ns' \<and> ref = ref' \<and> (i = i' \<or> i < 0 \<and> i' < 0)"
proof -
  let ?t = "\<lambda>i. if i < 0 then [] else CHR 0x00 # ''r'' @ Itoa i"
  have "cacheNamespaceKey ns ref i = ns @ CHR 0x00 # ref @ ?t i" for ns ref i by (simp add: cacheNamespaceKey_def)
  then have eq: "ns = ns'" "ref @ ?t i = ref' @ ?t i'" using assms(1) nul_split [OF assms(2,3)] by simp_all
  show ?thesis
  proof (cases "i < 0 \<or> i' < 0")
    case True
    then show ?thesis using eq assms(4,5) by (auto simp: nul_free_def split: if_splits)
  next
    case False
    then show ?thesis using eq nul_split [OF assms(4,5)] Itoa_inject by simp
  qed
qed

lemma CutPrefix_iff: "CutPrefix s p = Some rest \<longleftrightarrow> s = p @ rest"
  by (auto simp: CutPrefix_def HasPrefix_def) (metis append_take_drop_id)

lemma cacheNamespaceKey_matches:
  assumes "nul_free ns" "nul_free ns'"
  shows "namespaceKeyMatches (cacheNamespaceKey ns ref i) ns' \<longleftrightarrow> ns = ns'"
proof -
  have "\<exists>t. cacheNamespaceKey ns ref i = ns @ CHR 0x00 # t" by (simp add: cacheNamespaceKey_def Let_def)
  then obtain t where key: "cacheNamespaceKey ns ref i = ns @ CHR 0x00 # t" ..
  have "ns = ns'" if "ns @ CHR 0x00 # t = ns' @ rest" "rest = [] \<or> rest ! 0 = CHR 0x00" for rest
  proof (cases rest)
    case Nil
    then show ?thesis using that(1) assms(2) by (metis append_Nil2 in_set_conv_decomp nul_free_def)
  next
    case (Cons c r)
    then show ?thesis using that nul_split [OF assms] by simp
  qed
  then show ?thesis by (auto simp: key namespaceKeyMatches_def CutPrefix_iff CutPrefix_def [of "ns' @ _"] split: option.split)
qed

text \<open>Verifications of different generations, epochs, digests or keys are never shared.\<close>

lemma flightKey_inject:
  assumes "flightKey g e d key = flightKey g' e' d' key'" "nul_free d" "nul_free d'"
  shows "g = g' \<and> e = e' \<and> d = d' \<and> key = key'"
proof -
  have "Itoa (uint g) @ CHR 0x00 # Itoa (uint e) @ CHR 0x00 # d @ CHR 0x00 # key =
      Itoa (uint g') @ CHR 0x00 # Itoa (uint e') @ CHR 0x00 # d' @ CHR 0x00 # key'"
    using assms(1) by (simp add: flightKey_def)
  then show ?thesis using nul_split [OF assms(2,3)] Itoa_inject [of "uint g" "uint g'"] Itoa_inject [of "uint e" "uint e'"]
    by (simp add: nul_split word_uint_eq_iff)
qed

section \<open>Decisions\<close>

text \<open>The mode that decides about an image.\<close>

definition mode_in_effect :: "verify_env \<Rightarrow> VerifyRequest \<Rightarrow> snapshot \<Rightarrow> VerificationMode" where
  "mode_in_effect env req st =
     (case policyForNamespace (map_of (sn_policies st)) (rq_Namespace req) of
        None \<Rightarrow> cf_Verification (sn_config st)
      | Some pol \<Rightarrow> EffectiveMode (fst (ResolveImagePolicy (vn_parse_duration env) (vn_parse env) pol (rq_ImageRef req)))
                     (cf_Verification (sn_config st)))"

lemma applyEnforcement_cases:
  assumes "applyEnforcement mode r ref = (r', err)"
  shows "r_Mode r' = mode \<and> r_CheckResults r' = r_CheckResults r \<and> r_Reason r' = r_Reason r \<and>
    r_Verified r' = (\<not> resultHasFailures r \<and> \<not> Incomplete r) \<and>
    (case err of
       None \<Rightarrow> r_Allowed r' \<and> (r_Allowed r \<or> mode \<noteq> ModeEnforce)
     | Some e \<Rightarrow> mode = ModeEnforce \<and> \<not> r_Allowed r \<and> \<not> r_Allowed r' \<and> errors_Is e ErrVerificationFailed)"
  using assms
  by (auto simp: applyEnforcement_def Let_def resultHasFailures_def Incomplete_def errors_New_def errors_Is_def split: if_splits)

lemma handleVerifyError_cases:
  assumes "handleVerifyError mode e = (res, err)"
  shows "case err of
      None \<Rightarrow> mode \<noteq> ModeEnforce \<and> (\<exists>r. res = Some r \<and> r_Allowed r \<and> \<not> r_Verified r \<and> r_Mode r = mode)
    | Some e' \<Rightarrow> mode = ModeEnforce \<and> res = None"
proof (cases "mode = ModeEnforce")
  case True
  then have "res = None" "err = Some (Errorf_w ''verification'' e)"
    using assms by (simp_all only: handleVerifyError_def prod.inject simp_thms if_False)
  then show ?thesis using True by simp
next
  case False
  then obtain cs where "res = Some ((allowResult (''verification error: '' @ err_msg e))\<lparr>r_Verified := False, r_Mode := mode, r_CheckResults := cs\<rparr>)"
    "err = None"
    using assms by (simp only: handleVerifyError_def prod.inject simp_thms if_True) blast
  then show ?thesis using False by (simp add: allowResult_def)
qed

definition same_but_cache :: "Verifier \<Rightarrow> Verifier \<Rightarrow> bool" where
  "same_but_cache v v' =
     (vf_audit v' = vf_audit v \<and> sn_config (vf_state v') = sn_config (vf_state v) \<and>
      sn_policies (vf_state v') = sn_policies (vf_state v) \<and> sn_policyHashes (vf_state v') = sn_policyHashes (vf_state v) \<and>
      sn_generation (vf_state v') = sn_generation (vf_state v) \<and> vf_flights v' = vf_flights v)"

lemma same_but_cache_trans: "same_but_cache u v \<Longrightarrow> same_but_cache v w \<Longrightarrow> same_but_cache u w"
  by (simp add: same_but_cache_def)

lemma cachedResult_frame:
  assumes "cachedResult env d key v = (v', r)"
  shows "same_but_cache v v'"
  using assms by (auto simp: cachedResult_def same_but_cache_def split: prod.splits)

lemma flight_frame: "flight_begin t = (t', ok) \<Longrightarrow> ok \<Longrightarrow> flight_end t' = t"
  by (auto simp: flight_begin_def flight_end_def split: if_splits)

lemma runFlight_frame:
  assumes "runFlight env pol mode req key epoch v = (v', out)"
  shows "same_but_cache v v'"
proof -
  obtain flights ok where fb: "flight_begin (vf_flights v) = (flights, ok)" by (rule prod.exhaust)
  show ?thesis
  proof (cases ok)
    case False
    then show ?thesis using assms by (auto simp: runFlight_def fb same_but_cache_def)
  next
    case True
    obtain w cached where cr: "cachedResult env (rq_Digest req) key (v\<lparr>vf_flights := flights\<rparr>) = (w, cached)" by (rule prod.exhaust)
    have w: "vf_flights w = flights" "vf_audit w = vf_audit v" "sn_config (vf_state w) = sn_config (vf_state v)"
      "sn_policies (vf_state w) = sn_policies (vf_state v)" "sn_policyHashes (vf_state w) = sn_policyHashes (vf_state v)"
      "sn_generation (vf_state w) = sn_generation (vf_state v)"
      using cachedResult_frame [OF cr] by (simp_all add: same_but_cache_def)
    show ?thesis
      using assms True flight_frame [OF fb True]
      by (auto simp: runFlight_def fb cr w same_but_cache_def Let_def split: option.splits prod.splits sum.splits if_splits)
  qed
qed

lemma verifyOnce_frame:
  assumes "verifyOnce env pol mode req key v = (v', out)"
  shows "same_but_cache v v'"
  using assms runFlight_frame
  by (auto simp: verifyOnce_def Let_def same_but_cache_def split: option.splits flight.splits prod.splits)

text \<open>The outcome of looking an image up or checking it, before the mode is applied.\<close>

lemma verifyImage_cases:
  assumes "verifyImage env req info pol v = (v', res, err)" "ResolveImagePolicy (vn_parse_duration env) (vn_parse env) pol (rq_ImageRef req) = (rpol, idx)"
  shows "\<exists>w outcome. same_but_cache v w \<and>
    (\<exists>w0 cached. cachedResult env (rq_Digest req) (cacheNamespaceKey (rq_Namespace req) (rq_ImageRef req) idx) v = (w0, cached) \<and>
       (w, outcome) = (case cached of Some r \<Rightarrow> (w0, Inr r)
          | None \<Rightarrow> verifyOnce env rpol (EffectiveMode rpol (cf_Verification (sn_config (vf_state v)))) req
                      (cacheNamespaceKey (rq_Namespace req) (rq_ImageRef req) idx) w0)) \<and>
    v' = add_audit (logVerification req res err (info\<lparr>ai_verificationMode := EffectiveMode rpol (cf_Verification (sn_config (vf_state v)))\<rparr>)) w \<and>
    (case outcome of
       Inl e \<Rightarrow> handleVerifyError (EffectiveMode rpol (cf_Verification (sn_config (vf_state v)))) e = (res, err)
     | Inr r \<Rightarrow> \<exists>r'. res = Some r' \<and> applyEnforcement (EffectiveMode rpol (cf_Verification (sn_config (vf_state v)))) r (rq_ImageRef req) = (r', err))"
proof -
  let ?mode = "EffectiveMode rpol (cf_Verification (sn_config (vf_state v)))"
  let ?key = "cacheNamespaceKey (rq_Namespace req) (rq_ImageRef req) idx"
  obtain w0 cached where cr: "cachedResult env (rq_Digest req) ?key v = (w0, cached)" by (rule prod.exhaust)
  obtain w outcome where oc: "(case cached of Some r \<Rightarrow> (w0, Inr r) | None \<Rightarrow> verifyOnce env rpol ?mode req ?key w0) = (w, outcome)"
    by (rule prod.exhaust)
  have "same_but_cache w0 w"
    using oc verifyOnce_frame by (cases cached) (auto simp: same_but_cache_def)
  then have same: "same_but_cache v w" using cachedResult_frame [OF cr] same_but_cache_trans by blast
  have "audited req (info\<lparr>ai_verificationMode := ?mode\<rparr>) w
      (case outcome of Inl e \<Rightarrow> handleVerifyError ?mode e
       | Inr r \<Rightarrow> (let (r', err) = applyEnforcement ?mode r (rq_ImageRef req) in (Some r', err))) = (v', res, err)"
    using assms by (simp add: verifyImage_def Let_def cr oc)
  then show ?thesis
    using same cr oc by (intro exI [of _ w] exI [of _ outcome]) (auto simp: audited_def split: sum.splits prod.splits)
qed

text \<open>The ways \<open>Verify\<close> ends.\<close>

lemma Verify_cases:
  obtains (skipped) info mode reason where "verifier_Verify env req v = skip req info mode reason v" "ai_verificationMode info = mode"
      "\<not> config_Enabled (sn_config (vf_state v)) \<or> allowlisted (vf_state v) req \<or>
       (\<exists>pol. policyForNamespace (map_of (sn_policies (vf_state v))) (rq_Namespace req) = Some pol \<and>
          (\<not> isIncluded (vn_parse env) (items (pl_Include pol)) (rq_ImageRef req) \<or> isExcluded (vn_parse env) (items (pl_Exclude pol)) (rq_ImageRef req)))"
  | (no_policy) info r err where
      "policyForNamespace (map_of (sn_policies (vf_state v))) (rq_Namespace req) = None"
      "handleMissingPolicy (sn_config (vf_state v)) (rq_ImageRef req) (rq_Namespace req) = (r, err)"
      "verifier_Verify env req v = audited req info v (Some r, err)" "ai_verificationMode info = cf_Verification (sn_config (vf_state v))"
  | (no_digest) "rq_Digest req = []"
      "verifier_Verify env req v =
         (v, None, Some (errors_New (''image digest required for verification: '' @ rq_ImageRef req) [ErrDigestRequired]))"
  | (image) info pol where
      "policyForNamespace (map_of (sn_policies (vf_state v))) (rq_Namespace req) = Some pol"
      "rq_Digest req \<noteq> []" "verifier_Verify env req v = verifyImage env req info pol v"
proof -
  note eq = verifier_Verify_def [of env req v, unfolded Let_def]
  let ?st = "vf_state v"
  show thesis
  proof (cases "\<not> config_Enabled (sn_config ?st)")
    case True
    then show thesis using skipped eq by simp
  next
    case enabled: False
    show thesis
    proof (cases "allowlisted ?st req")
      case True
      then show thesis using enabled skipped eq by simp
    next
      case False
      show thesis
      proof (cases "policyForNamespace (map_of (sn_policies ?st)) (rq_Namespace req)")
        case None
        obtain r err where hm: "handleMissingPolicy (sn_config ?st) (rq_ImageRef req) (rq_Namespace req) = (r, err)" by (rule prod.exhaust)
        show thesis using no_policy [OF None hm] eq enabled False None hm by simp
      next
        case (Some pol)
        let ?inc = "isIncluded (vn_parse env) (items (pl_Include pol)) (rq_ImageRef req)"
        let ?exc = "isExcluded (vn_parse env) (items (pl_Exclude pol)) (rq_ImageRef req)"
        consider "\<not> ?inc" | "?inc" "?exc" | "?inc" "\<not> ?exc" "rq_Digest req = []" | "?inc" "\<not> ?exc" "rq_Digest req \<noteq> []" by blast
        then show thesis
        proof cases
          case 1
          then show thesis using skipped eq enabled False Some by simp
        next
          case 2
          then show thesis using skipped eq enabled False Some by simp
        next
          case 3
          then show thesis using no_digest eq enabled False Some by simp
        next
          case 4
          then show thesis using image [OF Some] eq enabled False Some by simp
        qed
      qed
    qed
  qed
qed

lemma Verify_outcome:
  assumes "verifier_Verify env req v = (v', res, err)"
  shows "case err of
      None \<Rightarrow> \<exists>r. res = Some r \<and> r_Allowed r
    | Some e \<Rightarrow> rq_Digest req = [] \<and> res = None \<and> errors_Is e ErrDigestRequired \<or>
               mode_in_effect env req (vf_state v) = ModeEnforce \<and> (\<forall>r. res = Some r \<longrightarrow> \<not> r_Allowed r \<and> errors_Is e ErrVerificationFailed)"
proof (cases rule: Verify_cases [of env req v])
  case (skipped info mode reason)
  then show ?thesis using assms by (auto simp: skip_def skipResult_def allowResult_def)
next
  case (no_policy info r e)
  have "res = Some r" "err = e" using assms no_policy(3) by (simp_all add: audited_def)
  then show ?thesis
    using applyEnforcement_cases [OF no_policy(2) [unfolded handleMissingPolicy_def]] no_policy(1)
    by (auto simp: mode_in_effect_def split: option.splits)
next
  case no_digest
  then show ?thesis using assms by (simp add: errors_New_def errors_Is_def)
next
  case (image info pol)
  obtain rpol idx where rp: "ResolveImagePolicy (vn_parse_duration env) (vn_parse env) pol (rq_ImageRef req) = (rpol, idx)"
    by (rule prod.exhaust)
  let ?mode = "EffectiveMode rpol (cf_Verification (sn_config (vf_state v)))"
  have mode: "mode_in_effect env req (vf_state v) = ?mode" by (simp add: mode_in_effect_def image(1) rp)
  from verifyImage_cases [OF _ rp, of info v v' res err] obtain outcome :: "goerr + Result" where
    out: "case outcome of Inl e \<Rightarrow> handleVerifyError ?mode e = (res, err)
       | Inr r \<Rightarrow> \<exists>r'. res = Some r' \<and> applyEnforcement ?mode r (rq_ImageRef req) = (r', err)"
    using assms image(3) by auto
  show ?thesis
  proof (cases outcome)
    case (Inl e)
    then show ?thesis using handleVerifyError_cases [of ?mode e res err] out by (auto simp: mode split: option.splits)
  next
    case (Inr r)
    then obtain r' where "res = Some r'" "applyEnforcement ?mode r (rq_ImageRef req) = (r', err)" using out by auto
    then show ?thesis using applyEnforcement_cases [of ?mode r "rq_ImageRef req" r' err] by (auto simp: mode split: option.splits)
  qed
qed

text \<open>C15: only enforcement denies.  \<open>Verify\<close> returns an error only when it needs a digest it was not given, or when the mode that applies to the image is
  enforce; then it returns either no result or one that is not allowed, with an error that wraps ErrVerificationFailed.  Without an
  error there is a result, and it is allowed.\<close>

theorem denied_only_in_enforce:
  assumes "verifier_Verify env req v = (v', res, err)"
  shows "case err of
      None \<Rightarrow> \<exists>r. res = Some r \<and> r_Allowed r
    | Some e \<Rightarrow> rq_Digest req = [] \<and> res = None \<and> errors_Is e ErrDigestRequired \<or>
               mode_in_effect env req (vf_state v) = ModeEnforce \<and> (\<forall>r. res = Some r \<longrightarrow> \<not> r_Allowed r \<and> errors_Is e ErrVerificationFailed)"
  using assms by (rule Verify_outcome)

definition demo_snapshot :: "VerificationMode \<Rightarrow> (string \<times> Policy) list \<Rightarrow> snapshot" where
  "demo_snapshot mode pols =
     \<lparr>sn_generation = 1, sn_policyRevision = 1, sn_config = DefaultConfig\<lparr>cf_Verification := mode\<rparr>, sn_policies = pols,
      sn_policyHashes = [], sn_trust = \<lparr>tf_policy = [], tf_sigstore = []\<rparr>,
      sn_fetcherBasis = \<lparr>fb_config = DefaultConfig, fb_sigstore = []\<rparr>, sn_cache = NewWithGauge minutes 10 None, sn_fetcher = None,
      sn_shared = \<lparr>sh_breakers = None, sh_guacBreaker = None\<rparr>, sn_auditLog = None, sn_allowlistDigests = [], sn_guacClient = None\<rparr>"

definition demo_verifier :: "VerificationMode \<Rightarrow> (string \<times> Policy) list \<Rightarrow> Verifier" where
  "demo_verifier mode pols =
     \<lparr>vf_state = demo_snapshot mode pols, vf_nodeName = ''node'', vf_generation = 1, vf_policyRevision = 1,
      vf_flights = \<lparr>fl_active = 0, fl_closed = False\<rparr>, vf_poller = None, vf_flightStarts = Map.empty, vf_stopped = False, vf_audit = []\<rparr>"

definition demo_env :: verify_env where
  "demo_env = \<lparr>vn_check = sample_env None, vn_between = id, vn_during = id, vn_rnd = (\<lambda>_. 0), vn_deadline = None, vn_flight = FlightLed,
     vn_stopCancelled = False, vn_origin = [], vn_parse_duration = (\<lambda>_. None)\<rparr>"

lemma demo_no_policy:
  "\<exists>r info. verifier_Verify demo_env sample_request (demo_verifier mode []) =
     audited sample_request info (demo_verifier mode []) (Some r, if mode = ModeEnforce then snd (handleMissingPolicy
       (DefaultConfig\<lparr>cf_Verification := mode\<rparr>) ''img'' ''ns'') else None)" if "mode \<noteq> ModeDisabled"
  using that
  by (simp add: verifier_Verify_def Let_def demo_verifier_def demo_snapshot_def config_Enabled_def allowlisted_def sample_request_def
      policyForNamespace_def handleMissingPolicy_def applyEnforcement_def) blast

lemma demo_denied: "snd (handleMissingPolicy (DefaultConfig\<lparr>cf_Verification := ModeEnforce\<rparr>) ''img'' ''ns'') \<noteq> None"
  by (simp add: handleMissingPolicy_def applyEnforcement_def)

lemma sample_request_digest: "rq_Digest sample_request \<noteq> []"
  by code_simp

theorem denied_only_in_enforce_witness:
  "\<exists>v' r e. verifier_Verify demo_env sample_request (demo_verifier ModeEnforce []) = (v', Some r, Some e) \<and>
     \<not> r_Allowed r \<and> errors_Is e ErrVerificationFailed"
proof -
  obtain v' res err where run: "verifier_Verify demo_env sample_request (demo_verifier ModeEnforce []) = (v', res, err)" by (rule prod_cases3)
  have "\<exists>r. res = Some r" "err \<noteq> None" using demo_no_policy [of ModeEnforce] demo_denied run by (auto simp: audited_def)
  then show ?thesis using denied_only_in_enforce [OF run] run sample_request_digest by auto
qed

text \<open>Entries of one decision.\<close>

definition decision_entries :: "VerifyRequest \<Rightarrow> VerificationMode \<Rightarrow> Result option \<Rightarrow> bool \<Rightarrow> auditEvent list \<Rightarrow> bool" where
  "decision_entries req mode res allowed entries =
     (\<exists>es e. entries = es @ [e] \<and> (\<forall>x \<in> set es. ae_Decision x = []) \<and>
        ae_Decision e = (if allowed then ''allowed'' else ''denied'') \<and> (ae_Allowed e \<longleftrightarrow> allowed) \<and>
        ae_Image e = rq_ImageRef req \<and> ae_Digest e = rq_Digest req \<and> ae_Namespace e = rq_Namespace req \<and>
        ae_VerificationMode e = mode \<and> (\<forall>r. res = Some r \<longrightarrow> ae_Verified e = r_Verified r))"

lemma logResult_entries: "decision_entries req (ai_verificationMode info) (Some r) (r_Allowed r) (logResult req r info)"
  unfolding decision_entries_def logResult_def by (intro exI conjI, rule refl) (auto simp: logAuditDecision_def audit_event_def)

lemma logVerification_entries:
  assumes "\<And>r. res = Some r \<Longrightarrow> r_Allowed r = (err = None)" "res = None \<Longrightarrow> err \<noteq> None"
  shows "decision_entries req (ai_verificationMode info) res (err = None) (logVerification req res err info)"
proof (cases res)
  case None
  then show ?thesis using assms(2)
    by (auto simp: decision_entries_def logVerification_def logAuditDecision_def audit_event_def)
next
  case (Some r)
  then show ?thesis using logResult_entries [of req info r] assms(1) by (simp add: logVerification_def)
qed

text \<open>C16: every decision is in the audit log.  A call of \<open>Verify\<close> that does not end by asking for a digest appends entries to the audit log of which exactly the
  last one is a decision: it names the image, the digest, the namespace and the mode of the result, and says allowed exactly when the caller gets no
  error.\<close>

theorem decision_audited:
  assumes "verifier_Verify env req v = (v', res, err)" "rq_Digest req \<noteq> []"
  shows "\<exists>mode entries. vf_audit v' = vf_audit v @ entries \<and> decision_entries req mode res (err = None) entries \<and>
    (\<forall>r. res = Some r \<longrightarrow> r_Mode r = mode)"
proof (cases rule: Verify_cases [of env req v])
  case (skipped info mode reason)
  have "v' = add_audit (logResult req (skipResult mode reason) info) v" "res = Some (skipResult mode reason)" "err = None"
    using assms(1) skipped(1) by (simp_all add: skip_def)
  then show ?thesis
    using logResult_entries [of req info "skipResult mode reason"] skipped(2)
    by (intro exI [of _ mode] exI [of _ "logResult req (skipResult mode reason) info"]) (simp add: add_audit_def skipResult_def allowResult_def)
next
  case (no_policy info r e)
  have "res = Some r" "err = e" "v' = add_audit (logVerification req (Some r) e info) v"
    using assms(1) no_policy(3) by (auto simp: audited_def)
  then show ?thesis
    using applyEnforcement_cases [OF no_policy(2) [unfolded handleMissingPolicy_def]] logVerification_entries [of "Some r" e req info] no_policy(4)
    by (intro exI [of _ "r_Mode r"] exI [of _ "logVerification req (Some r) e info"]) (auto simp: add_audit_def split: option.splits)
next
  case no_digest
  then show ?thesis using assms(2) by simp
next
  case (image info pol)
  obtain rpol idx where rp: "ResolveImagePolicy (vn_parse_duration env) (vn_parse env) pol (rq_ImageRef req) = (rpol, idx)"
    by (rule prod.exhaust)
  let ?mode = "EffectiveMode rpol (cf_Verification (sn_config (vf_state v)))"
  let ?info = "info\<lparr>ai_verificationMode := ?mode\<rparr>"
  from verifyImage_cases [OF _ rp, of info v v' res err] obtain w and outcome :: "goerr + Result" where
    w: "same_but_cache v w" "v' = add_audit (logVerification req res err ?info) w" and
    out: "case outcome of Inl e \<Rightarrow> handleVerifyError ?mode e = (res, err)
       | Inr r \<Rightarrow> \<exists>r'. res = Some r' \<and> applyEnforcement ?mode r (rq_ImageRef req) = (r', err)"
    using assms(1) image(3) by auto
  have "(\<forall>r. res = Some r \<longrightarrow> r_Allowed r = (err = None) \<and> r_Mode r = ?mode) \<and> (res = None \<longrightarrow> err \<noteq> None)"
  proof (cases outcome)
    case (Inl e)
    then show ?thesis using handleVerifyError_cases [of ?mode e res err] out by (auto split: option.splits)
  next
    case (Inr r)
    then obtain r' where "res = Some r'" "applyEnforcement ?mode r (rq_ImageRef req) = (r', err)" using out by auto
    then show ?thesis using applyEnforcement_cases [of ?mode r "rq_ImageRef req" r' err] by (auto split: option.splits)
  qed
  then show ?thesis
    using logVerification_entries [of res err req ?info] w
    by (intro exI [of _ ?mode] exI [of _ "logVerification req res err ?info"]) (simp add: add_audit_def same_but_cache_def)
qed

theorem decision_audited_witness:
  "\<exists>mode r. decision_entries sample_request mode (Some r) True
     (vf_audit (fst (verifier_Verify demo_env sample_request (demo_verifier ModeWarn []))))"
proof -
  obtain v' res err where run: "verifier_Verify demo_env sample_request (demo_verifier ModeWarn []) = (v', res, err)" by (rule prod_cases3)
  obtain r where "res = Some r" "err = None" using demo_no_policy [of ModeWarn] run by (auto simp: audited_def)
  then show ?thesis using decision_audited [OF run] run sample_request_digest by (auto simp: demo_verifier_def)
qed

text \<open>Preparation that \<open>ShouldVerify\<close> saves is not needed.  Where the mode of the namespace is not weaker than the global one, an image of which
  \<open>ShouldVerify\<close> says that it needs no verification is admitted by \<open>Verify\<close> without a digest, with the same reason or because it is
  allowlisted; any other image that is not allowlisted, and has a policy, is never decided upon without its digest.\<close>

lemma ShouldVerify_agrees:
  assumes "ShouldVerify (vn_parse env) v (rq_Namespace req) (rq_ImageRef req) = (needed, reason)"
    and "\<And>pol. policyForNamespace (map_of (sn_policies (vf_state v))) (rq_Namespace req) = Some pol \<Longrightarrow>
      ValidateModeStrictness pol (cf_Verification (sn_config (vf_state v))) = []"
    and "cf_Verification (sn_config (vf_state v)) \<in> {ModeDisabled, ModeWarn, ModeEnforce}"
    and "rq_Digest req = []"
  shows "if needed
    then allowlisted (vf_state v) req \<or> policyForNamespace (map_of (sn_policies (vf_state v))) (rq_Namespace req) = None \<or>
         (\<exists>e. verifier_Verify env req v = (v, None, Some e) \<and> errors_Is e ErrDigestRequired)
    else \<exists>v' mode r. verifier_Verify env req v = (v', Some r, None) \<and>
         (r = skipResult mode reason \<or> allowlisted (vf_state v) req \<and> r = skipResult mode ''image digest is allowlisted'')"
proof -
  let ?st = "vf_state v"
  note eq = verifier_Verify_def [of env req v, unfolded Let_def]
  show ?thesis
  proof (cases "config_Enabled (sn_config ?st)")
    case False
    then show ?thesis using assms(1) eq by (auto simp: ShouldVerify_def Let_def skip_def)
  next
    case enabled: True
    show ?thesis
    proof (cases "policyForNamespace (map_of (sn_policies ?st)) (rq_Namespace req)")
      case None
      then show ?thesis using assms(1) enabled by (auto simp: ShouldVerify_def Let_def)
    next
      case (Some pol)
      have "EffectiveMode pol (cf_Verification (sn_config ?st)) \<noteq> ModeDisabled"
        using assms(2) [OF Some] assms(3) enabled
        by (auto simp: EffectiveMode_def ValidateModeStrictness_def config_Enabled_def Strictness_def split: if_splits)
      then show ?thesis using assms(1,4) enabled Some eq
        by (auto simp: ShouldVerify_def Let_def skip_def errors_New_def errors_Is_def split: if_splits)
    qed
  qed
qed

lemma ShouldVerify_agrees_witness:
  "\<exists>v' mode r. verifier_Verify demo_env (sample_request\<lparr>rq_Digest := []\<rparr>) (demo_verifier ModeDisabled []) = (v', Some r, None) \<and>
     r = skipResult mode reasonVerificationDisabled"
proof -
  have sv: "ShouldVerify (vn_parse demo_env) (demo_verifier ModeDisabled []) (rq_Namespace (sample_request\<lparr>rq_Digest := []\<rparr>))
      (rq_ImageRef (sample_request\<lparr>rq_Digest := []\<rparr>)) = (False, reasonVerificationDisabled)" by code_simp
  have "\<not> allowlisted (vf_state (demo_verifier ModeDisabled [])) (sample_request\<lparr>rq_Digest := []\<rparr>)" by code_simp
  moreover have "policyForNamespace (map_of (sn_policies (vf_state (demo_verifier ModeDisabled [])))) ns = None" for ns
    by (simp add: demo_verifier_def demo_snapshot_def policyForNamespace_def)
  moreover have "cf_Verification (sn_config (vf_state (demo_verifier ModeDisabled []))) = ModeDisabled"
    by (simp add: demo_verifier_def demo_snapshot_def)
  ultimately show ?thesis using ShouldVerify_agrees [OF sv] by auto
qed

end
