(* ===== verification/Reload.thy ===== *)
theory Reload
  imports Verifier
begin

text \<open>
  Reloading the verifier (src/internal/verifier/verifier_reload.go, snapshot.go, trust_material.go, verifier_policy_load.go and
  verifier_poller.go, with the rollback guard of src/internal/policy/oci.go and the poller of src/internal/policy/poller.go): how a new
  configuration, new policies or new trust material replace the snapshot, what of the previous one is kept, and which policy
  artifacts are accepted.

  What a reload reads and creates (policy files, the pulled and verified policy artifact, hashes, fetchers, clients, log files) are
  fields of \<open>reload_env\<close>.  A reload ends with or without an error, or in a panic.  Closing what was replaced and log messages are left out.
\<close>

section \<open>What a reload depends on\<close>

record ociArtifact =
  oa_Policies :: "(string \<times> Policy) list"
  oa_Digest :: string
  oa_Created :: "time option"

record reload_env =
  rl_now :: time
  rl_LoadAll :: "string \<Rightarrow> goerr + (string \<times> Policy) list"
  rl_newPolicyFetcher :: "Config \<Rightarrow> goerr option"
  rl_pull :: "string \<Rightarrow> goerr + ociArtifact"
  rl_checkDigest :: "string \<Rightarrow> goerr + string"
  rl_validateRuntime :: "Policy list \<Rightarrow> goerr option"
  rl_url_Parse :: "string \<Rightarrow> (string \<times> string) option"
  rl_parse_duration :: "string \<Rightarrow> duration option"
  rl_hash :: "Policy \<Rightarrow> goerr + string"
  rl_file :: "string \<Rightarrow> string"
  rl_sha256 :: "string \<Rightarrow> string"
  rl_newFetcher :: "Config \<Rightarrow> goerr + nat"
  rl_storeChanged :: "nat \<Rightarrow> Config \<Rightarrow> bool"
  rl_openAudit :: "string \<Rightarrow> goerr + nat option"
  rl_newGUAC :: "Config \<Rightarrow> goerr + nat"
  rl_isConnectionError :: "goerr \<Rightarrow> bool"

section \<open>Changes of the configuration\<close>

definition limitsChanged :: "Config \<Rightarrow> Config \<Rightarrow> bool" where
  "limitsChanged prev next =
     (cf_CacheMaxEntries prev \<noteq> cf_CacheMaxEntries next \<or> cf_MaxAttestationSize prev \<noteq> cf_MaxAttestationSize next)"

definition fetchFailurePolicyChanged :: "Config \<Rightarrow> Config \<Rightarrow> bool" where
  "fetchFailurePolicyChanged prev next =
     (cf_FetchFailurePolicy prev \<noteq> cf_FetchFailurePolicy next \<or>
      cf_FetchFailurePolicyExplicit prev \<noteq> cf_FetchFailurePolicyExplicit next)"

definition guacTransportChanged :: "Config \<Rightarrow> Config \<Rightarrow> bool" where
  "guacTransportChanged prev next =
     (gc_Endpoint (cf_Guac prev) \<noteq> gc_Endpoint (cf_Guac next) \<or>
      gc_AuthTokenPath (cf_Guac prev) \<noteq> gc_AuthTokenPath (cf_Guac next) \<or>
      gc_CACertPath (cf_Guac prev) \<noteq> gc_CACertPath (cf_Guac next) \<or>
      gc_Timeout (cf_Guac prev) \<noteq> gc_Timeout (cf_Guac next))"

definition guacConfigChanged :: "Config \<Rightarrow> Config \<Rightarrow> bool" where
  "guacConfigChanged prev next =
     (guacTransportChanged prev next \<or>
      gc_FallbackPolicy (cf_Guac prev) \<noteq> gc_FallbackPolicy (cf_Guac next) \<or>
      gc_MaxDependencies (cf_Guac prev) \<noteq> gc_MaxDependencies (cf_Guac next) \<or>
      gc_Checks (cf_Guac prev) \<noteq> gc_Checks (cf_Guac next))"

definition cacheTimingsChanged :: "Config \<Rightarrow> Config \<Rightarrow> bool" where
  "cacheTimingsChanged prev next =
     (cf_CacheTTL prev \<noteq> cf_CacheTTL next \<or> cf_CacheFailureTTL prev \<noteq> cf_CacheFailureTTL next \<or>
      cf_FetchTimeout prev \<noteq> cf_FetchTimeout next)"

definition policySourceChanged :: "Config \<Rightarrow> Config \<Rightarrow> bool" where
  "policySourceChanged prev next =
     (pc_Source (cf_Policy prev) \<noteq> pc_Source (cf_Policy next) \<or>
      pc_OCIRef (cf_Policy prev) \<noteq> pc_OCIRef (cf_Policy next) \<or>
      pc_Issuers (cf_Policy prev) \<noteq> pc_Issuers (cf_Policy next) \<or>
      pc_SANPatterns (cf_Policy prev) \<noteq> pc_SANPatterns (cf_Policy next) \<or>
      pc_Keys (cf_Policy prev) \<noteq> pc_Keys (cf_Policy next))"

definition cacheAffectingFieldsChanged :: "Config \<Rightarrow> Config \<Rightarrow> bool" where
  "cacheAffectingFieldsChanged prev next =
     (cf_Verification prev \<noteq> cf_Verification next \<or>
      cf_PolicyDir prev \<noteq> cf_PolicyDir next \<or>
      cacheTimingsChanged prev next \<or>
      fetchFailurePolicyChanged prev next \<or>
      SigstoreConfigChanged (cf_Sigstore prev) (cf_Sigstore next) \<or>
      RegistriesChanged (cf_Registries prev) (cf_Registries next) \<or>
      policySourceChanged prev next \<or>
      limitsChanged prev next \<or>
      guacConfigChanged prev next \<or>
      OfflineConfigChanged (cf_Offline prev) (cf_Offline next))"

section \<open>Trust material\<close>

definition appendSectionTrustPaths :: "string list \<Rightarrow> Sections \<Rightarrow> string list" where
  "appendSectionTrustPaths paths sections =
     paths
     @ (case s_Trust sections of
          None \<Rightarrow> []
        | Some t \<Rightarrow> concat (map tv_Keys (items (tp_Verifiers t))) @ concat (map tb_Keys (items (tp_Builders t))))
     @ (case s_Notation sections of
          None \<Rightarrow> []
        | Some n \<Rightarrow> concat (map nts_Certificates (items (not_TrustStores n))))"

definition policyTrustPaths :: "Config \<Rightarrow> Policy list \<Rightarrow> string list" where
  "policyTrustPaths cfg pols =
     foldl (\<lambda>paths pol. foldl (\<lambda>ps rule. appendSectionTrustPaths ps (ir_Sections rule))
                          (appendSectionTrustPaths paths (pl_Sections pol)) (items (pl_Rules pol)))
       (pc_Keys (cf_Policy cfg) @
        (if of_BundleSignatureKey (cf_Offline cfg) \<noteq> [] then [of_BundleSignatureKey (cf_Offline cfg)] else [])) pols"

definition sigstoreRootPaths :: "Config \<Rightarrow> string list" where
  "sigstoreRootPaths cfg = filter (\<lambda>p. p \<noteq> []) (map rs_TUFRoot (EffectiveRoots (cf_Sigstore cfg)))"

definition hashFiles :: "reload_env \<Rightarrow> string list \<Rightarrow> string" where
  "hashFiles env paths =
     (if paths = [] then []
      else rl_sha256 env (concat (map (\<lambda>p. p @ [CHR 0x00] @ rl_file env p @ [CHR 0x00])
             (remdups_adj (sort (map filepath_Clean paths))))))"

definition computeTrustFingerprint :: "reload_env \<Rightarrow> Config \<Rightarrow> Policy list \<Rightarrow> trustFingerprint" where
  "computeTrustFingerprint env cfg pols =
     \<lparr>tf_policy = hashFiles env (policyTrustPaths cfg pols), tf_sigstore = hashFiles env (sigstoreRootPaths cfg)\<rparr>"

section \<open>Loading policies\<close>

definition validation_error :: "config_error list \<Rightarrow> goerr option" where
  "validation_error errs = (if errs = [] then None else Some (errors_New (Join errs ''; '') []))"

text \<open>The rollback guard of the policy fetcher.  A creation time of \<open>None\<close> is the zero time: the artifact has no creation annotation.\<close>

definition maxCreatedClockSkew :: duration where "maxCreatedClockSkew = 5 * minutes"

definition checkRollback :: "time \<Rightarrow> time option \<Rightarrow> time option \<Rightarrow> goerr option" where
  "checkRollback now newest created =
     (if (case created of None \<Rightarrow> False | Some c \<Rightarrow> c > now + maxCreatedClockSkew) then
        Some (errors_New ''invalid created annotation: created is in the future'' [])
      else
        (case newest of
           None \<Rightarrow> None
         | Some n \<Rightarrow>
             (case created of
                None \<Rightarrow> Some (errors_New ''OCI policy artifact is older than the applied policy: missing annotation'' [])
              | Some c \<Rightarrow>
                  if c < n then Some (errors_New ''OCI policy artifact is older than the applied policy'' []) else None)))"

definition SeedNewestCreated :: "time option \<Rightarrow> time option \<Rightarrow> time option" where
  "SeedNewestCreated created newest =
     (case created of
        None \<Rightarrow> newest
      | Some c \<Rightarrow> (case newest of None \<Rightarrow> Some c | Some n \<Rightarrow> if c > n then Some c else newest))"

definition FetchFromOCI :: "reload_env \<Rightarrow> string \<Rightarrow> time option \<Rightarrow> goerr + ociArtifact" where
  "FetchFromOCI env ociRef newest =
     (case rl_pull env ociRef of
        Inl e \<Rightarrow> Inl e
      | Inr artifact \<Rightarrow>
          (case checkRollback (rl_now env) newest (oa_Created artifact) of
             Some e \<Rightarrow> Inl (Errorf_w (''OCI policy artifact '' @ quoted ociRef) e)
           | None \<Rightarrow> Inr artifact))"

fun hashPolicies :: "reload_env \<Rightarrow> (string \<times> Policy) list \<Rightarrow> goerr + (string \<times> string) list" where
  "hashPolicies env [] = Inr []"
| "hashPolicies env ((namespace, pol) # pols) =
     (case rl_hash env pol of
        Inl e \<Rightarrow> Inl (Errorf_w (''policy '' @ quoted namespace) e)
      | Inr h \<Rightarrow>
          (case hashPolicies env pols of Inl e \<Rightarrow> Inl e | Inr hs \<Rightarrow> Inr ((namespace, h) # hs)))"

text \<open>The policy fetcher of loaded policies is its rollback guard.\<close>

record loadedPolicies =
  lp_policies :: "(string \<times> Policy) list"
  lp_hashes :: "(string \<times> string) list"
  lp_policyFetcher :: "time option option"
  lp_ociDigest :: string

definition no_policies :: loadedPolicies where
  "no_policies = \<lparr>lp_policies = [], lp_hashes = [], lp_policyFetcher = None, lp_ociDigest = []\<rparr>"

definition loadPoliciesFromSource ::
  "reload_env \<Rightarrow> Config \<Rightarrow> time option \<Rightarrow> loadedPolicies \<Rightarrow> loadedPolicies \<times> (goerr + time option)" where
  "loadPoliciesFromSource env cfg rollbackSeed loaded =
     (if pc_Source (cf_Policy cfg) \<noteq> PolicySourceOCI then
        (case rl_LoadAll env (cf_PolicyDir cfg) of
           Inl e \<Rightarrow> (loaded, Inl (Errorf_w ''loading policies'' e))
         | Inr pols \<Rightarrow> (loaded\<lparr>lp_policies := pols\<rparr>, Inr None))
      else
        (case rl_newPolicyFetcher env cfg of
           Some e \<Rightarrow> (loaded, Inl (Errorf_w ''building policy fetcher'' e))
         | None \<Rightarrow>
             let newest = SeedNewestCreated rollbackSeed None;
                 loaded = loaded\<lparr>lp_policyFetcher := Some newest\<rparr>
             in (case FetchFromOCI env (pc_OCIRef (cf_Policy cfg)) newest of
                   Inl e \<Rightarrow> (loaded, Inl (Errorf_w ''loading OCI policies'' e))
                 | Inr artifact \<Rightarrow>
                     (loaded\<lparr>lp_policies := oa_Policies artifact, lp_ociDigest := oa_Digest artifact\<rparr>,
                      Inr (oa_Created artifact)))))"

definition errors_Join2 :: "goerr option \<Rightarrow> goerr option \<Rightarrow> goerr option" where
  "errors_Join2 a b = (case a of None \<Rightarrow> b | Some x \<Rightarrow> (case b of None \<Rightarrow> Some x | Some y \<Rightarrow> Some (errors_Join (Some x) y)))"

definition loadAndHashPolicies :: "reload_env \<Rightarrow> Config \<Rightarrow> time option \<Rightarrow> loadedPolicies \<times> goerr option" where
  "loadAndHashPolicies env cfg rollbackSeed =
     (let (loaded, created, err) =
            (if \<not> config_Enabled cfg then (no_policies, None, None)
             else
               (case loadPoliciesFromSource env cfg rollbackSeed no_policies of
                  (loaded, Inl e) \<Rightarrow> (loaded, None, Some e)
                | (loaded, Inr created) \<Rightarrow>
                    (case errors_Join2 (rl_validateRuntime env (map snd (lp_policies loaded)))
                            (validation_error (validatePoliciesAgainstConfig (rl_url_Parse env) cfg (map snd (lp_policies loaded)))) of
                       Some e \<Rightarrow> (no_policies, created, Some e)
                     | None \<Rightarrow> (loaded, created, None))))
      in case err of
           Some e \<Rightarrow> (loaded, Some e)
         | None \<Rightarrow>
             (case hashPolicies env (lp_policies loaded) of
                Inl e \<Rightarrow> (no_policies, Some e)
              | Inr hs \<Rightarrow>
                  (loaded\<lparr>lp_hashes := hs,
                          lp_policyFetcher := map_option (SeedNewestCreated created) (lp_policyFetcher loaded)\<rparr>, None)))"

definition handleOCIStartupFailure :: "reload_env \<Rightarrow> Config \<Rightarrow> loadedPolicies \<Rightarrow> goerr \<Rightarrow> goerr + loadedPolicies" where
  "handleOCIStartupFailure env cfg loaded loadErr =
     (if pc_Source (cf_Policy cfg) \<noteq> PolicySourceOCI \<or> \<not> rl_isConnectionError env loadErr then Inl loadErr
      else Inr (no_policies\<lparr>lp_policyFetcher := lp_policyFetcher loaded\<rparr>))"

section \<open>Snapshots\<close>

definition reuseCircuitBreakers :: "snapshot \<Rightarrow> Config \<Rightarrow> Registry option" where
  "reuseCircuitBreakers prev cfg =
     (if sh_breakers (sn_shared prev) \<noteq> None \<and>
         cf_CircuitBreakerThreshold (sn_config prev) = cf_CircuitBreakerThreshold cfg \<and>
         cf_CircuitBreakerCooldown (sn_config prev) = cf_CircuitBreakerCooldown cfg
      then sh_breakers (sn_shared prev)
      else Some (NewRegistry (cf_CircuitBreakerThreshold cfg) (cf_CircuitBreakerCooldown cfg)))"

definition newResultCache :: "Config \<Rightarrow> Cache" where
  "newResultCache cfg = NewWithGauge (cf_CacheTTL cfg) (cf_CacheMaxEntries cfg) (Some 0)"

definition reloadAuditLogger :: "reload_env \<Rightarrow> snapshot \<Rightarrow> Config \<Rightarrow> goerr + nat option" where
  "reloadAuditLogger env prev cfg =
     (if cf_AuditLog (sn_config prev) = cf_AuditLog cfg then Inr (sn_auditLog prev)
      else
        (case rl_openAudit env (cf_AuditLog cfg) of
           Inl e \<Rightarrow> Inl (Errorf_w ''opening audit log'' e)
         | Inr f \<Rightarrow> Inr f))"

definition guac_breaker :: "Config \<Rightarrow> Breaker" where
  "guac_breaker cfg = NewBreaker (cf_CircuitBreakerThreshold cfg) (cf_CircuitBreakerCooldown cfg)"

definition reloadGUACClient :: "reload_env \<Rightarrow> snapshot \<Rightarrow> Config \<Rightarrow> goerr + nat option \<times> Breaker option" where
  "reloadGUACClient env prev cfg =
     (if \<not> guac_Enabled (cf_Guac cfg) then Inr (None, None)
      else if sn_guacClient prev \<noteq> None \<and> \<not> guacTransportChanged (sn_config prev) cfg then
        Inr (sn_guacClient prev, sh_guacBreaker (sn_shared prev))
      else
        (case rl_newGUAC env cfg of
           Inl e \<Rightarrow> Inl (Errorf_w ''creating GUAC client'' e)
         | Inr c \<Rightarrow> Inr (Some c, Some (guac_breaker cfg))))"

text \<open>Closing a GUAC client uses its HTTP client: closing a nil client panics.\<close>

datatype 'a ending = Returned 'a | Failed_with goerr | Panicked

definition reloadExternals :: "reload_env \<Rightarrow> snapshot \<Rightarrow> Config \<Rightarrow> (nat option \<times> Breaker option \<times> nat option) ending" where
  "reloadExternals env prev cfg =
     (case reloadGUACClient env prev cfg of
        Inl e \<Rightarrow> Failed_with (Errorf_w ''reloading GUAC client'' e)
      | Inr (guacClient, guacBreaker) \<Rightarrow>
          (case reloadAuditLogger env prev cfg of
             Inl e \<Rightarrow> if guacClient \<noteq> sn_guacClient prev \<and> guacClient = None then Panicked else Failed_with e
           | Inr auditLog \<Rightarrow> Returned (guacClient, guacBreaker, auditLog)))"

record snapshotInput =
  in_config :: Config
  in_policies :: "(string \<times> Policy) list"
  in_policyHashes :: "(string \<times> string) list"
  in_trust :: trustFingerprint
  in_fetcher :: "nat option"
  in_fetcherBasis :: fetcherBasis

definition policies_changed :: "snapshot \<Rightarrow> snapshotInput \<Rightarrow> bool" where
  "policies_changed prev input =
     (\<not> policyHashesEqual (map_of (sn_policyHashes prev)) (map_of (in_policyHashes input))
         (map fst (sn_policyHashes prev)) (map fst (in_policyHashes input)) \<or>
      sn_trust prev \<noteq> in_trust input)"

definition cache_replaced :: "snapshot \<Rightarrow> snapshotInput \<Rightarrow> bool" where
  "cache_replaced prev input =
     (policies_changed prev input \<or> cacheAffectingFieldsChanged (sn_config prev) (in_config input) \<or>
      in_fetcher input \<noteq> sn_fetcher prev)"

definition buildSnapshot :: "reload_env \<Rightarrow> snapshot \<Rightarrow> snapshotInput \<Rightarrow> Verifier \<Rightarrow> (Verifier \<times> snapshot) ending" where
  "buildSnapshot env prev input v =
     (let cfg = in_config input
      in (case reloadExternals env prev cfg of
            Failed_with e \<Rightarrow> Failed_with e
          | Panicked \<Rightarrow> Panicked
          | Returned (guacClient, guacBreaker, auditLog) \<Rightarrow>
              let v = (if policies_changed prev input then v\<lparr>vf_policyRevision := vf_policyRevision v + 1\<rparr> else v);
                  next_sn = \<lparr>sn_generation = sn_generation prev,
                          sn_policyRevision = (if policies_changed prev input then vf_policyRevision v else sn_policyRevision prev),
                          sn_config = cfg, sn_policies = in_policies input, sn_policyHashes = in_policyHashes input,
                          sn_trust = in_trust input, sn_fetcherBasis = in_fetcherBasis input, sn_cache = sn_cache prev,
                          sn_fetcher = in_fetcher input,
                          sn_shared = \<lparr>sh_breakers = reuseCircuitBreakers prev cfg, sh_guacBreaker = guacBreaker\<rparr>,
                          sn_auditLog = auditLog, sn_allowlistDigests = buildAllowlistMap (cf_AllowlistDigests cfg),
                          sn_guacClient = guacClient\<rparr>
              in if cache_replaced prev input then
                   let v = v\<lparr>vf_generation := vf_generation v + 1\<rparr>
                   in Returned (v, next_sn\<lparr>sn_cache := newResultCache cfg, sn_generation := vf_generation v\<rparr>)
                 else Returned (v, next_sn)))"

definition newSnapshot :: "reload_env \<Rightarrow> snapshotInput \<Rightarrow> Verifier \<Rightarrow> goerr + Verifier \<times> snapshot" where
  "newSnapshot env input v =
     (let cfg = in_config input
      in case rl_openAudit env (cf_AuditLog cfg) of
           Inl e \<Rightarrow> Inl (Errorf_w ''opening audit log'' e)
         | Inr auditLog \<Rightarrow>
             let v = v\<lparr>vf_generation := vf_generation v + 1, vf_policyRevision := vf_policyRevision v + 1\<rparr>;
                 snap = \<lparr>sn_generation = vf_generation v, sn_policyRevision = vf_policyRevision v, sn_config = cfg,
                         sn_policies = in_policies input, sn_policyHashes = in_policyHashes input, sn_trust = in_trust input,
                         sn_fetcherBasis = in_fetcherBasis input, sn_cache = newResultCache cfg, sn_fetcher = in_fetcher input,
                         sn_shared = \<lparr>sh_breakers = Some (NewRegistry (cf_CircuitBreakerThreshold cfg) (cf_CircuitBreakerCooldown cfg)),
                                      sh_guacBreaker = None\<rparr>,
                         sn_auditLog = auditLog, sn_allowlistDigests = buildAllowlistMap (cf_AllowlistDigests cfg),
                         sn_guacClient = None\<rparr>
             in if guac_Enabled (cf_Guac cfg) then
                  (case rl_newGUAC env cfg of
                     Inl e \<Rightarrow> Inl (Errorf_w ''creating GUAC client'' e)
                   | Inr c \<Rightarrow> Inr (v, snap\<lparr>sn_guacClient := Some c,
                                          sn_shared := (sn_shared snap)\<lparr>sh_guacBreaker := Some (guac_breaker cfg)\<rparr>\<rparr>))
                else Inr (v, snap))"

text \<open>Publishing a snapshot: a cache that replaces another one reports its size.\<close>

definition publish :: "snapshot \<Rightarrow> snapshot \<Rightarrow> Verifier \<Rightarrow> Verifier" where
  "publish prev next_sn v =
     v\<lparr>vf_state := (if sn_generation next_sn \<noteq> sn_generation prev then next_sn\<lparr>sn_cache := ReportSize (sn_cache next_sn)\<rparr> else next_sn)\<rparr>"

section \<open>Reload\<close>

definition startPoller :: "reload_env \<Rightarrow> time option option \<Rightarrow> Config \<Rightarrow> string \<Rightarrow> Verifier \<Rightarrow> Verifier" where
  "startPoller env policyFetcher cfg ociDigest v =
     (case policyFetcher of
        None \<Rightarrow> v
      | Some newest \<Rightarrow>
          v\<lparr>vf_poller := Some \<lparr>pp_ociRef = pc_OCIRef (cf_Policy cfg), pp_newestCreated = newest, pp_cachedDigest = ociDigest,
                             pp_lastSuccess = rl_now env, pp_maxStaleness = pc_OCIMaxStaleness (cf_Policy cfg)\<rparr>\<rparr>)"

definition stopPoller :: "Verifier \<Rightarrow> Verifier \<times> policyPoller option" where
  "stopPoller v = (v\<lparr>vf_poller := None\<rparr>, vf_poller v)"

definition resumePoller :: "policyPoller option \<Rightarrow> Verifier \<Rightarrow> Verifier" where
  "resumePoller paused v = (case paused of None \<Rightarrow> v | Some p \<Rightarrow> v\<lparr>vf_poller := Some p\<rparr>)"

definition pollerRollbackSeed :: "policyPoller option \<Rightarrow> string \<Rightarrow> time option" where
  "pollerRollbackSeed current ociRef =
     (case current of None \<Rightarrow> None | Some p \<Rightarrow> if pp_ociRef p \<noteq> ociRef then None else pp_newestCreated p)"

definition prepareFetcher :: "reload_env \<Rightarrow> Config \<Rightarrow> trustFingerprint \<Rightarrow> snapshot \<Rightarrow> goerr + nat option" where
  "prepareFetcher env cfg trust prev =
     (if \<not> config_Enabled cfg then Inr None
      else
        let basis = sn_fetcherBasis prev;
            sigstoreChanged = (SigstoreConfigChanged (cf_Sigstore (fb_config basis)) (cf_Sigstore cfg) \<or>
                               fb_sigstore basis \<noteq> tf_sigstore trust);
            offlineChanged = OfflineConfigChanged (cf_Offline (fb_config basis)) (cf_Offline cfg)
        in if (case sn_fetcher prev of None \<Rightarrow> False
               | Some f \<Rightarrow> \<not> sigstoreChanged \<and> \<not> offlineChanged \<and> \<not> rl_storeChanged env f cfg) then Inr None
           else (case rl_newFetcher env cfg of Inl e \<Rightarrow> Inl e | Inr f \<Rightarrow> Inr (Some f)))"

record reloadPlan =
  rp_loaded :: loadedPolicies
  rp_trust :: trustFingerprint
  rp_newFetcher :: "nat option"

definition prepareReload :: "reload_env \<Rightarrow> Config \<Rightarrow> time option \<Rightarrow> snapshot \<Rightarrow> goerr + reloadPlan" where
  "prepareReload env cfg rollbackSeed prev =
     (case loadAndHashPolicies env cfg rollbackSeed of
        (_, Some e) \<Rightarrow> Inl e
      | (loaded, None) \<Rightarrow>
          (case validation_error (refuseEmptyPolicyReload cfg (map snd (sn_policies prev)) (map snd (lp_policies loaded))) of
             Some e \<Rightarrow> Inl e
           | None \<Rightarrow>
               let trust = computeTrustFingerprint env cfg (map snd (lp_policies loaded))
               in (case prepareFetcher env cfg trust prev of
                     Inl e \<Rightarrow> Inl e
                   | Inr newFetcher \<Rightarrow>
                       (case (if config_Enabled cfg then
                                validation_error (validatePoliciesModes (rl_parse_duration env) (cf_Verification cfg)
                                  (map snd (lp_policies loaded)))
                              else None) of
                          Some e \<Rightarrow> Inl e
                        | None \<Rightarrow> Inr \<lparr>rp_loaded = loaded, rp_trust = trust, rp_newFetcher = newFetcher\<rparr>))))"

definition reloadFetcher :: "snapshot \<Rightarrow> Config \<Rightarrow> nat option \<Rightarrow> nat option" where
  "reloadFetcher prev cfg newFetcher = (if config_Enabled cfg \<and> newFetcher \<noteq> None then newFetcher else sn_fetcher prev)"

definition reloadFetcherBasis :: "snapshot \<Rightarrow> Config \<Rightarrow> trustFingerprint \<Rightarrow> fetcherBasis" where
  "reloadFetcherBasis prev cfg trust =
     (if \<not> config_Enabled cfg then sn_fetcherBasis prev else \<lparr>fb_config = cfg, fb_sigstore = tf_sigstore trust\<rparr>)"

definition finishReload :: "reload_env \<Rightarrow> snapshot \<Rightarrow> reloadPlan \<Rightarrow> Verifier \<Rightarrow> Verifier" where
  "finishReload env next_sn plan v =
     (if pc_Source (cf_Policy (sn_config next_sn)) = PolicySourceOCI then
        startPoller env (lp_policyFetcher (rp_loaded plan)) (sn_config next_sn) (lp_ociDigest (rp_loaded plan)) v
      else v)"

definition verifier_reload :: "reload_env \<Rightarrow> Config \<Rightarrow> Verifier \<Rightarrow> Verifier \<times> unit ending" where
  "verifier_reload env cfg v =
     (let (v, paused) = stopPoller v; current = vf_state v
      in case prepareReload env cfg (pollerRollbackSeed paused (pc_OCIRef (cf_Policy cfg))) current of
           Inl e \<Rightarrow> (resumePoller paused v, Failed_with e)
         | Inr plan \<Rightarrow>
             (case buildSnapshot env current
                     \<lparr>in_config = cfg, in_policies = lp_policies (rp_loaded plan), in_policyHashes = lp_hashes (rp_loaded plan),
                      in_trust = rp_trust plan, in_fetcher = reloadFetcher current cfg (rp_newFetcher plan),
                      in_fetcherBasis = reloadFetcherBasis current cfg (rp_trust plan)\<rparr> v of
                Failed_with e \<Rightarrow> (resumePoller paused v, Failed_with e)
              | Panicked \<Rightarrow> (v, Panicked)
              | Returned (v', next_sn) \<Rightarrow> (finishReload env next_sn plan (publish current next_sn v'), Returned ())))"

definition verifier_Reload :: "reload_env \<Rightarrow> Config \<Rightarrow> Verifier \<Rightarrow> Verifier \<times> unit ending" where
  "verifier_Reload env cfg v = (if vf_stopped v then (v, Failed_with stopped_error) else verifier_reload env cfg v)"

text \<open>The state of a verifier before its first snapshot is stored.\<close>

definition blank_snapshot :: "Config \<Rightarrow> snapshot" where
  "blank_snapshot cfg =
     \<lparr>sn_generation = 0, sn_policyRevision = 0, sn_config = cfg, sn_policies = [], sn_policyHashes = [],
      sn_trust = \<lparr>tf_policy = [], tf_sigstore = []\<rparr>, sn_fetcherBasis = \<lparr>fb_config = cfg, fb_sigstore = []\<rparr>,
      sn_cache = newResultCache cfg, sn_fetcher = None, sn_shared = \<lparr>sh_breakers = None, sh_guacBreaker = None\<rparr>,
      sn_auditLog = None, sn_allowlistDigests = [], sn_guacClient = None\<rparr>"

definition verifier_New :: "reload_env \<Rightarrow> string \<Rightarrow> Config \<Rightarrow> nat option \<Rightarrow> goerr + Verifier" where
  "verifier_New env nodeName cfg fetcher =
     (case (case loadAndHashPolicies env cfg None of
              (loaded, Some e) \<Rightarrow> handleOCIStartupFailure env cfg loaded e
            | (loaded, None) \<Rightarrow> Inr loaded) of
        Inl e \<Rightarrow> Inl e
      | Inr loaded \<Rightarrow>
          (case (if config_Enabled cfg \<and> lp_policies loaded \<noteq> [] then
                   validation_error (validatePoliciesModes (rl_parse_duration env) (cf_Verification cfg) (map snd (lp_policies loaded)))
                 else None) of
             Some e \<Rightarrow> Inl e
           | None \<Rightarrow>
               let trust = computeTrustFingerprint env cfg (map snd (lp_policies loaded));
                   input = \<lparr>in_config = cfg, in_policies = lp_policies loaded, in_policyHashes = lp_hashes loaded, in_trust = trust,
                            in_fetcher = fetcher, in_fetcherBasis = \<lparr>fb_config = cfg, fb_sigstore = tf_sigstore trust\<rparr>\<rparr>
               in (case newSnapshot env input
                          \<lparr>vf_state = blank_snapshot cfg, vf_nodeName = nodeName, vf_generation = 0, vf_policyRevision = 0,
                           vf_flights = \<lparr>fl_active = 0, fl_closed = False\<rparr>, vf_poller = None, vf_flightStarts = Map.empty,
                           vf_stopped = False, vf_audit = []\<rparr> of
                     Inl e \<Rightarrow> Inl e
                   | Inr (v, snap) \<Rightarrow>
                       Inr ((if pc_Source (cf_Policy cfg) = PolicySourceOCI then
                               startPoller env (lp_policyFetcher loaded) cfg (lp_ociDigest loaded)
                             else id) (v\<lparr>vf_state := snap\<rparr>)))))"

section \<open>Policy updates from the registry\<close>

definition validateUpdatedPolicies :: "reload_env \<Rightarrow> Config \<Rightarrow> Policy list \<Rightarrow> goerr option" where
  "validateUpdatedPolicies env cfg pols =
     (case (if config_Enabled cfg then validation_error (validatePoliciesModes (rl_parse_duration env) (cf_Verification cfg) pols) else None) of
        Some e \<Rightarrow> Some (Errorf_w ''validating updated OCI policies'' e)
      | None \<Rightarrow>
          (case rl_validateRuntime env pols of
             Some e \<Rightarrow> Some (Errorf_w ''runtime validation of updated OCI policies'' e)
           | None \<Rightarrow>
               (case validation_error (validatePoliciesAgainstConfig (rl_url_Parse env) cfg pols) of
                  Some e \<Rightarrow> Some (Errorf_w ''validating updated OCI policies against config'' e)
                | None \<Rightarrow> None)))"

definition onPolicyUpdate :: "reload_env \<Rightarrow> (string \<times> Policy) list \<Rightarrow> Verifier \<Rightarrow> Verifier \<times> unit ending" where
  "onPolicyUpdate env policies v =
     (let state = vf_state v
      in if policies = [] then (v, Failed_with (errors_New ''no policies'' []))
         else
           (case hashPolicies env policies of
              Inl e \<Rightarrow> (v, Failed_with (Errorf_w ''hashing updated OCI policies'' e))
            | Inr newHashes \<Rightarrow>
                let trust = computeTrustFingerprint env (sn_config state) (map snd policies)
                in if policyHashesEqual (map_of (sn_policyHashes state)) (map_of newHashes) (map fst (sn_policyHashes state)) (map fst newHashes)
                      \<and> trust = sn_trust state then (v, Returned ())
                   else
                     (case validateUpdatedPolicies env (sn_config state) (map snd policies) of
                        Some e \<Rightarrow> (v, Failed_with e)
                      | None \<Rightarrow>
                          (case buildSnapshot env state
                                  \<lparr>in_config = sn_config state, in_policies = policies, in_policyHashes = newHashes, in_trust = trust,
                                   in_fetcher = sn_fetcher state, in_fetcherBasis = sn_fetcherBasis state\<rparr> v of
                             Failed_with e \<Rightarrow> (v, Failed_with (Errorf_w ''building snapshot for updated OCI policies'' e))
                           | Panicked \<Rightarrow> (v, Panicked)
                           | Returned (v', next_sn) \<Rightarrow> (publish state next_sn v', Returned ())))))"

definition fetchAndApply :: "reload_env \<Rightarrow> policyPoller \<Rightarrow> Verifier \<Rightarrow> Verifier" where
  "fetchAndApply env p v =
     (case FetchFromOCI env (pp_ociRef p) (pp_newestCreated p) of
        Inl _ \<Rightarrow> v
      | Inr artifact \<Rightarrow>
          if oa_Digest artifact = pp_cachedDigest p then v\<lparr>vf_poller := Some (p\<lparr>pp_lastSuccess := rl_now env\<rparr>)\<rparr>
          else
            (case onPolicyUpdate env (oa_Policies artifact) v of
               (v', Returned _) \<Rightarrow>
                 v'\<lparr>vf_poller := Some (p\<lparr>pp_newestCreated := SeedNewestCreated (oa_Created artifact) (pp_newestCreated p),
                                         pp_cachedDigest := oa_Digest artifact, pp_lastSuccess := rl_now env\<rparr>)\<rparr>
             | (v', _) \<Rightarrow> v'))"

definition poll :: "reload_env \<Rightarrow> Verifier \<Rightarrow> Verifier" where
  "poll env v =
     (case vf_poller v of
        None \<Rightarrow> v
      | Some p \<Rightarrow>
          (case rl_checkDigest env (pp_ociRef p) of
             Inl _ \<Rightarrow> v
           | Inr digest \<Rightarrow>
               if digest = pp_cachedDigest p then v\<lparr>vf_poller := Some (p\<lparr>pp_lastSuccess := rl_now env\<rparr>)\<rparr>
               else fetchAndApply env p v))"

section \<open>Sample reloads\<close>

definition collision_free :: "(Policy \<Rightarrow> goerr + string) \<Rightarrow> bool" where
  "collision_free h = ((\<forall>p q s. h p = Inr s \<longrightarrow> h q = Inr s \<longrightarrow> p = q) \<and> (\<forall>p. h p \<noteq> Inr []))"

definition demo_hash :: "Policy \<Rightarrow> goerr + string" where
  "demo_hash p = (if p = sample_vsa_policy then Inr ''5d41'' else Inl (errors_New ''not hashed'' []))"

lemma demo_hash_collision_free: "collision_free demo_hash"
  by (auto simp: collision_free_def demo_hash_def split: if_splits)

definition demo_reload :: reload_env where
  "demo_reload =
     \<lparr>rl_now = 100 * minutes, rl_LoadAll = (\<lambda>_. Inl (errors_New ''no such directory'' [])), rl_newPolicyFetcher = (\<lambda>_. None),
      rl_pull = (\<lambda>_. Inr \<lparr>oa_Policies = [], oa_Digest = ''d2'', oa_Created = Some (50 * minutes)\<rparr>), rl_checkDigest = (\<lambda>_. Inr ''d2''),
      rl_validateRuntime = (\<lambda>_. None), rl_url_Parse = (\<lambda>_. None), rl_parse_duration = (\<lambda>_. None), rl_hash = demo_hash,
      rl_file = (\<lambda>_. ''content''), rl_sha256 = id, rl_newFetcher = (\<lambda>_. Inr 7), rl_storeChanged = (\<lambda>_ _. False),
      rl_openAudit = (\<lambda>_. Inl (errors_New ''permission denied'' [])), rl_newGUAC = (\<lambda>_. Inr 8), rl_isConnectionError = (\<lambda>_. False)\<rparr>"

definition demo_config :: "VerificationMode \<Rightarrow> string \<Rightarrow> Config" where
  "demo_config mode source =
     DefaultConfig\<lparr>cf_Verification := mode, cf_Policy := (cf_Policy DefaultConfig)\<lparr>pc_Source := source, pc_OCIRef := ''reg/policies''\<rparr>\<rparr>"

definition demo_poller :: policyPoller where
  "demo_poller = \<lparr>pp_ociRef = ''reg/policies'', pp_newestCreated = Some (40 * minutes), pp_cachedDigest = ''d1'', pp_lastSuccess = 0, pp_maxStaleness = 0\<rparr>"

lemma demo_config_fields [simp]:
  "cf_Verification (demo_config mode source) = mode" "pc_Source (cf_Policy (demo_config mode source)) = source"
  "pc_OCIRef (cf_Policy (demo_config mode source)) = ''reg/policies''"
  "cf_AuditLog (demo_config mode source) = []" "guac_Enabled (cf_Guac (demo_config mode source)) = False"
  "cf_AuditLog DefaultConfig = []" "config_Enabled (demo_config mode source) = (mode \<noteq> ModeDisabled)"
  by (simp_all add: demo_config_def DefaultConfig_def guac_Enabled_def config_Enabled_def)

lemmas reload_defs = prepareReload_def loadAndHashPolicies_def loadPoliciesFromSource_def
  FetchFromOCI_def checkRollback_def maxCreatedClockSkew_def pollerRollbackSeed_def SeedNewestCreated_def no_policies_def errors_Join2_def validation_error_def
  validatePoliciesAgainstConfig_def anyPolicyEnforcing_def validatePoliciesModes_def refuseEmptyPolicyReload_def prepareFetcher_def Let_def

lemma buildSnapshot_returns:
  "reloadExternals env prev (in_config input) = Returned x \<Longrightarrow> \<exists>w next_sn. buildSnapshot env prev input v = Returned (w, next_sn)"
  by (cases x) (simp add: buildSnapshot_def Let_def)

lemma reload_returns:
  assumes "prepareReload env cfg (pollerRollbackSeed (vf_poller v) (pc_OCIRef (cf_Policy cfg))) (vf_state v) = Inr plan"
    and "reloadExternals env (vf_state v) cfg = Returned x"
  shows "\<exists>v'. verifier_reload env cfg v = (v', Returned ())"
proof -
  let ?in = "\<lparr>in_config = cfg, in_policies = lp_policies (rp_loaded plan), in_policyHashes = lp_hashes (rp_loaded plan),
      in_trust = rp_trust plan, in_fetcher = reloadFetcher (vf_state v) cfg (rp_newFetcher plan),
      in_fetcherBasis = reloadFetcherBasis (vf_state v) cfg (rp_trust plan)\<rparr>"
  obtain w next_sn where "buildSnapshot env (vf_state v) ?in (v\<lparr>vf_poller := None\<rparr>) = Returned (w, next_sn)"
    using buildSnapshot_returns [of env "vf_state v" ?in x "v\<lparr>vf_poller := None\<rparr>"] assms(2) by auto
  then show ?thesis using assms(1) by (simp add: verifier_reload_def stopPoller_def Let_def)
qed

lemma demo_plan:
  assumes "mode = ModeWarn \<or> mode = ModeDisabled" "seed = None \<or> seed = Some (40 * minutes)"
  shows "\<exists>plan. prepareReload demo_reload (demo_config mode PolicySourceOCI) seed (demo_snapshot ModeWarn []) = Inr plan"
  using assms by (elim disjE) (simp_all add: reload_defs demo_reload_def demo_snapshot_def)

lemma demo_reload_returns:
  assumes "mode = ModeWarn \<or> mode = ModeDisabled"
  shows "\<exists>v'. verifier_reload demo_reload (demo_config mode PolicySourceOCI) ((demo_verifier ModeWarn [])\<lparr>vf_poller := Some demo_poller\<rparr>) = (v', Returned ())"
proof -
  let ?v = "(demo_verifier ModeWarn [])\<lparr>vf_poller := Some demo_poller\<rparr>"
  have state: "vf_state ?v = demo_snapshot ModeWarn []" by (simp add: demo_verifier_def)
  have "pollerRollbackSeed (vf_poller ?v) (pc_OCIRef (cf_Policy (demo_config mode PolicySourceOCI))) = Some (40 * minutes)"
    by (simp add: pollerRollbackSeed_def demo_poller_def)
  then obtain plan where plan: "prepareReload demo_reload (demo_config mode PolicySourceOCI)
      (pollerRollbackSeed (vf_poller ?v) (pc_OCIRef (cf_Policy (demo_config mode PolicySourceOCI)))) (vf_state ?v) = Inr plan"
    using demo_plan [OF assms, of "Some (40 * minutes)"] state by auto
  have "reloadExternals demo_reload (vf_state ?v) (demo_config mode PolicySourceOCI) = Returned (None, None, None)"
    unfolding state by (simp add: reloadExternals_def reloadGUACClient_def reloadAuditLogger_def demo_snapshot_def)
  with plan show ?thesis by (rule reload_returns)
qed

section \<open>A reload that fails changes nothing\<close>

lemma resume_stopped: "stopPoller v = (w, paused) \<Longrightarrow> resumePoller paused w = v \<and> vf_state w = vf_state v \<and> w = v\<lparr>vf_poller := None\<rparr>"
  by (auto simp: stopPoller_def resumePoller_def split: option.split)

lemma failed_reload_same:
  assumes "verifier_Reload env cfg v = (v', Failed_with e)"
  shows "v' = v"
proof (cases "vf_stopped v")
  case True
  then show ?thesis using assms by (simp add: verifier_Reload_def)
next
  case False
  obtain w paused where sp: "stopPoller v = (w, paused)" by (rule prod.exhaust)
  then show ?thesis
    using assms False resume_stopped [OF sp]
    by (auto simp: verifier_Reload_def verifier_reload_def Let_def split: sum.splits ending.splits prod.splits)
qed

text \<open>C14: a reload that returns an error leaves the verifier as it was: the snapshot, the counters, the cached results and the running policy
  poller with its rollback guard.\<close>

theorem failed_reload_keeps:
  assumes "verifier_Reload env cfg v = (v', Failed_with e)"
  shows "v' = v"
  using assms by (rule failed_reload_same)

theorem failed_reload_keeps_witness:
  "\<exists>e. verifier_Reload demo_reload (demo_config ModeWarn []) (demo_verifier ModeWarn []) = (demo_verifier ModeWarn [], Failed_with e)"
proof -
  have "\<exists>v' e. verifier_Reload demo_reload (demo_config ModeWarn []) (demo_verifier ModeWarn []) = (v', Failed_with e)"
    by (simp add: verifier_Reload_def verifier_reload_def stopPoller_def reload_defs demo_reload_def demo_verifier_def)
  then obtain v' e where run: "verifier_Reload demo_reload (demo_config ModeWarn []) (demo_verifier ModeWarn []) = (v', Failed_with e)" by blast
  show ?thesis using failed_reload_keeps [OF run] run by blast
qed

section \<open>What a kept result cache was computed with\<close>

lemma same_guac_config:
  assumes "\<not> guacConfigChanged cfg cfg'"
  shows "cf_Guac cfg = cf_Guac cfg'"
  using assms by (auto simp: guacConfigChanged_def guacTransportChanged_def intro: GUACConfig.equality)

lemma startGUACQuery_config:
  assumes "cf_Guac cfg = cf_Guac cfg'"
  shows "startGUACQuery env cfg = startGUACQuery env cfg'"
  by (intro ext) (simp only: startGUACQuery_def fetchGUACData_def applyGUACFallback_def assms)

lemma fetchAttestations_config:
  assumes "cf_FetchTimeout cfg = cf_FetchTimeout cfg'"
  shows "fetchAttestations env fetch cfg = fetchAttestations env fetch cfg'"
  by (intro ext) (simp only: fetchAttestations_def fetchIndexAttestations_def assms)

lemma evaluateFetched_config:
  "fst (evaluateFetched env cfg pol fp req parsed guac fetched) = fst (evaluateFetched env cfg' pol fp req parsed guac fetched)"
  by (simp add: evaluateFetched_def Let_def split: option.split)

text \<open>Configurations that do not differ in what a reload compares evaluate an image alike.\<close>

lemma runChecks_config:
  assumes "\<not> cacheAffectingFieldsChanged cfg cfg'"
  shows "map_option fst (fst (runChecks env cfg pol mode req sh)) = map_option fst (fst (runChecks env cfg' pol mode req sh)) \<and>
    snd (runChecks env cfg pol mode req sh) = snd (runChecks env cfg' pol mode req sh)"
proof -
  have guac: "cf_Guac cfg = cf_Guac cfg'" using assms same_guac_config by (simp add: cacheAffectingFieldsChanged_def)
  have timeout: "cf_FetchTimeout cfg = cf_FetchTimeout cfg'" using assms by (simp add: cacheAffectingFieldsChanged_def cacheTimingsChanged_def)
  have fp: "EffectiveFetchFailurePolicy cfg mode = EffectiveFetchFailurePolicy cfg' mode"
    using assms by (simp add: cacheAffectingFieldsChanged_def fetchFailurePolicyChanged_def EffectiveFetchFailurePolicy_def)
  show ?thesis
    unfolding runChecks_def startGUACQuery_config [OF guac] fetchAttestations_config [OF timeout] fp
    by (simp add: Let_def evaluateFetched_config [of env cfg] split: option.split prod.split)
qed

text \<open>The hashes of a snapshot are those of its policies.\<close>

definition hashed :: "reload_env \<Rightarrow> (string \<times> Policy) list \<Rightarrow> (string \<times> string) list \<Rightarrow> bool" where
  "hashed env pols hs = (hashPolicies env pols = Inr hs \<and> distinct (map fst pols))"

lemma hashPolicies_keys: "hashPolicies env pols = Inr hs \<Longrightarrow> map fst hs = map fst pols"
  by (induction env pols arbitrary: hs rule: hashPolicies.induct) (auto split: sum.splits)

lemma hashPolicies_lookup:
  "hashPolicies env pols = Inr hs \<Longrightarrow>
     (case map_of pols ns of None \<Rightarrow> map_of hs ns = None | Some p \<Rightarrow> \<exists>h. map_of hs ns = Some h \<and> rl_hash env p = Inr h)"
  by (induction env pols arbitrary: hs rule: hashPolicies.induct) (auto split: sum.splits option.splits)

lemma hashes_determine_policies:
  assumes "hashed env pols hs" "hashed env' pols' hs'" "rl_hash env = rl_hash env'" "collision_free (rl_hash env)"
    and "policyHashesEqual (map_of hs) (map_of hs') (map fst hs) (map fst hs')"
  shows "map_of pols = map_of pols'"
proof
  fix ns
  have keys: "map fst hs = map fst pols" "map fst hs' = map fst pols'" "distinct (map fst pols)" "distinct (map fst pols')"
    using assms(1,2) hashPolicies_keys by (auto simp: hashed_def)
  have look: "case map_of pols n of None \<Rightarrow> map_of hs n = None | Some p \<Rightarrow> \<exists>h. map_of hs n = Some h \<and> rl_hash env p = Inr h"
    "case map_of pols' n of None \<Rightarrow> map_of hs' n = None | Some p \<Rightarrow> \<exists>h. map_of hs' n = Some h \<and> rl_hash env p = Inr h" for n
    using hashPolicies_lookup [of env pols hs n] hashPolicies_lookup [of env' pols' hs' n, folded assms(3)] assms(1,2) by (simp_all add: hashed_def)
  have same: "map_of pols n = map_of pols' n" if n: "n \<in> fst ` set pols" for n
  proof -
    obtain p where p: "map_of pols n = Some p" using n by (metis map_of_eq_None_iff not_None_eq)
    then obtain h where h: "map_of hs n = Some h" "rl_hash env p = Inr h" using look(1) [of n] by auto
    have "n \<in> set (map fst hs)" using n keys(1) by simp
    then have "(case map_of hs' n of None \<Rightarrow> [] | Some h \<Rightarrow> h) = h"
      using assms(5) h(1) by (auto simp: policyHashesEqual_def list_all_iff)
    then have "map_of hs' n = Some h" using h(2) assms(4) by (auto simp: collision_free_def split: option.splits)
    then show ?thesis using look(2) [of n] h(2) p assms(4) by (auto simp: collision_free_def split: option.splits)
  qed
  have "fst ` set pols \<subseteq> fst ` set pols'" using same by (metis map_of_eq_None_iff subsetI)
  moreover have "card (fst ` set pols) = card (fst ` set pols')"
    using assms(5) keys distinct_card [of "map fst pols"] distinct_card [of "map fst pols'"] by (auto simp: policyHashesEqual_def)
  ultimately have "fst ` set pols = fst ` set pols'" by (simp add: card_subset_eq)
  then show "map_of pols ns = map_of pols' ns" using same by (metis map_of_eq_None_iff)
qed

lemma buildSnapshot_fields:
  assumes "buildSnapshot env prev input v = Returned (v', next_sn)"
  shows "sn_config next_sn = in_config input \<and> sn_policies next_sn = in_policies input \<and> sn_policyHashes next_sn = in_policyHashes input \<and>
    sn_fetcher next_sn = in_fetcher input \<and> sn_trust next_sn = in_trust input \<and>
    (if cache_replaced prev input
     then sn_cache next_sn = newResultCache (in_config input) \<and> sn_generation next_sn = vf_generation v + 1 \<and> vf_generation v' = vf_generation v + 1
     else sn_cache next_sn = sn_cache prev \<and> sn_generation next_sn = sn_generation prev \<and> vf_generation v' = vf_generation v)"
  using assms by (auto simp: buildSnapshot_def Let_def split: ending.splits if_splits)



section \<open>The rollback guard\<close>

lemma checkRollback_accepts:
  "checkRollback now newest created = None \<Longrightarrow> newest = Some n \<Longrightarrow> \<exists>c. created = Some c \<and> n \<le> c \<and> c \<le> now + maxCreatedClockSkew"
  by (auto simp: checkRollback_def split: option.splits if_splits)

lemma FetchFromOCI_accepts:
  assumes "FetchFromOCI env ref newest = Inr artifact"
  shows "rl_pull env ref = Inr artifact \<and> checkRollback (rl_now env) newest (oa_Created artifact) = None"
  using assms by (auto simp: FetchFromOCI_def split: sum.splits option.splits)

lemma SeedNewestCreated_Some: "SeedNewestCreated (Some c) (Some n) = Some (max n c)"
  by (simp add: SeedNewestCreated_def max_def)

lemma loadAndHashPolicies_oci:
  assumes "loadAndHashPolicies env cfg (Some n) = (loaded, None)" "config_Enabled cfg" "pc_Source (cf_Policy cfg) = PolicySourceOCI"
  shows "\<exists>artifact c. rl_pull env (pc_OCIRef (cf_Policy cfg)) = Inr artifact \<and> oa_Created artifact = Some c \<and> n \<le> c \<and>
    lp_policies loaded = oa_Policies artifact \<and> lp_policyFetcher loaded = Some (Some c) \<and> lp_ociDigest loaded = oa_Digest artifact"
proof -
  from assms obtain artifact where fetched: "FetchFromOCI env (pc_OCIRef (cf_Policy cfg)) (Some n) = Inr artifact"
    and loaded: "lp_policies loaded = oa_Policies artifact" "lp_ociDigest loaded = oa_Digest artifact"
      "lp_policyFetcher loaded = Some (SeedNewestCreated (oa_Created artifact) (Some n))"
    by (auto simp: loadAndHashPolicies_def loadPoliciesFromSource_def no_policies_def Let_def SeedNewestCreated_def [of _ None]
        split: sum.splits option.splits if_splits)
  from FetchFromOCI_accepts [OF fetched] checkRollback_accepts [of "rl_now env" "Some n" "oa_Created artifact" n]
  obtain c where "rl_pull env (pc_OCIRef (cf_Policy cfg)) = Inr artifact" "oa_Created artifact = Some c" "n \<le> c" by auto
  then show ?thesis using loaded by (simp add: SeedNewestCreated_Some max_def)
qed

lemma disabled_loads_nothing:
  assumes "loadAndHashPolicies env cfg seed = (loaded, None)" "\<not> config_Enabled cfg"
  shows "lp_policyFetcher loaded = None"
  using assms by (auto simp: loadAndHashPolicies_def no_policies_def)

lemma reload_returned:
  assumes "verifier_reload env cfg v = (v', Returned ())"
  obtains plan w next_sn where
    "prepareReload env cfg (pollerRollbackSeed (vf_poller v) (pc_OCIRef (cf_Policy cfg))) (vf_state v) = Inr plan"
    "buildSnapshot env (vf_state v)
       \<lparr>in_config = cfg, in_policies = lp_policies (rp_loaded plan), in_policyHashes = lp_hashes (rp_loaded plan),
        in_trust = rp_trust plan, in_fetcher = reloadFetcher (vf_state v) cfg (rp_newFetcher plan),
        in_fetcherBasis = reloadFetcherBasis (vf_state v) cfg (rp_trust plan)\<rparr> (v\<lparr>vf_poller := None\<rparr>) = Returned (w, next_sn)"
    "v' = finishReload env next_sn plan (publish (vf_state v) next_sn w)"
  using assms by (auto simp: verifier_reload_def stopPoller_def Let_def split: sum.splits ending.splits prod.splits)

lemma prepareReload_loaded:
  assumes "prepareReload env cfg seed prev = Inr plan"
  shows "loadAndHashPolicies env cfg seed = (rp_loaded plan, None) \<and>
    (config_Enabled cfg \<longrightarrow> validatePoliciesModes (rl_parse_duration env) (cf_Verification cfg) (map snd (lp_policies (rp_loaded plan))) = [])"
  using assms
  by (auto simp: prepareReload_def Let_def validation_error_def split: prod.splits option.splits sum.splits if_splits)

lemma buildSnapshot_poller: "buildSnapshot env prev input v = Returned (w, next_sn) \<Longrightarrow> vf_poller w = vf_poller v"
  by (auto simp: buildSnapshot_def Let_def split: ending.splits if_splits)

lemma publish_fields [simp]:
  "vf_poller (publish prev next_sn w) = vf_poller w" "sn_policies (vf_state (publish prev next_sn w)) = sn_policies next_sn"
  "sn_config (vf_state (publish prev next_sn w)) = sn_config next_sn"
  by (simp_all add: publish_def)

text \<open>C17: policies cannot be rolled back by replaying an old artifact.  While verification is enabled with the same policy reference, a reload only installs the
  policies of an artifact that is at least as new as every artifact accepted before, and the new poller keeps refusing older ones.\<close>

theorem reload_keeps_rollback_guard:
  assumes "verifier_reload env cfg v = (v', Returned ())" "config_Enabled cfg" "pc_Source (cf_Policy cfg) = PolicySourceOCI"
    and "vf_poller v = Some p" "pp_ociRef p = pc_OCIRef (cf_Policy cfg)" "pp_newestCreated p = Some n"
  shows "\<exists>artifact c p'. rl_pull env (pp_ociRef p) = Inr artifact \<and> oa_Created artifact = Some c \<and> n \<le> c \<and>
    sn_policies (vf_state v') = oa_Policies artifact \<and> vf_poller v' = Some p' \<and> pp_newestCreated p' = Some c \<and> pp_ociRef p' = pp_ociRef p"
proof -
  obtain plan w next_sn where plan: "prepareReload env cfg (Some n) (vf_state v) = Inr plan"
    and build: "buildSnapshot env (vf_state v)
       \<lparr>in_config = cfg, in_policies = lp_policies (rp_loaded plan), in_policyHashes = lp_hashes (rp_loaded plan),
        in_trust = rp_trust plan, in_fetcher = reloadFetcher (vf_state v) cfg (rp_newFetcher plan),
        in_fetcherBasis = reloadFetcherBasis (vf_state v) cfg (rp_trust plan)\<rparr> (v\<lparr>vf_poller := None\<rparr>) = Returned (w, next_sn)"
    and v': "v' = finishReload env next_sn plan (publish (vf_state v) next_sn w)"
    using reload_returned [OF assms(1)] assms(4-6) by (auto simp: pollerRollbackSeed_def)
  obtain artifact c where a: "rl_pull env (pc_OCIRef (cf_Policy cfg)) = Inr artifact" "oa_Created artifact = Some c" "n \<le> c"
    "lp_policies (rp_loaded plan) = oa_Policies artifact" "lp_policyFetcher (rp_loaded plan) = Some (Some c)"
    using loadAndHashPolicies_oci [OF _ assms(2,3)] prepareReload_loaded [OF plan] by blast
  have "sn_config next_sn = cfg" "sn_policies next_sn = oa_Policies artifact" using buildSnapshot_fields [OF build] a(4) by simp_all
  then show ?thesis using a assms(3,5) by (simp add: v' finishReload_def startPoller_def)
qed

theorem reload_keeps_rollback_guard_witness:
  "\<exists>v' p'. verifier_reload demo_reload (demo_config ModeWarn PolicySourceOCI) ((demo_verifier ModeWarn [])\<lparr>vf_poller := Some demo_poller\<rparr>) = (v', Returned ()) \<and>
     vf_poller v' = Some p' \<and> pp_newestCreated p' = Some (50 * minutes)"
proof -
  let ?v = "(demo_verifier ModeWarn [])\<lparr>vf_poller := Some demo_poller\<rparr>"
  obtain v' where run: "verifier_reload demo_reload (demo_config ModeWarn PolicySourceOCI) ?v = (v', Returned ())"
    using demo_reload_returns by blast
  have "\<exists>artifact c p'. rl_pull demo_reload (pp_ociRef demo_poller) = Inr artifact \<and> oa_Created artifact = Some c \<and> 40 * minutes \<le> c \<and>
      sn_policies (vf_state v') = oa_Policies artifact \<and> vf_poller v' = Some p' \<and> pp_newestCreated p' = Some c \<and> pp_ociRef p' = pp_ociRef demo_poller"
    by (rule reload_keeps_rollback_guard [OF run]) (simp_all add: demo_poller_def)
  then show ?thesis using run by (auto simp: demo_reload_def)
qed

text \<open>C18: switching verification off forgets the guard.  After a reload with verification disabled there is no poller, so the next reload with the same policy
  reference accepts an artifact of any age.\<close>

theorem disabled_reload_drops_guard:
  assumes "verifier_reload env cfg v = (v', Returned ())" "\<not> config_Enabled cfg" "c \<le> rl_now env'"
  shows "vf_poller v' = None \<and> checkRollback (rl_now env') (pollerRollbackSeed (vf_poller v') ref) (Some c) = None"
proof -
  have "vf_poller v' = None"
  proof (rule reload_returned [OF assms(1)])
    fix plan w next_sn
    assume plan: "prepareReload env cfg (pollerRollbackSeed (vf_poller v) (pc_OCIRef (cf_Policy cfg))) (vf_state v) = Inr plan"
      and build: "buildSnapshot env (vf_state v)
         \<lparr>in_config = cfg, in_policies = lp_policies (rp_loaded plan), in_policyHashes = lp_hashes (rp_loaded plan),
          in_trust = rp_trust plan, in_fetcher = reloadFetcher (vf_state v) cfg (rp_newFetcher plan),
          in_fetcherBasis = reloadFetcherBasis (vf_state v) cfg (rp_trust plan)\<rparr> (v\<lparr>vf_poller := None\<rparr>) = Returned (w, next_sn)"
      and v': "v' = finishReload env next_sn plan (publish (vf_state v) next_sn w)"
    have "lp_policyFetcher (rp_loaded plan) = None"
      using conjunct1 [OF prepareReload_loaded [OF plan]] assms(2) disabled_loads_nothing by blast
    then show ?thesis using buildSnapshot_poller [OF build] by (simp add: v' finishReload_def startPoller_def)
  qed
  then show ?thesis using assms(3) by (simp add: pollerRollbackSeed_def checkRollback_def maxCreatedClockSkew_def)
qed

theorem disabled_reload_drops_guard_witness:
  "\<exists>v'. verifier_reload demo_reload (demo_config ModeDisabled PolicySourceOCI) ((demo_verifier ModeWarn [])\<lparr>vf_poller := Some demo_poller\<rparr>) = (v', Returned ()) \<and>
     pp_newestCreated demo_poller = Some (40 * minutes) \<and>
     checkRollback (rl_now demo_reload) (pollerRollbackSeed (vf_poller v') ''reg/policies'') (Some (10 * minutes)) = None"
proof -
  let ?v = "(demo_verifier ModeWarn [])\<lparr>vf_poller := Some demo_poller\<rparr>"
  obtain v' where run: "verifier_reload demo_reload (demo_config ModeDisabled PolicySourceOCI) ?v = (v', Returned ())"
    using demo_reload_returns by blast
  have "10 * minutes \<le> rl_now demo_reload" by (simp add: demo_reload_def)
  with disabled_reload_drops_guard [OF run] show ?thesis using run by (auto simp: demo_poller_def)
qed

text \<open>C19: a reload that turns GUAC off and moves the audit log to a file that cannot be opened panics instead of failing: it closes the GUAC client that the new
  configuration does not have.  The snapshot stays, but the policy poller was stopped and is not resumed.\<close>

theorem reload_panics:
  assumes "prepareReload env cfg (pollerRollbackSeed (vf_poller v) (pc_OCIRef (cf_Policy cfg))) (vf_state v) = Inr plan"
    and "\<not> guac_Enabled (cf_Guac cfg)" "sn_guacClient (vf_state v) \<noteq> None"
    and "cf_AuditLog (sn_config (vf_state v)) \<noteq> cf_AuditLog cfg" "rl_openAudit env (cf_AuditLog cfg) = Inl e"
    and "\<not> vf_stopped v"
  shows "verifier_Reload env cfg v = (v\<lparr>vf_poller := None\<rparr>, Panicked)"
proof -
  have "buildSnapshot env (vf_state v) input w = Panicked" if "in_config input = cfg" for input w
    using assms(2-5) that by (auto simp: buildSnapshot_def reloadExternals_def reloadGUACClient_def reloadAuditLogger_def Let_def)
  then show ?thesis using assms(1,6) by (simp add: verifier_Reload_def verifier_reload_def stopPoller_def Let_def)
qed

theorem reload_panics_witness:
  "snd (verifier_Reload demo_reload ((demo_config ModeDisabled [])\<lparr>cf_AuditLog := ''/x''\<rparr>)
     ((demo_verifier ModeWarn [])\<lparr>vf_state := (demo_snapshot ModeWarn [])\<lparr>sn_guacClient := Some 3\<rparr>\<rparr>)) = Panicked"
proof -
  let ?cfg = "(demo_config ModeDisabled [])\<lparr>cf_AuditLog := ''/x''\<rparr>"
  let ?v = "(demo_verifier ModeWarn [])\<lparr>vf_state := (demo_snapshot ModeWarn [])\<lparr>sn_guacClient := Some 3\<rparr>\<rparr>"
  have off: "\<not> config_Enabled ?cfg" "\<not> guac_Enabled (cf_Guac ?cfg)" using demo_config_fields(5,7) [of ModeDisabled "[]"] by (simp_all add: config_Enabled_def)
  have "\<exists>plan. prepareReload demo_reload ?cfg seed (vf_state ?v) = Inr plan" for seed
    using off by (simp add: reload_defs)
  then obtain plan where plan: "prepareReload demo_reload ?cfg (pollerRollbackSeed (vf_poller ?v) (pc_OCIRef (cf_Policy ?cfg))) (vf_state ?v) = Inr plan" by blast
  have "verifier_Reload demo_reload ?cfg ?v = (?v\<lparr>vf_poller := None\<rparr>, Panicked)"
    by (rule reload_panics [OF plan off(2)]) (simp_all add: demo_snapshot_def demo_verifier_def demo_reload_def)
  then show ?thesis by simp
qed

end
