(* ===== verification/Serving.thy ===== *)
theory Serving
  imports Reload
begin

text \<open>
  A verifier at work: any sequence of verifications, invalidations, evictions, reloads and policy updates, with the checks of other requests running
  meanwhile.  The relation \<open>serving\<close> remembers every run of the checks, so that what is admitted from the result cache, or from the
  verification of another request, can be traced to the checks it rests on.
\<close>

section \<open>Runs of the checks\<close>

record check_run =
  ck_env :: check_env
  ck_cfg :: Config
  ck_pol :: Policy
  ck_mode :: VerificationMode
  ck_req :: VerifyRequest
  ck_shared :: shared
  ck_result :: Result

definition checked :: "check_run \<Rightarrow> bool" where
  "checked e =
     (\<exists>ttl sh. runChecks (ck_env e) (ck_cfg e) (ck_pol e) (ck_mode e) (ck_req e) (ck_shared e) = (Some (ck_result e, ttl), sh))"

text \<open>What does not change while a verifier runs: the parsers of references and durations and the hash of policies.\<close>

record world =
  w_parse :: ref_parser
  w_parse_duration :: "string \<Rightarrow> duration option"
  w_hash :: "Policy \<Rightarrow> goerr + string"

definition well_formed_request :: "VerifyRequest \<Rightarrow> bool" where
  "well_formed_request req = (nul_free (rq_Namespace req) \<and> nul_free (rq_ImageRef req) \<and> rq_Digest req \<noteq> [])"

text \<open>A run of the checks answers a request for a digest under a cache key: it was for that digest, for the image and namespace of the key, with the
  policy, rule and mode that the snapshot has for them, and with a configuration that finds the same.\<close>

definition answers :: "world \<Rightarrow> snapshot \<Rightarrow> string \<Rightarrow> string \<Rightarrow> check_run \<Rightarrow> bool" where
  "answers W st d key e =
     (\<exists>pol idx. policyForNamespace (map_of (sn_policies st)) (rq_Namespace (ck_req e)) = Some pol \<and>
        ResolveImagePolicy (w_parse_duration W) (w_parse W) pol (rq_ImageRef (ck_req e)) = (ck_pol e, idx) \<and>
        ck_mode e = EffectiveMode (ck_pol e) (cf_Verification (sn_config st)) \<and>
        \<not> cacheAffectingFieldsChanged (ck_cfg e) (sn_config st) \<and>
        rq_Digest (ck_req e) = d \<and> key = cacheNamespaceKey (rq_Namespace (ck_req e)) (rq_ImageRef (ck_req e)) idx \<and>
        well_formed_request (ck_req e) \<and> checked e)"

definition vouched_by :: "world \<Rightarrow> check_run set \<Rightarrow> snapshot \<Rightarrow> string \<Rightarrow> string \<Rightarrow> Result \<Rightarrow> bool" where
  "vouched_by W H st d key r = (\<exists>e \<in> H. answers W st d key e \<and> ck_result e = r)"

lemma vouched_by_mono: "H \<subseteq> H' \<Longrightarrow> vouched_by W H st d key r \<Longrightarrow> vouched_by W H' st d key r"
  by (auto simp: vouched_by_def)

section \<open>The result cache\<close>

definition genuine :: "(string \<Rightarrow> string \<Rightarrow> Result \<Rightarrow> bool) \<Rightarrow> Cache \<Rightarrow> bool" where
  "genuine P c = (cache_inv c \<and> (\<forall>d key en. c_entries c (d, key) = Some en \<longrightarrow> P d key (e_result en)))"

text \<open>What other goroutines do to the cache: they look up, invalidate, evict, and store results of checks that were run.\<close>

inductive others :: "(string \<Rightarrow> string \<Rightarrow> Result \<Rightarrow> bool) \<Rightarrow> Cache \<Rightarrow> Cache \<Rightarrow> bool" for P where
  others_refl: "others P c c"
| others_get: "others P c c' \<Longrightarrow> others P c (fst (cache_Get d key now id now2 c'))"
| others_set: "others P c c' \<Longrightarrow> P d key r \<Longrightarrow> others P c (fst (SetWithTTLAtEpoch d key r ttl e rnd nowE now c'))"
| others_delete: "others P c c' \<Longrightarrow> valid_order c' d ks \<Longrightarrow> others P c (fst (DeleteAll d ns ks c'))"
| others_evict: "others P c c' \<Longrightarrow> others P c (backgroundEvict now c')"

lemma others_mono: "others P c c' \<Longrightarrow> (\<And>d key r. P d key r \<Longrightarrow> Q d key r) \<Longrightarrow> others Q c c'"
  by (induction rule: others.induct) (auto intro: others.intros)

lemma genuine_mono: "genuine P c \<Longrightarrow> (\<And>d key r. P d key r \<Longrightarrow> Q d key r) \<Longrightarrow> genuine Q c"
  by (auto simp: genuine_def)

lemma genuine_sub:
  assumes "genuine P c" "cache_inv c'" "\<And>k en. c_entries c' k = Some en \<Longrightarrow> c_entries c k = Some en"
  shows "genuine P c'"
  using assms by (auto simp: genuine_def)

lemma genuine_get:
  assumes "genuine P c" "genuine P (between c)" "cache_Get d key now between now2 c = (c', r)"
  shows "genuine P c' \<and> (\<forall>x. r = Some x \<longrightarrow> P d key x)"
proof -
  have "cache_inv c'" using Get_inv [of c between d key now now2] assms by (simp add: genuine_def)
  moreover have "c_entries c' k = Some en \<Longrightarrow> c_entries c k = Some en \<or> c_entries (between c) k = Some en" for k en
    using assms(3) by (auto simp: cache_Get_def Let_def removeLocked_fields split: option.splits if_splits)
  moreover have "r = Some x \<Longrightarrow> \<exists>en. (c_entries c (d, key) = Some en \<or> c_entries (between c) (d, key) = Some en) \<and> e_result en = x" for x
    using assms(3) by (auto simp: cache_Get_def Let_def split: option.splits if_splits)
  ultimately show ?thesis using assms(1,2) unfolding genuine_def by blast
qed

lemma genuine_set:
  assumes "genuine P c" "P d key r"
  shows "genuine P (fst (SetWithTTLAtEpoch d key r ttl e rnd nowE now c))"
proof -
  have inv: "cache_wf None c" "0 < c_maxSize c" "int (cache_Len c) \<le> c_maxSize c" using assms(1) by (auto simp: genuine_def cache_inv_def)
  note R = room_made_wf(4) [OF inv, of "(d, key)" nowE]
  have "P d' key' (e_result en)" if "c_entries (setLocked d key r ttl rnd nowE now c) (d', key') = Some en" for d' key' en
    using that assms R by (auto simp: setLocked_split put_entry_fields genuine_def split: if_splits)
  then have "genuine P (setLocked d key r ttl rnd nowE now c)" using assms(1) setLocked_inv by (auto simp: genuine_def)
  then show ?thesis using assms(1) by (simp add: SetWithTTLAtEpoch_def)
qed

lemma genuine_delete:
  assumes "genuine P c" "valid_order c d ks"
  shows "genuine P (fst (DeleteAll d ns ks c))"
proof -
  obtain c' m where D: "DeleteAll d ns ks c = (c', m)" by (rule prod.exhaust)
  have inv: "cache_inv c" using assms(1) by (simp add: genuine_def)
  have "c_entries c' k = Some en \<Longrightarrow> c_entries c k = Some en" for k en
    using DeleteAll_correct(2) [OF cache_inv_wf [OF inv] assms(2) D] by (simp split: if_splits)
  then show ?thesis using genuine_sub [OF assms(1)] DeleteAll_inv [OF inv assms(2), of ns] D by simp
qed

lemma genuine_evict: "genuine P c \<Longrightarrow> genuine P (backgroundEvict now c)"
proof (rule genuine_sub)
  assume g: "genuine P c"
  then have inv: "cache_inv c" by (simp add: genuine_def)
  show "cache_inv (backgroundEvict now c)" by (rule evict_inv [OF inv])
  show "c_entries (backgroundEvict now c) k = Some en \<Longrightarrow> c_entries c k = Some en" for k en
    using evictExpired_correct [OF cache_inv_wf [OF inv], of now] by (auto simp: backgroundEvict_def split: option.splits if_splits)
qed

lemma genuine_others: "others P c c' \<Longrightarrow> genuine P c \<Longrightarrow> genuine P c'"
proof (induction rule: others.induct)
  case (others_get c c' d key now now2)
  obtain c'' r where get: "cache_Get d key now id now2 c' = (c'', r)" by (rule prod.exhaust)
  have g: "genuine P c'" using others_get by blast
  then show ?case using genuine_get [OF g _ get] get by simp
qed (simp_all add: genuine_set genuine_delete genuine_evict)

section \<open>Verifications and the cache\<close>

lemma runChecks_consistent:
  assumes "runChecks env cfg pol mode req sh = (Some (r, ttl), sh')"
  shows "consistent r"
proof -
  have fetch_error: "consistent (handleFetchError e ref fp)" for e ref fp by (simp add: handleFetchError_def)
  have "consistent (fst (evaluateFetched env cfg pol fp req parsed guac fetched))" for fp parsed guac fetched
    by (auto simp: evaluateFetched_def Let_def fetch_error fetchErrorResult_def runVSAAndParallelChecks_consistent split: option.split)
  moreover have "acquireRegistryAccess env breaker registry host ref fp = (registry', permit, Some r) \<Longrightarrow> consistent r"
    for breaker registry host ref fp registry' permit
    by (auto simp: acquireRegistryAccess_def Let_def fetch_error split: prod.splits option.splits if_splits)
  moreover have "consistent (runChecksWithoutFetcher pol ref)" for ref
    by (simp add: runChecksWithoutFetcher_def Let_def appendVSAWarning_fields)
  moreover have "consistent (emptyDigestResult ref)" for ref by (simp add: emptyDigestResult_def)
  ultimately show ?thesis
    using assms
    by (auto simp: runChecks_def Let_def split: option.splits prod.splits if_splits) (metis fst_conv)+
qed

abbreviation v_cache :: "Verifier \<Rightarrow> Cache" where "v_cache v \<equiv> sn_cache (vf_state v)"

text \<open>The environment of a verification while the others store only what \<open>P\<close> allows.\<close>

definition fair_env :: "(string \<Rightarrow> string \<Rightarrow> Result \<Rightarrow> bool) \<Rightarrow> verify_env \<Rightarrow> bool" where
  "fair_env P env = ((\<forall>c. others P c (vn_between env c)) \<and> (\<forall>c. others P c (vn_during env c)))"

lemma cachedResult_genuine:
  assumes "cachedResult env d key v = (v', r)" "fair_env P env" "genuine P (v_cache v)"
  shows "genuine P (v_cache v') \<and> (\<forall>x. r = Some x \<longrightarrow> P d key x) \<and> sn_shared (vf_state v') = sn_shared (vf_state v)"
proof -
  obtain c r' where get: "cache_Get d key (vn_now env) (vn_between env) (vn_now env) (v_cache v) = (c, r')" by (rule prod.exhaust)
  have "genuine P (vn_between env (v_cache v))" using assms(2,3) genuine_others unfolding fair_env_def by blast
  from genuine_get [OF assms(3) this get] show ?thesis using assms(1) get by (auto simp: cachedResult_def)
qed

lemma cachedResult_flights:
  "snd (cachedResult env d key (v\<lparr>vf_flights := f\<rparr>)) = snd (cachedResult env d key v)"
  by (simp add: cachedResult_def split: prod.split)

lemma runFlight_genuine:
  assumes "runFlight env pol mode req key epoch v = (v', out)" "fair_env P env" "genuine P (v_cache v)"
    and own: "\<And>r ttl sh. \<not> fl_closed (vf_flights v) \<Longrightarrow> snd (cachedResult env (rq_Digest req) key v) = None \<Longrightarrow>
      runChecks (vn_check env) (sn_config (vf_state v)) pol mode req (sn_shared (vf_state v)) = (Some (r, ttl), sh) \<Longrightarrow> P (rq_Digest req) key r"
  shows "genuine P (v_cache v') \<and> (\<forall>r. out = Inr r \<longrightarrow> P (rq_Digest req) key r)"
proof (cases "fl_closed (vf_flights v)")
  case True
  then have "v' = v" "out = Inl stopped_error" using assms(1) by (simp_all add: runFlight_def flight_begin_def)
  then show ?thesis using assms(3) by simp
next
  case opened: False
  let ?f = "(vf_flights v)\<lparr>fl_active := fl_active (vf_flights v) + 1\<rparr>"
  obtain w cached where cr: "cachedResult env (rq_Digest req) key (v\<lparr>vf_flights := ?f\<rparr>) = (w, cached)" by (rule prod.exhaust)
  have gw: "genuine P (v_cache w)" "\<And>x. cached = Some x \<Longrightarrow> P (rq_Digest req) key x" "sn_shared (vf_state w) = sn_shared (vf_state v)"
    using cachedResult_genuine [OF cr assms(2)] assms(3) by simp_all
  have cfg: "sn_config (vf_state w) = sn_config (vf_state v)" using cachedResult_frame [OF cr] by (simp add: same_but_cache_def)
  have during: "genuine P (vn_during env (v_cache w))" using gw(1) assms(2) genuine_others unfolding fair_env_def by blast
  show ?thesis
  proof (cases cached)
    case (Some r)
    then show ?thesis using assms(1) opened gw by (auto simp: runFlight_def flight_begin_def cr Let_def)
  next
    case None
    obtain outcome sh where rc: "runChecksRecovered (vn_check env) (sn_config (vf_state w)) pol mode req (sn_shared (vf_state w)) = (outcome, sh)"
      by (rule prod.exhaust)
    have eq: "runFlight env pol mode req key epoch v =
        (case outcome of
           Inl e \<Rightarrow> (w\<lparr>vf_state := (vf_state w)\<lparr>sn_shared := sh, sn_cache := vn_during env (v_cache w)\<rparr>, vf_flights := flight_end (vf_flights w)\<rparr>, Inl e)
         | Inr (result, ttl) \<Rightarrow>
             if vn_stopCancelled env then
               (w\<lparr>vf_state := (vf_state w)\<lparr>sn_shared := sh, sn_cache := vn_during env (v_cache w)\<rparr>, vf_flights := flight_end (vf_flights w)\<rparr>, Inl stopped_error)
             else (w\<lparr>vf_state := (vf_state w)\<lparr>sn_shared := sh, sn_cache := fst (SetWithTTLAtEpoch (rq_Digest req) key result ttl epoch (vn_rnd env)
                      (vn_now env) (vn_now env) (vn_during env (v_cache w)))\<rparr>, vf_flights := flight_end (vf_flights w)\<rparr>, Inr result))"
      using opened None rc by (simp add: runFlight_def flight_begin_def cr Let_def split: sum.split)
    show ?thesis
    proof (cases outcome)
      case (Inl e)
      then show ?thesis using assms(1) eq during by auto
    next
      case (Inr p)
      obtain r ttl where p: "p = (r, ttl)" by (rule prod.exhaust)
      have "runChecks (vn_check env) (sn_config (vf_state v)) pol mode req (sn_shared (vf_state v)) = (Some (r, ttl), sh)"
        using rc Inr p gw(3) cfg by (auto simp: runChecksRecovered_def split: prod.splits option.splits)
      moreover have "snd (cachedResult env (rq_Digest req) key v) = None"
        using cachedResult_flights [of env "rq_Digest req" key ?f v] cr None by simp
      ultimately have "P (rq_Digest req) key r" using own opened by blast
      then show ?thesis using assms(1) eq Inr p during genuine_set [OF during] by (auto split: if_splits)
    qed
  qed
qed

text \<open>The run of the checks a verification makes itself: none when it finds a result, joins another verification or is turned away.\<close>

definition led_runs :: "verify_env \<Rightarrow> VerifyRequest \<Rightarrow> Policy \<Rightarrow> VerificationMode \<Rightarrow> string \<Rightarrow> Verifier \<Rightarrow> check_run set" where
  "led_runs env req pol mode key v =
     {e. \<not> fl_closed (vf_flights v) \<and> snd (cachedResult env (rq_Digest req) key v) = None \<and>
         ck_env e = vn_check env \<and> ck_cfg e = sn_config (vf_state v) \<and> ck_pol e = pol \<and> ck_mode e = mode \<and> ck_req e = req \<and>
         ck_shared e = sn_shared (vf_state v) \<and> checked e}"

definition own_run :: "world \<Rightarrow> verify_env \<Rightarrow> VerifyRequest \<Rightarrow> Verifier \<Rightarrow> check_run set" where
  "own_run W env req v =
     (case policyForNamespace (map_of (sn_policies (vf_state v))) (rq_Namespace req) of
        None \<Rightarrow> {}
      | Some pol \<Rightarrow>
          (let st = vf_state v;
               (rpol, idx) = ResolveImagePolicy (w_parse_duration W) (w_parse W) pol (rq_ImageRef req);
               mode = EffectiveMode rpol (cf_Verification (sn_config st));
               key = cacheNamespaceKey (rq_Namespace req) (rq_ImageRef req) idx;
               (w, cached) = cachedResult env (rq_Digest req) key v
           in if cached = None \<and> vn_flight env = FlightLed \<and>
                 checkJoinable env (sn_config st) (flightKey (sn_generation st) (cache_Epoch (v_cache w) (rq_Digest req)) (rq_Digest req) key) w = None
              then led_runs env req rpol mode key w else {}))"

text \<open>The environment of a verification: the parsers do not change, the other goroutines store only results of checks that were run, and a verification that
  is joined hands out such a result for the same digest and key.\<close>

definition fair :: "world \<Rightarrow> check_run set \<Rightarrow> verify_env \<Rightarrow> VerifyRequest \<Rightarrow> snapshot \<Rightarrow> bool" where
  "fair W H env req st =
     (vn_parse env = w_parse W \<and> vn_parse_duration env = w_parse_duration W \<and> fair_env (vouched_by W H st) env \<and>
      (\<forall>r pol rpol idx. vn_flight env = FlightShared (Inr r) \<longrightarrow>
         policyForNamespace (map_of (sn_policies st)) (rq_Namespace req) = Some pol \<longrightarrow>
         ResolveImagePolicy (w_parse_duration W) (w_parse W) pol (rq_ImageRef req) = (rpol, idx) \<longrightarrow>
         vouched_by W H st (rq_Digest req) (cacheNamespaceKey (rq_Namespace req) (rq_ImageRef req) idx) r))"

lemma unchanged_config: "\<not> cacheAffectingFieldsChanged cfg cfg"
  by (simp add: cacheAffectingFieldsChanged_def cacheTimingsChanged_def fetchFailurePolicyChanged_def SigstoreConfigChanged_def RegistriesChanged_def
      policySourceChanged_def limitsChanged_def guacConfigChanged_def guacTransportChanged_def OfflineConfigChanged_def list_all2_same)

lemma verifyOnce_genuine:
  assumes "verifyOnce env rpol mode req key w = (v', out)" "fair_env P env" "genuine P (v_cache w)"
    and "\<And>r. vn_flight env = FlightShared (Inr r) \<Longrightarrow> P (rq_Digest req) key r"
    and "\<And>r ttl sh. vn_flight env = FlightLed \<Longrightarrow>
      checkJoinable env (sn_config (vf_state w)) (flightKey (sn_generation (vf_state w)) (cache_Epoch (v_cache w) (rq_Digest req)) (rq_Digest req) key) w = None \<Longrightarrow>
      \<not> fl_closed (vf_flights w) \<Longrightarrow> snd (cachedResult env (rq_Digest req) key w) = None \<Longrightarrow>
      runChecks (vn_check env) (sn_config (vf_state w)) rpol mode req (sn_shared (vf_state w)) = (Some (r, ttl), sh) \<Longrightarrow> P (rq_Digest req) key r"
  shows "genuine P (v_cache v') \<and> (\<forall>r. out = Inr r \<longrightarrow> P (rq_Digest req) key r)"
proof (cases "checkJoinable env (sn_config (vf_state w)) (flightKey (sn_generation (vf_state w)) (cache_Epoch (v_cache w) (rq_Digest req)) (rq_Digest req) key) w")
  case (Some e)
  then show ?thesis using assms(1,3) by (auto simp: verifyOnce_def Let_def)
next
  case joinable: None
  show ?thesis
  proof (cases "vn_flight env")
    case FlightLed
    obtain u res where rf: "runFlight env rpol mode req key (cache_Epoch (v_cache w) (rq_Digest req)) w = (u, res)" by (rule prod.exhaust)
    have "genuine P (v_cache u) \<and> (\<forall>r. res = Inr r \<longrightarrow> P (rq_Digest req) key r)"
      using runFlight_genuine [OF rf assms(2,3)] assms(5) [OF FlightLed joinable] by blast
    then show ?thesis using assms(1) joinable FlightLed rf by (auto simp: verifyOnce_def Let_def handleFlightResult_def split: sum.splits)
  next
    case (FlightShared res)
    then show ?thesis using assms(1,3,4) joinable by (auto simp: verifyOnce_def Let_def handleFlightResult_def split: sum.splits)
  next
    case (FlightInterrupted e)
    then show ?thesis using assms(1,3) joinable by (auto simp: verifyOnce_def Let_def)
  qed
qed

text \<open>What a verification hands out, before the mode is applied, and leaves in the cache rests on checks that were run.\<close>

lemma verifyImage_genuine:
  fixes W H env req v
  defines "P \<equiv> vouched_by W (H \<union> own_run W env req v) (vf_state v)"
  assumes run: "verifyImage env req info pol v = (v', res, err)"
    and fair: "fair W H env req (vf_state v)" and req: "well_formed_request req"
    and gen: "genuine (vouched_by W H (vf_state v)) (v_cache v)"
    and pol: "policyForNamespace (map_of (sn_policies (vf_state v))) (rq_Namespace req) = Some pol"
    and rp: "ResolveImagePolicy (vn_parse_duration env) (vn_parse env) pol (rq_ImageRef req) = (rpol, idx)"
  shows "genuine P (v_cache v') \<and>
    (\<forall>r. err = None \<longrightarrow> res = Some r \<longrightarrow> EffectiveMode rpol (cf_Verification (sn_config (vf_state v))) = ModeEnforce \<longrightarrow>
       (\<exists>r0. P (rq_Digest req) (cacheNamespaceKey (rq_Namespace req) (rq_ImageRef req) idx) r0 \<and> r_Allowed r0 \<and> r_CheckResults r = r_CheckResults r0))"
proof -
  let ?mode = "EffectiveMode rpol (cf_Verification (sn_config (vf_state v)))"
  let ?key = "cacheNamespaceKey (rq_Namespace req) (rq_ImageRef req) idx"
  have sub: "vouched_by W H (vf_state v) d k r \<Longrightarrow> P d k r" for d k r unfolding P_def by (rule vouched_by_mono) auto
  have "others P c c'" if "others (vouched_by W H (vf_state v)) c c'" for c c' using others_mono [OF that] sub by blast
  then have fe: "fair_env P env" using fair by (simp add: fair_def fair_env_def)
  have gP: "genuine P (v_cache v)" using gen sub genuine_mono by blast
  from verifyImage_cases [OF run rp] obtain w outcome w0 cached where
    w: "same_but_cache v w" and cr: "cachedResult env (rq_Digest req) ?key v = (w0, cached)" and
    oc: "(w, outcome) = (case cached of Some r \<Rightarrow> (w0, Inr r) | None \<Rightarrow> verifyOnce env rpol ?mode req ?key w0)" and
    v': "v_cache v' = v_cache w" and
    out: "case outcome of Inl e \<Rightarrow> handleVerifyError ?mode e = (res, err)
       | Inr r \<Rightarrow> \<exists>r'. res = Some r' \<and> applyEnforcement ?mode r (rq_ImageRef req) = (r', err)"
    by (auto simp: add_audit_def)
  note g0 = cachedResult_genuine [OF cr fe gP]
  have w0: "sn_config (vf_state w0) = sn_config (vf_state v)" "sn_generation (vf_state w0) = sn_generation (vf_state v)"
    using cachedResult_frame [OF cr] by (simp_all add: same_but_cache_def)
  have "genuine P (v_cache w) \<and> (\<forall>r. outcome = Inr r \<longrightarrow> P (rq_Digest req) ?key r)"
  proof (cases cached)
    case (Some r)
    then show ?thesis using oc g0 by auto
  next
    case None
    have vo: "verifyOnce env rpol ?mode req ?key w0 = (w, outcome)" using oc None by simp
    have shared: "P (rq_Digest req) ?key r" if "vn_flight env = FlightShared (Inr r)" for r
      using that fair pol rp sub unfolding fair_def by auto
    have own: "P (rq_Digest req) ?key r"
      if "vn_flight env = FlightLed" "checkJoinable env (sn_config (vf_state w0)) (flightKey (sn_generation (vf_state w0))
          (cache_Epoch (v_cache w0) (rq_Digest req)) (rq_Digest req) ?key) w0 = None" "\<not> fl_closed (vf_flights w0)"
        "snd (cachedResult env (rq_Digest req) ?key w0) = None"
        "runChecks (vn_check env) (sn_config (vf_state w0)) rpol ?mode req (sn_shared (vf_state w0)) = (Some (r, ttl), sh)" for r ttl sh
    proof -
      let ?e = "\<lparr>ck_env = vn_check env, ck_cfg = sn_config (vf_state v), ck_pol = rpol, ck_mode = ?mode, ck_req = req,
          ck_shared = sn_shared (vf_state w0), ck_result = r\<rparr>"
      have checked: "checked ?e" using that(5) by (simp add: checked_def w0)
      then have "?e \<in> own_run W env req v" using that fair pol rp cr None by (simp add: own_run_def led_runs_def fair_def w0 Let_def)
      moreover have "answers W (vf_state v) (rq_Digest req) ?key ?e"
        using pol rp fair req checked unchanged_config by (auto simp: answers_def fair_def)
      ultimately show ?thesis by (auto simp: P_def vouched_by_def)
    qed
    show ?thesis
      by (rule verifyOnce_genuine [OF vo fe conjunct1 [OF g0]]) (erule shared, rule own, assumption+)
  qed
  moreover have "\<exists>r0. P (rq_Digest req) ?key r0 \<and> r_Allowed r0 \<and> r_CheckResults r = r_CheckResults r0"
    if "err = None" "res = Some r" "?mode = ModeEnforce" "\<forall>r. outcome = Inr r \<longrightarrow> P (rq_Digest req) ?key r" for r
  proof (cases outcome)
    case (Inl e)
    then show ?thesis using out that(1,3) handleVerifyError_cases [of ?mode e res err] by auto
  next
    case (Inr r0)
    then have "applyEnforcement ?mode r0 (rq_ImageRef req) = (r, None)" using out that by auto
    from applyEnforcement_cases [OF this] show ?thesis using that Inr by auto
  qed
  ultimately show ?thesis using v' by auto
qed

section \<open>A verifier at work\<close>

definition same_world :: "world \<Rightarrow> reload_env \<Rightarrow> bool" where
  "same_world W env =
     (rl_hash env = w_hash W \<and> (\<forall>dir pols. rl_LoadAll env dir = Inr pols \<longrightarrow> distinct (map fst pols)) \<and>
      (\<forall>ref a. rl_pull env ref = Inr a \<longrightarrow> distinct (map fst (oa_Policies a))))"

text \<open>The rule \<open>other_run\<close> records the checks of a request that runs concurrently, and \<open>flight\<close> is a verification that runs on after its caller gave up.\<close>

inductive serving :: "world \<Rightarrow> check_run set \<Rightarrow> Verifier \<Rightarrow> bool" for W where
  start: "verifier_New env nodeName cfg fetcher = Inr v \<Longrightarrow> same_world W env \<Longrightarrow> serving W {} v"
| other_run: "serving W H v \<Longrightarrow> answers W (vf_state v) d key e \<Longrightarrow> serving W (insert e H) v"
| verify: "serving W H v \<Longrightarrow> well_formed_request req \<Longrightarrow> fair W H env req (vf_state v) \<Longrightarrow> verifier_Verify env req v = (v', out) \<Longrightarrow>
    serving W (H \<union> own_run W env req v) v'"
| flight: "serving W H v \<Longrightarrow> well_formed_request req \<Longrightarrow> fair_env (vouched_by W H (vf_state v)) env \<Longrightarrow>
    policyForNamespace (map_of (sn_policies (vf_state v))) (rq_Namespace req) = Some pol \<Longrightarrow>
    ResolveImagePolicy (w_parse_duration W) (w_parse W) pol (rq_ImageRef req) = (rpol, idx) \<Longrightarrow>
    mode = EffectiveMode rpol (cf_Verification (sn_config (vf_state v))) \<Longrightarrow>
    key = cacheNamespaceKey (rq_Namespace req) (rq_ImageRef req) idx \<Longrightarrow>
    runFlight env rpol mode req key epoch v = (v', out) \<Longrightarrow>
    serving W (H \<union> led_runs env req rpol mode key v) v'"
| invalidate: "serving W H v \<Longrightarrow> valid_order (v_cache v) d ks \<Longrightarrow> serving W H (InvalidateCache ks d ns v)"
| evict: "serving W H v \<Longrightarrow> serving W H (v\<lparr>vf_state := (vf_state v)\<lparr>sn_cache := backgroundEvict now (v_cache v)\<rparr>\<rparr>)"
| reload: "serving W H v \<Longrightarrow> same_world W env \<Longrightarrow> verifier_Reload env cfg v = (v', out) \<Longrightarrow> serving W H v'"
| update: "serving W H v \<Longrightarrow> same_world W env \<Longrightarrow> serving W H (poll env v)"

definition served :: "world \<Rightarrow> check_run set \<Rightarrow> Verifier \<Rightarrow> bool" where
  "served W H v =
     (genuine (vouched_by W H (vf_state v)) (v_cache v) \<and>
      (\<exists>env. rl_hash env = w_hash W \<and> hashed env (sn_policies (vf_state v)) (sn_policyHashes (vf_state v))))"

lemma answers_cong:
  "sn_policies st = sn_policies st' \<Longrightarrow> sn_config st = sn_config st' \<Longrightarrow> answers W st = answers W st'"
  by (intro ext) (simp add: answers_def)

lemma vouched_by_cong:
  assumes "sn_policies st = sn_policies st'" "sn_config st = sn_config st'"
  shows "vouched_by W H st = vouched_by W H st'"
  by (intro ext) (simp only: vouched_by_def answers_cong [OF assms])

lemma SigstoreConfig_same:
  "\<not> SigstoreConfigChanged a b \<longleftrightarrow>
     (sg_Roots a \<noteq> []) = (sg_Roots b \<noteq> []) \<and> EffectiveRoots a = EffectiveRoots b \<and> ShouldIncludePublicRoot a = ShouldIncludePublicRoot b"
proof -
  have "(\<lambda>a b. rs_Name a = rs_Name b \<and> rs_TUFMirror a = rs_TUFMirror b \<and> rs_TUFRoot a = rs_TUFRoot b \<and> rs_Issuers a = rs_Issuers b) =
      ((=) :: SigstoreRootSource \<Rightarrow> SigstoreRootSource \<Rightarrow> bool)"
    by (intro ext) (auto intro: SigstoreRootSource.equality)
  then show ?thesis by (simp add: SigstoreConfigChanged_def list.rel_eq)
qed

lemma unchanged_config_trans:
  assumes "\<not> cacheAffectingFieldsChanged a b" "\<not> cacheAffectingFieldsChanged b c"
  shows "\<not> cacheAffectingFieldsChanged a c"
  using assms
  by (simp add: cacheAffectingFieldsChanged_def SigstoreConfig_same cacheTimingsChanged_def fetchFailurePolicyChanged_def RegistriesChanged_def
      policySourceChanged_def limitsChanged_def guacConfigChanged_def guacTransportChanged_def OfflineConfigChanged_def)

lemma answers_kept:
  assumes "answers W st d key e" "map_of (sn_policies st) = map_of (sn_policies st')" "\<not> cacheAffectingFieldsChanged (sn_config st) (sn_config st')"
  shows "answers W st' d key e"
proof -
  have "cf_Verification (sn_config st) = cf_Verification (sn_config st')" using assms(3) by (simp add: cacheAffectingFieldsChanged_def)
  moreover obtain pol idx where "policyForNamespace (map_of (sn_policies st)) (rq_Namespace (ck_req e)) = Some pol"
    "ResolveImagePolicy (w_parse_duration W) (w_parse W) pol (rq_ImageRef (ck_req e)) = (ck_pol e, idx)"
    "ck_mode e = EffectiveMode (ck_pol e) (cf_Verification (sn_config st))" "\<not> cacheAffectingFieldsChanged (ck_cfg e) (sn_config st)"
    "rq_Digest (ck_req e) = d" "key = cacheNamespaceKey (rq_Namespace (ck_req e)) (rq_ImageRef (ck_req e)) idx"
    "well_formed_request (ck_req e)" "checked e"
    using assms(1) unfolding answers_def by blast
  ultimately show ?thesis using assms(2) unchanged_config_trans [OF _ assms(3)] unfolding answers_def by auto
qed

section \<open>Everything cached was checked\<close>

lemma buildSnapshot_served:
  assumes "served W H v" "buildSnapshot env (vf_state v) input u = Returned (v', next_sn)" "collision_free (w_hash W)"
    and "rl_hash env = w_hash W" "hashed env (in_policies input) (in_policyHashes input)"
  shows "genuine (vouched_by W H next_sn) (sn_cache next_sn) \<and> hashed env (sn_policies next_sn) (sn_policyHashes next_sn)"
proof -
  obtain env0 where h0: "rl_hash env0 = w_hash W" "hashed env0 (sn_policies (vf_state v)) (sn_policyHashes (vf_state v))"
    using assms(1) by (auto simp: served_def)
  note F = buildSnapshot_fields [OF assms(2)]
  have "genuine (vouched_by W H next_sn) (sn_cache next_sn)"
  proof (cases "cache_replaced (vf_state v) input")
    case True
    then have "sn_cache next_sn = newResultCache (in_config input)" using F by simp
    then show ?thesis by (simp add: genuine_def newResultCache_def New_inv) (simp add: NewWithGauge_def)
  next
    case False
    have "map_of (sn_policies (vf_state v)) = map_of (sn_policies next_sn)"
      using False F hashes_determine_policies [OF h0(2) assms(5)] h0(1) assms(3,4) by (simp add: cache_replaced_def policies_changed_def)
    moreover have "\<not> cacheAffectingFieldsChanged (sn_config (vf_state v)) (sn_config next_sn)" using False F by (simp add: cache_replaced_def)
    ultimately have "vouched_by W H (vf_state v) d key r \<Longrightarrow> vouched_by W H next_sn d key r" for d key r
      using answers_kept unfolding vouched_by_def by blast
    then show ?thesis using False F assms(1) genuine_mono unfolding served_def by auto
  qed
  then show ?thesis using F assms(5) by simp
qed

lemma loadAndHashPolicies_hashed:
  assumes "loadAndHashPolicies env cfg seed = (loaded, None)" "same_world W env"
  shows "hashed env (lp_policies loaded) (lp_hashes loaded)"
proof -
  have fetched: "distinct (map fst (oa_Policies a))" if "FetchFromOCI env ref newest = Inr a" for ref newest a
    using FetchFromOCI_accepts [OF that] assms(2) by (auto simp: same_world_def)
  have distinct: "distinct (map fst (lp_policies l))" if "loadPoliciesFromSource env cfg seed no_policies = (l, r)" for l r
    using that assms(2) fetched
    by (auto simp: loadPoliciesFromSource_def no_policies_def Let_def same_world_def split: sum.splits option.splits if_splits)
  show ?thesis
    using assms(1) distinct
    by (auto simp: loadAndHashPolicies_def no_policies_def Let_def hashed_def split: sum.splits option.splits if_splits prod.splits)
qed

lemma publish_served:
  assumes "genuine (vouched_by W H next_sn) (sn_cache next_sn) \<and> hashed env (sn_policies next_sn) (sn_policyHashes next_sn)" "rl_hash env = w_hash W"
  shows "served W H (publish prev next_sn w)"
proof -
  have "vf_state (publish prev next_sn w) = next_sn\<lparr>sn_cache := c\<rparr> \<Longrightarrow> vouched_by W H (vf_state (publish prev next_sn w)) = vouched_by W H next_sn" for c
    by (rule vouched_by_cong) simp_all
  then show ?thesis using assms
    by (auto simp: served_def publish_def genuine_def ReportSize_def)
qed

lemma served_state: "vf_state v' = vf_state v \<Longrightarrow> served W H v \<Longrightarrow> served W H v'"
  by (simp add: served_def)

lemma reload_served:
  assumes "served W H v" "verifier_Reload env cfg v = (v', out)" "same_world W env" "collision_free (w_hash W)"
  shows "served W H v'"
proof (cases out)
  case (Failed_with e)
  then show ?thesis using failed_reload_same assms(1,2) by metis
next
  case Panicked
  then have "vf_state v' = vf_state v"
    using assms(2) by (auto simp: verifier_Reload_def verifier_reload_def stopPoller_def Let_def split: if_splits sum.splits ending.splits prod.splits)
  then show ?thesis using assms(1) served_state by blast
next
  case (Returned u)
  then have "verifier_reload env cfg v = (v', Returned ())" using assms(2) by (auto simp: verifier_Reload_def split: if_splits)
  then show ?thesis
  proof (rule reload_returned)
    fix plan w next_sn
    assume plan: "prepareReload env cfg (pollerRollbackSeed (vf_poller v) (pc_OCIRef (cf_Policy cfg))) (vf_state v) = Inr plan"
      and build: "buildSnapshot env (vf_state v)
         \<lparr>in_config = cfg, in_policies = lp_policies (rp_loaded plan), in_policyHashes = lp_hashes (rp_loaded plan),
          in_trust = rp_trust plan, in_fetcher = reloadFetcher (vf_state v) cfg (rp_newFetcher plan),
          in_fetcherBasis = reloadFetcherBasis (vf_state v) cfg (rp_trust plan)\<rparr> (v\<lparr>vf_poller := None\<rparr>) = Returned (w, next_sn)"
      and v': "v' = finishReload env next_sn plan (publish (vf_state v) next_sn w)"
    have hash: "rl_hash env = w_hash W" using assms(3) by (simp add: same_world_def)
    have "hashed env (lp_policies (rp_loaded plan)) (lp_hashes (rp_loaded plan))"
      using loadAndHashPolicies_hashed [OF conjunct1 [OF prepareReload_loaded [OF plan]] assms(3)] .
    then have "served W H (publish (vf_state v) next_sn w)"
      using publish_served [OF buildSnapshot_served [OF assms(1) build assms(4) hash] hash] by simp
    moreover have "vf_state v' = vf_state (publish (vf_state v) next_sn w)"
      by (simp add: v' finishReload_def startPoller_def split: option.split)
    ultimately show ?thesis using served_state by blast
  qed
qed

lemma onPolicyUpdate_served:
  assumes "served W H v" "onPolicyUpdate env pols v = (v', out)" "distinct (map fst pols)" "rl_hash env = w_hash W" "collision_free (w_hash W)"
  shows "served W H v'"
proof (cases "out = Returned () \<and> v' \<noteq> v")
  case False
  then show ?thesis using assms(1,2)
    by (auto simp: onPolicyUpdate_def Let_def split: if_splits sum.splits option.splits ending.splits prod.splits)
next
  case True
  then obtain hs w next_sn where h: "hashPolicies env pols = Inr hs"
    and build: "buildSnapshot env (vf_state v)
        \<lparr>in_config = sn_config (vf_state v), in_policies = pols, in_policyHashes = hs,
         in_trust = computeTrustFingerprint env (sn_config (vf_state v)) (map snd pols),
         in_fetcher = sn_fetcher (vf_state v), in_fetcherBasis = sn_fetcherBasis (vf_state v)\<rparr> v = Returned (w, next_sn)"
    and v': "v' = publish (vf_state v) next_sn w"
    using assms(2) by (auto simp: onPolicyUpdate_def Let_def split: if_splits sum.splits option.splits ending.splits prod.splits)
  have "hashed env pols hs" using h assms(3) by (simp add: hashed_def)
  then show ?thesis
    using publish_served [OF buildSnapshot_served [OF assms(1) build assms(5,4)] assms(4)] by (simp add: v')
qed

lemma poll_served:
  assumes "served W H v" "same_world W env" "collision_free (w_hash W)"
  shows "served W H (poll env v)"
proof -
  have hash: "rl_hash env = w_hash W" using assms(2) by (simp add: same_world_def)
  have touch: "served W H (u\<lparr>vf_poller := p\<rparr>)" if "served W H u" for u p using served_state [OF _ that] by simp
  have "served W H (fetchAndApply env p v)" for p
  proof (cases "FetchFromOCI env (pp_ociRef p) (pp_newestCreated p)")
    case (Inl e)
    then show ?thesis using assms(1) by (simp add: fetchAndApply_def)
  next
    case (Inr a)
    have "distinct (map fst (oa_Policies a))" using FetchFromOCI_accepts [OF Inr] assms(2) by (auto simp: same_world_def)
    note upd = onPolicyUpdate_served [OF assms(1) _ this hash assms(3)]
    obtain v' out where u: "onPolicyUpdate env (oa_Policies a) v = (v', out)" by (rule prod.exhaust)
    show ?thesis using Inr u upd [OF u] touch assms(1) by (cases out) (simp_all add: fetchAndApply_def)
  qed
  then show ?thesis using assms(1) touch by (simp add: poll_def split: option.split sum.split)
qed

lemma new_served:
  assumes "verifier_New env nodeName cfg fetcher = Inr v" "same_world W env"
  shows "served W H v"
proof -
  have hash: "rl_hash env = w_hash W" using assms(2) by (simp add: same_world_def)
  have empty: "genuine P (newResultCache c)" for P c by (simp add: genuine_def newResultCache_def New_inv) (simp add: NewWithGauge_def)
  have snap: "sn_cache sn = newResultCache (in_config input) \<and> sn_policies sn = in_policies input \<and> sn_policyHashes sn = in_policyHashes input"
    if "newSnapshot env input u = Inr (w, sn)" for input u w sn
    using that by (auto simp: newSnapshot_def Let_def split: sum.splits if_splits)
  have nothing: "hashed env [] []" by (simp add: hashed_def)
  define loading where "loading = (case loadAndHashPolicies env cfg None of (loaded, Some e) \<Rightarrow> handleOCIStartupFailure env cfg loaded e | (loaded, None) \<Rightarrow> Inr loaded)"
  obtain loaded where loaded: "loading = Inr loaded"
    using assms(1) unfolding verifier_New_def loading_def [symmetric] by (cases loading) simp_all
  have hashes: "hashed env (lp_policies loaded) (lp_hashes loaded)"
    using loaded loadAndHashPolicies_hashed [OF _ assms(2)] nothing
    by (auto simp: loading_def handleOCIStartupFailure_def no_policies_def split: prod.splits option.splits if_splits)
      (simp add: hashed_def)
  obtain u w sn trust where build: "newSnapshot env \<lparr>in_config = cfg, in_policies = lp_policies loaded, in_policyHashes = lp_hashes loaded, in_trust = trust,
      in_fetcher = fetcher, in_fetcherBasis = \<lparr>fb_config = cfg, fb_sigstore = tf_sigstore trust\<rparr>\<rparr> u = Inr (w, sn)" and state: "vf_state v = sn"
    using assms(1) unfolding verifier_New_def loading_def [symmetric] loaded
    by (auto simp: Let_def startPoller_def split: option.splits sum.splits if_splits)
  show ?thesis using snap [OF build] hashes hash empty unfolding served_def state by auto
qed

lemma audit_state [simp]: "vf_state (add_audit es v) = vf_state v"
  by (simp add: add_audit_def)

lemma verify_served:
  assumes "served W H v" "well_formed_request req" "fair W H env req (vf_state v)" "verifier_Verify env req v = (v', out)"
  shows "served W (H \<union> own_run W env req v) v'"
proof -
  let ?H = "H \<union> own_run W env req v"
  have grown: "served W ?H v"
    using assms(1) genuine_mono [OF _ vouched_by_mono [of H ?H]] unfolding served_def by (meson Un_upper1)
  show ?thesis
  proof (cases rule: Verify_cases [of env req v])
    case (skipped info mode reason)
    then have "vf_state v' = vf_state v" using assms(4) by (auto simp: skip_def)
    then show ?thesis using grown served_state by blast
  next
    case (no_policy info r err)
    then have "vf_state v' = vf_state v" using assms(4) by (auto simp: audited_def)
    then show ?thesis using grown served_state by blast
  next
    case no_digest
    then show ?thesis using assms(4) grown by simp
  next
    case (image info pol)
    obtain res err where out: "out = (res, err)" by (rule prod.exhaust)
    have run: "verifyImage env req info pol v = (v', res, err)" using image(3) assms(4) out by simp
    obtain rpol idx where rp: "ResolveImagePolicy (vn_parse_duration env) (vn_parse env) pol (rq_ImageRef req) = (rpol, idx)" by (rule prod.exhaust)
    have gen: "genuine (vouched_by W H (vf_state v)) (v_cache v)" using assms(1) by (simp add: served_def)
    have g: "genuine (vouched_by W ?H (vf_state v)) (v_cache v')"
      using verifyImage_genuine [OF run assms(3,2) gen image(1) rp] by blast
    obtain w where "same_but_cache v w" "vf_state v' = vf_state w" using verifyImage_cases [OF run rp] by (auto simp: add_audit_def)
    then have same: "sn_policies (vf_state v') = sn_policies (vf_state v)" "sn_config (vf_state v') = sn_config (vf_state v)"
      "sn_policyHashes (vf_state v') = sn_policyHashes (vf_state v)" by (simp_all add: same_but_cache_def)
    show ?thesis using g grown same vouched_by_cong [OF same(1,2)] by (simp add: served_def)
  qed
qed

lemma flight_served:
  assumes "served W H v" "well_formed_request req" "fair_env (vouched_by W H (vf_state v)) env"
    and "policyForNamespace (map_of (sn_policies (vf_state v))) (rq_Namespace req) = Some pol"
    and "ResolveImagePolicy (w_parse_duration W) (w_parse W) pol (rq_ImageRef req) = (rpol, idx)"
    and "mode = EffectiveMode rpol (cf_Verification (sn_config (vf_state v)))"
    and "key = cacheNamespaceKey (rq_Namespace req) (rq_ImageRef req) idx" "runFlight env rpol mode req key epoch v = (v', out)"
  shows "served W (H \<union> led_runs env req rpol mode key v) v'"
proof -
  let ?H = "H \<union> led_runs env req rpol mode key v"
  let ?P = "vouched_by W ?H (vf_state v)"
  have sub: "vouched_by W H (vf_state v) d k r \<Longrightarrow> ?P d k r" for d k r by (rule vouched_by_mono) auto
  have "others ?P c c'" if "others (vouched_by W H (vf_state v)) c c'" for c c' using others_mono [OF that] sub by blast
  then have fe: "fair_env ?P env" using assms(3) by (simp add: fair_env_def)
  have gP: "genuine ?P (v_cache v)" using assms(1) sub genuine_mono unfolding served_def by blast
  have own: "?P (rq_Digest req) key r"
    if "\<not> fl_closed (vf_flights v)" "snd (cachedResult env (rq_Digest req) key v) = None"
      "runChecks (vn_check env) (sn_config (vf_state v)) rpol mode req (sn_shared (vf_state v)) = (Some (r, ttl), sh)" for r ttl sh
  proof -
    let ?e = "\<lparr>ck_env = vn_check env, ck_cfg = sn_config (vf_state v), ck_pol = rpol, ck_mode = mode, ck_req = req,
        ck_shared = sn_shared (vf_state v), ck_result = r\<rparr>"
    have checked: "checked ?e" using that(3) by (simp add: checked_def)
    then have "?e \<in> led_runs env req rpol mode key v" using that by (simp add: led_runs_def)
    moreover have "answers W (vf_state v) (rq_Digest req) key ?e"
      using assms(2,4-7) checked unchanged_config by (auto simp: answers_def)
    ultimately show ?thesis by (auto simp: vouched_by_def)
  qed
  have g: "genuine ?P (v_cache v')" using runFlight_genuine [OF assms(8) fe gP] own by blast
  have same: "sn_policies (vf_state v') = sn_policies (vf_state v)" "sn_config (vf_state v') = sn_config (vf_state v)"
    "sn_policyHashes (vf_state v') = sn_policyHashes (vf_state v)" using runFlight_frame [OF assms(8)] by (simp_all add: same_but_cache_def)
  show ?thesis using g assms(1) same vouched_by_cong [OF same(1,2)] by (simp add: served_def)
qed

lemma cache_step_served:
  assumes "served W H v" "genuine (vouched_by W H (vf_state v)) c"
  shows "served W H (v\<lparr>vf_state := (vf_state v)\<lparr>sn_cache := c\<rparr>\<rparr>)"
proof -
  have "vouched_by W H ((vf_state v)\<lparr>sn_cache := c\<rparr>) = vouched_by W H (vf_state v)" by (rule vouched_by_cong) simp_all
  then show ?thesis using assms by (simp add: served_def)
qed

lemma serving_served: "serving W H v \<Longrightarrow> collision_free (w_hash W) \<Longrightarrow> served W H v"
proof (induction rule: serving.induct)
  case (other_run H v d key e)
  then show ?case using genuine_mono [OF _ vouched_by_mono [of H "insert e H"]] unfolding served_def by (meson subset_insertI)
next
  case (verify H v req env v' out)
  then show ?case using verify_served by blast
next
  case (flight H v req env pol rpol idx mode key epoch v' out)
  then show ?case using flight_served by blast
next
  case (invalidate H v d ks ns)
  then have "genuine (vouched_by W H (vf_state v)) (fst (DeleteAll d ns ks (v_cache v)))" by (intro genuine_delete) (simp_all add: served_def)
  then show ?case using cache_step_served invalidate by (simp add: InvalidateCache_def)
next
  case (evict H v now)
  then show ?case using cache_step_served genuine_evict by (simp add: served_def)
next
  case (reload H v env cfg v' out)
  then show ?case using reload_served by blast
qed (auto intro: new_served poll_served)

text \<open>An image admitted in enforce mode was checked.\<close>

lemma enforced_admission_run:
  assumes "serving W H v" "collision_free (w_hash W)" "well_formed_request req" "fair W H env req (vf_state v)"
    and "verifier_Verify env req v = (v', Some r, None)" "mode_in_effect env req (vf_state v) = ModeEnforce"
    and "config_Enabled (sn_config (vf_state v))" "\<not> allowlisted (vf_state v) req"
    and "\<And>pol. policyForNamespace (map_of (sn_policies (vf_state v))) (rq_Namespace req) = Some pol \<Longrightarrow>
      isIncluded (vn_parse env) (items (pl_Include pol)) (rq_ImageRef req) \<and> \<not> isExcluded (vn_parse env) (items (pl_Exclude pol)) (rq_ImageRef req)"
  shows "\<exists>e \<in> H \<union> own_run W env req v. \<exists>key.
    answers W (vf_state v) (rq_Digest req) key e \<and> ck_mode e = ModeEnforce \<and>
    rq_ImageRef (ck_req e) = rq_ImageRef req \<and> rq_Namespace (ck_req e) = rq_Namespace req \<and>
    r_Allowed (ck_result e) \<and> (\<forall>c \<in> set (r_CheckResults (ck_result e)). cr_Passed c) \<and> r_CheckResults r = r_CheckResults (ck_result e)"
proof (cases rule: Verify_cases [of env req v])
  case (skipped info mode reason)
  then show ?thesis using assms(7-9) by blast
next
  case (no_policy info r' err)
  then have "err = None" "r' = r" using assms(5) by (simp_all add: audited_def)
  then show ?thesis
    using applyEnforcement_cases [OF no_policy(2) [unfolded handleMissingPolicy_def]] assms(6) no_policy(1) by (simp add: mode_in_effect_def)
next
  case no_digest
  then show ?thesis using assms(3) by (simp add: well_formed_request_def)
next
  case (image info pol)
  have run: "verifyImage env req info pol v = (v', Some r, None)" using image(3) assms(5) by simp
  obtain rpol idx where rp: "ResolveImagePolicy (vn_parse_duration env) (vn_parse env) pol (rq_ImageRef req) = (rpol, idx)" by (rule prod.exhaust)
  let ?key = "cacheNamespaceKey (rq_Namespace req) (rq_ImageRef req) idx"
  have gen: "genuine (vouched_by W H (vf_state v)) (v_cache v)" using serving_served [OF assms(1,2)] by (simp add: served_def)
  have mode: "EffectiveMode rpol (cf_Verification (sn_config (vf_state v))) = ModeEnforce"
    using assms(6) by (simp add: mode_in_effect_def image(1) rp)
  obtain e where e: "e \<in> H \<union> own_run W env req v" "answers W (vf_state v) (rq_Digest req) ?key e" "r_Allowed (ck_result e)"
      "r_CheckResults r = r_CheckResults (ck_result e)"
    using verifyImage_genuine [OF run assms(4,3) gen image(1) rp] mode unfolding vouched_by_def by blast
  from e(2) obtain pol' idx' where a: "policyForNamespace (map_of (sn_policies (vf_state v))) (rq_Namespace (ck_req e)) = Some pol'"
      "ResolveImagePolicy (w_parse_duration W) (w_parse W) pol' (rq_ImageRef (ck_req e)) = (ck_pol e, idx')"
      "ck_mode e = EffectiveMode (ck_pol e) (cf_Verification (sn_config (vf_state v)))"
      "?key = cacheNamespaceKey (rq_Namespace (ck_req e)) (rq_ImageRef (ck_req e)) idx'" "well_formed_request (ck_req e)" "checked e"
    unfolding answers_def by blast
  have same: "rq_Namespace (ck_req e) = rq_Namespace req" "rq_ImageRef (ck_req e) = rq_ImageRef req"
    using cacheNamespaceKey_inject [OF a(4)] a(5) assms(3) by (simp_all add: well_formed_request_def)
  have "ck_pol e = rpol" using a(1,2) same image(1) rp assms(4) by (simp add: fair_def)
  then have "ck_mode e = ModeEnforce" using a(3) mode by simp
  moreover have "consistent (ck_result e)" using a(6) runChecks_consistent unfolding checked_def by blast
  ultimately show ?thesis using e same by (auto simp: consistent_def)
qed


section \<open>A sample run\<close>

definition demo_world :: world where
  "demo_world = \<lparr>w_parse = ve_parse sample_vsa_env, w_parse_duration = (\<lambda>_. None), w_hash = demo_hash\<rparr>"

definition demo_start :: reload_env where
  "demo_start = demo_reload\<lparr>rl_LoadAll := \<lambda>_. Inr [([], sample_vsa_policy)], rl_openAudit := \<lambda>_. Inr None\<rparr>"

lemma demo_start_fields [simp]:
  "rl_LoadAll demo_start = (\<lambda>_. Inr [([], sample_vsa_policy)])" "rl_openAudit demo_start = (\<lambda>_. Inr None)" "rl_hash demo_start = demo_hash"
  "rl_validateRuntime demo_start = (\<lambda>_. None)" "rl_parse_duration demo_start = (\<lambda>_. None)" "demo_hash sample_vsa_policy = Inr ''5d41''"
  by (simp_all add: demo_start_def demo_reload_def demo_hash_def)

lemma demo_started:
  "\<exists>v. verifier_New demo_start ''node'' (demo_config ModeEnforce []) None = Inr v \<and> sn_policies (vf_state v) = [([], sample_vsa_policy)] \<and>
     sn_config (vf_state v) = demo_config ModeEnforce [] \<and> v_cache v = newResultCache (demo_config ModeEnforce []) \<and>
     vf_flights v = \<lparr>fl_active = 0, fl_closed = False\<rparr> \<and> sn_allowlistDigests (vf_state v) = []"
proof -
  have modes: "validatePoliciesModes (\<lambda>_. None) ModeEnforce [sample_vsa_policy] = []" by code_simp
  have agree: "validatePoliciesAgainstConfig (rl_url_Parse demo_start) (demo_config ModeEnforce []) [sample_vsa_policy] = []"
    by (simp add: validatePoliciesAgainstConfig_def demo_config_def DefaultConfig_def IssuersWithoutSANPatterns_def CleartextEndpoint_def
        guac_Enabled_def)
  have allow: "buildAllowlistMap (cf_AllowlistDigests (demo_config ModeEnforce [])) = []"
    by (simp add: buildAllowlistMap_def demo_config_def DefaultConfig_def)
  show ?thesis
    by (simp add: verifier_New_def loadAndHashPolicies_def loadPoliciesFromSource_def errors_Join2_def validation_error_def agree modes allow
        no_policies_def newSnapshot_def Let_def)
qed

lemma demo_admission:
  obtains v v' r where "verifier_New demo_start ''node'' (demo_config ModeEnforce []) None = Inr v" "serving demo_world {} v"
    "fair demo_world {} demo_env sample_request (vf_state v)" "sn_policies (vf_state v) = [([], sample_vsa_policy)]"
    "config_Enabled (sn_config (vf_state v))" "\<not> allowlisted (vf_state v) sample_request"
    "mode_in_effect demo_env sample_request (vf_state v) = ModeEnforce"
    "verifier_Verify demo_env sample_request v = (v', Some r, None)" "r_CheckResults r \<noteq> []"
proof -
  obtain v where new: "verifier_New demo_start ''node'' (demo_config ModeEnforce []) None = Inr v"
    and v: "sn_policies (vf_state v) = [([], sample_vsa_policy)]" "sn_config (vf_state v) = demo_config ModeEnforce []"
      "v_cache v = newResultCache (demo_config ModeEnforce [])" "vf_flights v = \<lparr>fl_active = 0, fl_closed = False\<rparr>"
      "sn_allowlistDigests (vf_state v) = []"
    using demo_started by blast
  have same: "same_world demo_world demo_start" by (simp add: same_world_def demo_world_def) (simp add: demo_start_def demo_reload_def)
  have serving: "serving demo_world {} v" using serving.start [OF new same] .
  have fair: "fair demo_world {} demo_env sample_request (vf_state v)"
    by (simp add: fair_def fair_env_def demo_env_def demo_world_def others_refl) (simp add: sample_env_def)
  have pol: "policyForNamespace (map_of (sn_policies (vf_state v))) (rq_Namespace sample_request) = Some sample_vsa_policy"
    by (simp add: v policyForNamespace_def)
  have scope: "isIncluded (vn_parse demo_env) (items (pl_Include sample_vsa_policy)) (rq_ImageRef sample_request)"
    "\<not> isExcluded (vn_parse demo_env) (items (pl_Exclude sample_vsa_policy)) (rq_ImageRef sample_request)" by code_simp+
  have wf: "well_formed_request sample_request" by code_simp
  have rules: "items (pl_Rules sample_vsa_policy) = []" by code_simp
  have rp: "ResolveImagePolicy (vn_parse_duration demo_env) (vn_parse demo_env) sample_vsa_policy (rq_ImageRef sample_request) = (sample_vsa_policy, - 1)"
    using rules by (simp add: ResolveImagePolicy_def)
  have mode: "EffectiveMode sample_vsa_policy ModeEnforce = ModeEnforce" by code_simp
  have enabled: "config_Enabled (sn_config (vf_state v))" "\<not> allowlisted (vf_state v) sample_request"
    by (simp_all add: v allowlisted_def config_Enabled_def)
  let ?r = "runChecksWithoutFetcher sample_vsa_policy (rq_ImageRef sample_request)"
  have allowed: "r_Allowed ?r" "r_CheckResults ?r \<noteq> []" by code_simp+
  have checks: "runChecks (vn_check demo_env) cfg sample_vsa_policy ModeEnforce sample_request sh = (Some (?r, resultCacheTTL cfg ?r), sh)" for cfg sh
    by (simp add: runChecks_def demo_env_def sample_env_def Let_def)
  have miss: "cachedResult demo_env d key u = (u, None)" if "v_cache u = newResultCache (demo_config ModeEnforce [])" for d key u
    using that by (simp add: cachedResult_def cache_Get_def newResultCache_def NewWithGauge_def)
  have join: "checkJoinable demo_env cfg key u = None" for cfg key u by (simp add: checkJoinable_def demo_env_def Let_def)
  have led: "vn_flight demo_env = FlightLed" "vn_stopCancelled demo_env = False" by (simp_all add: demo_env_def)
  have "\<exists>w. verifyOnce demo_env sample_vsa_policy ModeEnforce sample_request key v = (w, Inr ?r)" for key
    by (simp add: verifyOnce_def Let_def join led runFlight_def flight_begin_def v(4) miss v(3) runChecksRecovered_def checks handleFlightResult_def)
  then obtain w where once: "verifyOnce demo_env sample_vsa_policy ModeEnforce sample_request
      (cacheNamespaceKey (rq_Namespace sample_request) (rq_ImageRef sample_request) (- 1)) v = (w, Inr ?r)" by blast
  have "\<exists>r. snd (verifyImage demo_env sample_request info sample_vsa_policy v) = (Some r, None) \<and> r_CheckResults r = r_CheckResults ?r" for info
    using allowed(1) by (simp add: verifyImage_def rp v(2) mode miss [OF v(3)] once audited_def applyEnforcement_def Let_def)
  then obtain r where r: "snd (verifier_Verify demo_env sample_request v) = (Some r, None)" "r_CheckResults r = r_CheckResults ?r"
    using enabled pol scope wf by (cases rule: Verify_cases [of demo_env sample_request v]) (auto simp: well_formed_request_def)
  then obtain v' where run: "verifier_Verify demo_env sample_request v = (v', Some r, None)" by (metis prod.collapse)
  have "mode_in_effect demo_env sample_request (vf_state v) = ModeEnforce" by (simp add: mode_in_effect_def pol rp v(2) mode)
  then show ?thesis using that new serving fair v(1) enabled run r allowed by metis
qed

lemma demo_scope:
  "isIncluded (vn_parse demo_env) (items (pl_Include sample_vsa_policy)) (rq_ImageRef sample_request)"
  "\<not> isExcluded (vn_parse demo_env) (items (pl_Exclude sample_vsa_policy)) (rq_ImageRef sample_request)"
  "well_formed_request sample_request"
  by code_simp+


end
