(* ===== verification/Spec2Isabelle.thy ===== *)
theory Spec2Isabelle
  imports Glob Result_Cache Circuit Remediation Policy_Validate Images Serving
begin

text \<open>
  Verification of the supply-chain policy plugin.
\<close>

end
